(* ===== verification/Prelude.thy ===== *)
theory Prelude
  imports Main "HOL-Library.AList" "HOL-Library.Multiset"
begin

section \<open>Prelude: Go values, maps, panics and machine integers\<close>

text \<open>
  What every component shares.  A Go \<open>string\<close> is a sequence of bytes, here a
  \<open>string\<close> (a list of 8-bit characters, so \<open>length\<close> is Go's \<open>len\<close>).  A Go map with
  string keys is an association list with distinct keys; the order in which \<open>range\<close>
  visits it is not fixed by the language, so every definition that ranges over a map takes
  the order as a parameter (\<open>map_order\<close>).  A run-time panic is a value of the type
  \<open>outcome\<close>.  An \<open>int64\<close> (and \<open>int\<close> on a 64-bit platform) is an \<open>int\<close>; where the
  code's arithmetic can leave the 64-bit range the wrap-around is written out with
  \<open>wrap64\<close>.
\<close>

named_theorems map_simps \<open>facts about association lists used as Go maps\<close>
named_theorems order_simps \<open>facts about ranging over a Go map\<close>

subsection \<open>Panics\<close>

datatype 'a outcome = Ret 'a | Panic

fun returns :: "'a outcome \<Rightarrow> bool" where
  "returns (Ret _) = True"
| "returns Panic = False"

subsection \<open>64-bit signed arithmetic\<close>

definition wrap64 :: "int \<Rightarrow> int" where
  "wrap64 x = (x + 2 ^ 63) mod 2 ^ 64 - 2 ^ 63"

definition in_int64 :: "int \<Rightarrow> bool" where
  "in_int64 x \<longleftrightarrow> - (2 ^ 63) \<le> x \<and> x < 2 ^ 63"

lemma wrap64_id: "in_int64 x \<Longrightarrow> wrap64 x = x"
  by (simp add: wrap64_def in_int64_def)

lemma in_int64_wrap64 [simp]: "in_int64 (wrap64 x)"
  by (simp add: wrap64_def in_int64_def)

lemma wrap64_over:
  assumes "2 ^ 63 \<le> x" and "x < 2 ^ 63 + 2 ^ 64"
  shows "wrap64 x = x - 2 ^ 64"
proof -
  have "(x + 2 ^ 63) mod 2 ^ 64 = ((x - 2 ^ 63) + 2 ^ 64) mod 2 ^ 64" by (simp add: add.commute)
  also have "\<dots> = x - 2 ^ 63" using assms by (simp only: mod_add_self2) simp
  finally show ?thesis by (simp add: wrap64_def)
qed

subsection \<open>Go maps with string keys\<close>

type_synonym 'v gomap = "(string \<times> 'v) list"

abbreviation map_put :: "string \<Rightarrow> 'v \<Rightarrow> 'v gomap \<Rightarrow> 'v gomap" where
  "map_put \<equiv> AList.update"

abbreviation map_del :: "string \<Rightarrow> 'v gomap \<Rightarrow> 'v gomap" where
  "map_del \<equiv> AList.delete"

definition map_has :: "'v gomap \<Rightarrow> string \<Rightarrow> bool" where
  "map_has m k \<longleftrightarrow> map_of m k \<noteq> None"

definition map_ok :: "'v gomap \<Rightarrow> bool" where
  "map_ok m \<longleftrightarrow> distinct (map fst m)"

lemma map_has_iff [map_simps]: "map_has m k \<longleftrightarrow> k \<in> fst ` set m"
  by (auto simp: map_has_def map_of_eq_None_iff)

lemma map_of_put [map_simps, simp]:
  "map_of (map_put k v m) k' = (if k' = k then Some v else map_of m k')"
  by (simp add: update_conv')

lemma map_of_del [map_simps, simp]:
  "map_of (map_del k m) k' = (if k' = k then None else map_of m k')"
  by (simp add: delete_conv')

lemma map_ok_Nil [map_simps, simp]: "map_ok []"
  by (simp add: map_ok_def)

lemma map_ok_put [map_simps, simp]: "map_ok m \<Longrightarrow> map_ok (map_put k v m)"
  by (simp add: map_ok_def distinct_update)

lemma map_ok_del [map_simps, simp]: "map_ok m \<Longrightarrow> map_ok (map_del k m)"
  by (simp add: map_ok_def distinct_delete)

lemma map_has_put [map_simps, simp]: "map_has (map_put k v m) k' \<longleftrightarrow> k' = k \<or> map_has m k'"
  by (simp add: map_has_def)

lemma map_has_del [map_simps, simp]: "map_has (map_del k m) k' \<longleftrightarrow> k' \<noteq> k \<and> map_has m k'"
  by (simp add: map_has_def)

lemma fst_put [map_simps]: "fst ` set (map_put k v m) = insert k (fst ` set m)"
  by (simp add: dom_update)

lemma length_put [map_simps]:
  "length (map_put k v m) = (if map_has m k then length m else Suc (length m))"
  by (induction m) (auto simp: map_has_iff)

lemma length_del [map_simps]:
  "map_ok m \<Longrightarrow> length (map_del k m) = (if map_has m k then length m - 1 else length m)"
proof (induction m)
  case (Cons p m)
  from Cons.prems have ok: "map_ok m" and notin: "fst p \<notin> fst ` set m"
    by (auto simp: map_ok_def)
  show ?case
  proof (cases "fst p = k")
    case True
    with notin show ?thesis by (cases p) (simp add: map_has_iff AList.delete_idem)
  next
    case False
    have "0 < length m" if "map_has m k"
      using that by (cases m) (simp_all add: map_has_iff)
    with False Cons.IH [OF ok] show ?thesis by (cases p) (auto simp: map_has_iff)
  qed
qed (simp add: map_has_iff)

subsection \<open>Ranging over a map\<close>

type_synonym map_order = "string list \<Rightarrow> string list"

text \<open>All the language promises: \<open>range\<close> visits every key exactly once.\<close>

definition order_ok :: "map_order \<Rightarrow> bool" where
  "order_ok it \<longleftrightarrow> (\<forall>ks. mset (it ks) = mset ks)"

definition range_keys :: "map_order \<Rightarrow> 'v gomap \<Rightarrow> string list" where
  "range_keys it m = it (map fst m)"

definition range_map :: "map_order \<Rightarrow> 'v gomap \<Rightarrow> (string \<times> 'v) list" where
  "range_map it m = map (\<lambda>k. (k, the (map_of m k))) (range_keys it m)"

lemma order_ok_id [simp]: "order_ok id"
  by (simp add: order_ok_def)

lemma order_ok_rev: "order_ok rev"
  by (simp add: order_ok_def)

lemma mset_range_keys [order_simps]: "order_ok it \<Longrightarrow> mset (range_keys it m) = mset (map fst m)"
  by (simp add: order_ok_def range_keys_def)

lemma set_range_keys [order_simps]: "order_ok it \<Longrightarrow> set (range_keys it m) = fst ` set m"
  by (metis mset_range_keys set_map set_mset_mset)

lemma length_range_keys [order_simps]: "order_ok it \<Longrightarrow> length (range_keys it m) = length m"
  by (metis length_map mset_range_keys size_mset)

lemma distinct_range_keys [order_simps]:
  "order_ok it \<Longrightarrow> map_ok m \<Longrightarrow> distinct (range_keys it m)"
  by (metis map_ok_def mset_range_keys mset_eq_imp_distinct_iff)

lemma map_of_self: "map_ok m \<Longrightarrow> map (\<lambda>k. (k, the (map_of m k))) (map fst m) = m"
proof (induction m)
  case (Cons p m)
  have "map (\<lambda>k. (k, the (map_of (p # m) k))) (map fst m)
      = map (\<lambda>k. (k, the (map_of m k))) (map fst m)"
    using Cons.prems by (intro map_cong) (auto simp: map_ok_def image_iff)
  with Cons show ?case by (simp add: map_ok_def)
qed simp

lemma mset_range_map [order_simps]:
  assumes "order_ok it" and "map_ok m"
  shows "mset (range_map it m) = mset m"
proof -
  have "mset (range_map it m) = image_mset (\<lambda>k. (k, the (map_of m k))) (mset (map fst m))"
    using assms(1) by (simp add: range_map_def mset_range_keys)
  also have "\<dots> = mset (map (\<lambda>k. (k, the (map_of m k))) (map fst m))"
    by (simp only: mset_map)
  finally show ?thesis
    using assms(2) by (simp only: map_of_self)
qed

lemma length_range_map [order_simps]: "order_ok it \<Longrightarrow> length (range_map it m) = length m"
  by (simp add: range_map_def length_range_keys)

lemma set_range_map [order_simps]:
  "order_ok it \<Longrightarrow> map_ok m \<Longrightarrow> set (range_map it m) = set m"
  by (metis mset_range_map set_mset_mset)

lemma map_fst_range_map [simp]: "map fst (range_map it m) = range_keys it m"
  by (simp add: range_map_def comp_def)

lemma map_ok_range_map [order_simps]: "order_ok it \<Longrightarrow> map_ok m \<Longrightarrow> map_ok (range_map it m)"
  using distinct_range_keys [of it m] by (simp add: map_ok_def)

lemma map_of_range_map [order_simps]:
  assumes "order_ok it" and "map_ok m"
  shows "map_of (range_map it m) = map_of m"
  using map_ok_range_map [OF assms] set_range_map [OF assms] assms(2)
  by (simp add: map_ok_def map_of_inject_set)

text \<open>The loop idiom \<open>for k, v := range m { if p { append } }\<close>.\<close>

lemma foldl_collect:
  "foldl (\<lambda>acc x. if p x then acc @ [f x] else acc) acc xs = acc @ map f (filter p xs)"
  by (induction xs arbitrary: acc) auto

lemma map_of_filter_snd:
  "map_ok m \<Longrightarrow> map_of (filter (\<lambda>(k, v). p v) m) k
     = (case map_of m k of None \<Rightarrow> None | Some v \<Rightarrow> if p v then Some v else None)"
  by (induction m) (auto simp: map_ok_def map_of_eq_None_iff split: option.splits
      dest: map_of_SomeD)

lemma map_of_foldl_put:
  "map_ok xs \<Longrightarrow> map_of (foldl (\<lambda>m (k, v). map_put k v m) acc xs) k
     = (case map_of xs k of None \<Rightarrow> map_of acc k | Some v \<Rightarrow> Some v)"
proof (induction xs arbitrary: acc)
  case (Cons p xs)
  from Cons.prems have "fst p \<notin> fst ` set xs" and "map_ok xs" by (auto simp: map_ok_def)
  then have none: "map_of xs (fst p) = None" by (simp only: map_of_eq_None_iff not_False_eq_True)
  show ?case
    using Cons.IH [OF \<open>map_ok xs\<close>] none by (cases p) (auto split: option.splits)
qed simp

lemma map_ok_foldl_put: "map_ok acc \<Longrightarrow> map_ok (foldl (\<lambda>m (k, v). map_put k v m) acc xs)"
  by (induction xs arbitrary: acc) (auto split: prod.splits)

lemma foldl_filter:
  "foldl (\<lambda>m x. if p x then f m x else m) acc xs = foldl f acc (filter p xs)"
  by (induction xs arbitrary: acc) auto

end
