(* ===== verification/Resp.thy ===== *)
theory Resp
  imports GoStrings
begin

section \<open>The RESP protocol: values, parser and encoder\<close>

text \<open>
  Models \<^verbatim>\<open>internal/server/resp.go\<close>.  The parser's \<open>bufio.Reader\<close> is the list of
  bytes that will still arrive before the stream ends.  \<open>Read\<close> and its helpers return
  \<open>Got v rest\<close> (a value and what is left of the stream), \<open>Fail e\<close> (a non-nil error)
  or \<open>Crash\<close> (a run-time panic: a slice bound or a \<open>make\<close> length out of range).

  The parser's field \<open>depth\<close> is the argument \<open>d\<close>: a \<open>readArray\<close> that passes its
  check restores it on return, and no caller reads again after an error.
\<close>

abbreviation CR :: char where "CR \<equiv> CHR 0x0D"
abbreviation LF :: char where "LF \<equiv> CHR 0x0A"
abbreviation crlf :: string where "crlf \<equiv> [CR, LF]"

definition MaxRESPDepth :: nat where
  "MaxRESPDepth = 32"

definition MaxBulkStringSize :: int where
  "MaxBulkStringSize = 512 * 1024 * 1024"

datatype resp_error = EOF | ErrInvalidRESP | ErrRESPTooDeep | ErrRESPTooLarge | UnknownType char

datatype RESPType = SimpleString | Error | Integer | BulkString | Array

datatype RESPValue =
  RESPValue (Type: RESPType) (Str: string) (IntV: int) (Elems: "RESPValue list") (IsNull: bool)

text \<open>The struct literals of the code: fields that a literal omits are zero.\<close>

abbreviation simple :: "string \<Rightarrow> RESPValue" where
  "simple s \<equiv> RESPValue SimpleString s 0 [] False"
abbreviation err :: "string \<Rightarrow> RESPValue" where
  "err s \<equiv> RESPValue Error s 0 [] False"
abbreviation integer :: "int \<Rightarrow> RESPValue" where
  "integer i \<equiv> RESPValue Integer [] i [] False"
abbreviation bulk :: "string \<Rightarrow> RESPValue" where
  "bulk s \<equiv> RESPValue BulkString s 0 [] False"
abbreviation null_bulk :: RESPValue where
  "null_bulk \<equiv> RESPValue BulkString [] 0 [] True"
abbreviation array :: "RESPValue list \<Rightarrow> RESPValue" where
  "array vs \<equiv> RESPValue Array [] 0 vs False"
abbreviation null_array :: RESPValue where
  "null_array \<equiv> RESPValue Array [] 0 [] True"

datatype 'a parse = Got 'a string | Fail resp_error | Crash

subsection \<open>Lines\<close>

text \<open>\<open>reader.ReadString('\n')\<close>: up to and including the first line feed; \<open>None\<close> at EOF.\<close>

fun read_line :: "string \<Rightarrow> (string \<times> string) option" where
  "read_line [] = None"
| "read_line (c # s) =
     (if c = LF then Some ([c], s)
      else case read_line s of None \<Rightarrow> None | Some (l, r) \<Rightarrow> Some (c # l, r))"

text \<open>The check \<open>len(line) < 2 || line[len(line)-2] != '\r'\<close>.\<close>

definition missing_crlf :: "string \<Rightarrow> bool" where
  "missing_crlf line \<longleftrightarrow> length line < 2 \<or> line ! (length line - 2) \<noteq> CR"

definition readSimpleString :: "string \<Rightarrow> RESPValue parse" where
  "readSimpleString s =
     (case read_line s of
        None \<Rightarrow> Fail ErrInvalidRESP
      | Some (line, rest) \<Rightarrow>
          if missing_crlf line then Fail ErrInvalidRESP
          else Got (simple (take (length line - 2) line)) rest)"

definition readError :: "string \<Rightarrow> RESPValue parse" where
  "readError s =
     (case read_line s of
        None \<Rightarrow> Fail ErrInvalidRESP
      | Some (line, rest) \<Rightarrow>
          if missing_crlf line then Fail ErrInvalidRESP
          else Got (err (take (length line - 2) line)) rest)"

definition readInteger :: "string \<Rightarrow> RESPValue parse" where
  "readInteger s =
     (case read_line s of
        None \<Rightarrow> Fail ErrInvalidRESP
      | Some (line, rest) \<Rightarrow>
          if missing_crlf line then Fail ErrInvalidRESP
          else case ParseInt (take (length line - 2) line) of
            None \<Rightarrow> Fail ErrInvalidRESP
          | Some val \<Rightarrow> Got (integer val) rest)"

text \<open>
  \<open>lengthStr[:len(lengthStr)-2]\<close> panics when the line is a lone line feed.
  \<open>make([]byte, length+2)\<close> panics for a length below -2, and \<open>data[:length]\<close> for
  the length -2.
\<close>

definition readBulkString :: "string \<Rightarrow> RESPValue parse" where
  "readBulkString s =
     (case read_line s of
        None \<Rightarrow> Fail ErrInvalidRESP
      | Some (lengthStr, rest) \<Rightarrow>
          if length lengthStr < 2 then Crash
          else case Atoi (take (length lengthStr - 2) lengthStr) of
            None \<Rightarrow> Fail ErrInvalidRESP
          | Some n \<Rightarrow>
              if n = -1 then Got null_bulk rest
              else if n = 0 then Got (bulk []) rest
              else if n > MaxBulkStringSize then Fail ErrRESPTooLarge
              else if n + 2 < 0 then Crash
              else if length rest < nat (n + 2) then Fail ErrInvalidRESP
              else if n < 0 then Crash
              else Got (bulk (take (nat n) rest)) (drop (nat (n + 2)) rest))"

text \<open>
  \<open>make([]RESPValue, length)\<close> panics when the length is negative or the array would
  take more than the \<open>2 ^ 48\<close> bytes the run-time can address (an element has 64 bytes);
  a smaller array is taken to fit in memory.
\<close>

definition makeslice_panics :: "int \<Rightarrow> bool" where
  "makeslice_panics n \<longleftrightarrow> n < 0 \<or> 64 * n > 2 ^ 48"

function resp_Read :: "nat \<Rightarrow> string \<Rightarrow> RESPValue parse"
  and readArray :: "nat \<Rightarrow> string \<Rightarrow> RESPValue parse"
  and read_elems :: "nat \<Rightarrow> nat \<Rightarrow> string \<Rightarrow> RESPValue list parse" where
  "resp_Read d s =
     (case s of
        [] \<Rightarrow> Fail EOF
      | b # s' \<Rightarrow>
          if b = CHR ''+'' then readSimpleString s'
          else if b = CHR ''-'' then readError s'
          else if b = CHR '':'' then readInteger s'
          else if b = CHR ''$'' then readBulkString s'
          else if b = CHR ''*'' then readArray d s'
          else Fail (UnknownType b))"
| "readArray d s =
     (if d + 1 > MaxRESPDepth then Fail ErrRESPTooDeep
      else case read_line s of
        None \<Rightarrow> Fail ErrInvalidRESP
      | Some (lengthStr, rest) \<Rightarrow>
          if length lengthStr < 2 then Crash
          else case Atoi (take (length lengthStr - 2) lengthStr) of
            None \<Rightarrow> Fail ErrInvalidRESP
          | Some n \<Rightarrow>
              if n = -1 then Got null_array rest
              else if makeslice_panics n then Crash
              else case read_elems (d + 1) (nat n) rest of
                Got vs rest' \<Rightarrow> Got (array vs) rest'
              | Fail e \<Rightarrow> Fail e
              | Crash \<Rightarrow> Crash)"
| "read_elems d n s =
     (case n of
        0 \<Rightarrow> Got [] s
      | Suc m \<Rightarrow>
         (case resp_Read d s of
            Fail e \<Rightarrow> Fail ErrInvalidRESP
          | Crash \<Rightarrow> Crash
          | Got v s' \<Rightarrow>
             (case read_elems d m s' of
                Got vs s'' \<Rightarrow> Got (v # vs) s''
              | Fail e \<Rightarrow> Fail e
              | Crash \<Rightarrow> Crash)))"
  by pat_completeness auto
termination
  by (relation "measures
      [\<lambda>x. case x of Inl (d, s) \<Rightarrow> 33 - d | Inr (Inl (d, s)) \<Rightarrow> 33 - d
         | Inr (Inr (d, n, s)) \<Rightarrow> 33 - d,
       \<lambda>x. case x of Inl (d, s) \<Rightarrow> 1 | Inr (Inl (d, s)) \<Rightarrow> 0
         | Inr (Inr (d, n, s)) \<Rightarrow> 2 + n]")
    (auto simp: MaxRESPDepth_def)

declare resp_Read.simps [simp del] readArray.simps [simp del] read_elems.simps [simp del]

subsection \<open>The encoder\<close>

fun encodeRESPToBuilder :: "string \<Rightarrow> RESPValue \<Rightarrow> string" where
  "encodeRESPToBuilder b (RESPValue t s i vs isnull) =
     (case t of
        SimpleString \<Rightarrow> b @ ''+'' @ s @ crlf
      | Error \<Rightarrow> b @ ''-'' @ s @ crlf
      | Integer \<Rightarrow> b @ '':'' @ Itoa i @ crlf
      | BulkString \<Rightarrow>
          if isnull then b @ ''$-1'' @ crlf
          else b @ ''$'' @ Itoa (int (length s)) @ crlf @ s @ crlf
      | Array \<Rightarrow>
          if isnull then b @ ''*-1'' @ crlf
          else foldl (\<lambda>b v. encodeRESPToBuilder b v)
                 (b @ ''*'' @ Itoa (int (length vs)) @ crlf) vs)"

definition EncodeRESP :: "RESPValue \<Rightarrow> string" where
  "EncodeRESP v = encodeRESPToBuilder [] v"

subsection \<open>One step of the reader\<close>

lemma read_elems_0 [simp]: "read_elems d 0 s = Got [] s"
  by (simp add: read_elems.simps)

lemma read_elems_Suc:
  "read_elems d (Suc n) s =
     (case resp_Read d s of
        Fail e \<Rightarrow> Fail ErrInvalidRESP
      | Crash \<Rightarrow> Crash
      | Got v s' \<Rightarrow>
         (case read_elems d n s' of
            Got vs s'' \<Rightarrow> Got (v # vs) s''
          | Fail e \<Rightarrow> Fail e
          | Crash \<Rightarrow> Crash))"
  by (simp add: read_elems.simps [of d "Suc n"])

lemma resp_Read_byte [simp]:
  "resp_Read d (CHR ''+'' # s) = readSimpleString s"
  "resp_Read d (CHR ''-'' # s) = readError s"
  "resp_Read d (CHR '':'' # s) = readInteger s"
  "resp_Read d (CHR ''$'' # s) = readBulkString s"
  "resp_Read d (CHR ''*'' # s) = readArray d s"
  by (simp_all add: resp_Read.simps)

subsection \<open>Lines: what reading one consumes\<close>

lemma read_line_append: "LF \<notin> set s \<Longrightarrow> read_line (s @ LF # r) = Some (s @ [LF], r)"
  by (induction s) auto

lemma read_line_crlf [simp]:
  assumes "LF \<notin> set s"
  shows "read_line (s @ CR # LF # r) = Some (s @ crlf, r)"
  using read_line_append [of "s @ [CR]" r] assms by simp

lemma read_line_SomeD: "read_line s = Some (l, r) \<Longrightarrow> s = l @ r \<and> l \<noteq> []"
  by (induction s arbitrary: l) (auto split: if_splits option.splits)

lemma not_missing_crlf [simp]: "\<not> missing_crlf (s @ crlf)"
  by (simp add: missing_crlf_def nth_append)

lemma digits_no_LF [simp]: "LF \<notin> set (Itoa i)"
  using Itoa_no_newline [of LF i] by auto

text \<open>\<open>suffix_of r s\<close>: reading got from \<open>s\<close> to \<open>r\<close> by consuming at least one byte.\<close>

definition suffix_of :: "string \<Rightarrow> string \<Rightarrow> bool" where
  "suffix_of r s \<longleftrightarrow> (\<exists>pre. pre \<noteq> [] \<and> s = pre @ r)"

lemma suffix_of_Cons: "suffix_of r s \<Longrightarrow> suffix_of r (c # s)"
  unfolding suffix_of_def by (metis append_Cons list.distinct(1))

lemma suffix_of_self: "suffix_of s (c # s)"
  unfolding suffix_of_def by (metis append_Cons append_Nil list.distinct(1))

lemma suffix_of_trans: "suffix_of r s \<Longrightarrow> suffix_of s t \<Longrightarrow> suffix_of r t"
  unfolding suffix_of_def by (metis append_assoc append_is_Nil_conv)

lemma suffix_of_drop: "suffix_of r s \<Longrightarrow> suffix_of (drop n r) s"
  unfolding suffix_of_def by (metis append_assoc append_is_Nil_conv append_take_drop_id)

lemma suffix_of_length: "suffix_of r s \<Longrightarrow> length r < length s"
  by (auto simp: suffix_of_def)

lemma suffix_of_read_line: "read_line s = Some (l, r) \<Longrightarrow> suffix_of r s"
  unfolding suffix_of_def using read_line_SomeD by blast

lemmas line_readers =
  readSimpleString_def readError_def readInteger_def readBulkString_def

lemma line_readers_suffix:
  "readSimpleString s = Got v r \<Longrightarrow> suffix_of r s"
  "readError s = Got v r \<Longrightarrow> suffix_of r s"
  "readInteger s = Got v r \<Longrightarrow> suffix_of r s"
  "readBulkString s = Got v r \<Longrightarrow> suffix_of r s"
  by (auto simp: line_readers split: option.splits if_splits dest!: suffix_of_read_line
      intro: suffix_of_drop)

lemma resp_Read_suffix:
  "resp_Read d s = Got v r \<Longrightarrow> suffix_of r s"
  "readArray d s = Got v r \<Longrightarrow> suffix_of r s"
  "read_elems d n s = Got vs r \<Longrightarrow> r = s \<or> suffix_of r s"
proof (induction d s and d s and d n s arbitrary: v r and v r and vs r
    rule: resp_Read_readArray_read_elems.induct)
  case (1 d s)
  show ?case
  proof (cases s)
    case (Cons b s')
    with 1 have "suffix_of r s'"
      by (auto simp: resp_Read.simps line_readers_suffix split: if_splits)
    with Cons show ?thesis by (simp add: suffix_of_Cons)
  qed (use 1 in \<open>simp add: resp_Read.simps\<close>)
next
  case (2 d s)
  from "2.prems" obtain l b where l: "read_line s = Some (l, b)"
    by (auto simp: readArray.simps [of d s] split: if_splits option.splits)
  consider "r = b" | n vs where "n \<noteq> -1" "\<not> makeslice_panics n" "\<not> length l < 2"
      "\<not> d + 1 > MaxRESPDepth" "Atoi (take (length l - 2) l) = Some n"
      "read_elems (d + 1) (nat n) b = Got vs r"
    using "2.prems" l
    by (auto simp: readArray.simps [of d s] split: if_splits option.splits parse.splits)
  then have "r = b \<or> suffix_of r b"
  proof cases
    case 2
    then show ?thesis using "2.IH" l by blast
  qed simp
  with suffix_of_read_line [OF l] show ?case by (auto intro: suffix_of_trans)
next
  case (3 d n s)
  show ?case
  proof (cases n)
    case (Suc m)
    with "3.prems" obtain v s' vs' where *: "resp_Read d s = Got v s'" "read_elems d m s' = Got vs' r"
      by (auto simp: read_elems_Suc split: parse.splits)
    then have "suffix_of s' s" and "r = s' \<or> suffix_of r s'"
      using "3.IH" Suc by blast+
    then show ?thesis by (auto intro: suffix_of_trans)
  qed (use "3.prems" in \<open>simp add: read_elems.simps\<close>)
qed

subsection \<open>The encoder, without its accumulator\<close>

lemma foldl_append_concat:
  "(\<And>b v. v \<in> set vs \<Longrightarrow> f b v = b @ g v) \<Longrightarrow> foldl f b vs = b @ concat (map g vs)"
  by (induction vs arbitrary: b) auto

lemma encodeRESPToBuilder_append: "encodeRESPToBuilder b v = b @ EncodeRESP v"
proof (induction v arbitrary: b)
  case (RESPValue t s i vs nl)
  have *: "foldl (\<lambda>b v. encodeRESPToBuilder b v) b vs = b @ concat (map EncodeRESP vs)" for b
    by (rule foldl_append_concat) (rule RESPValue.IH)
  show ?case
    by (cases t) (simp_all add: EncodeRESP_def *)
qed

lemma foldl_encode:
  "foldl (\<lambda>b v. encodeRESPToBuilder b v) b vs = b @ concat (map EncodeRESP vs)"
  by (rule foldl_append_concat) (rule encodeRESPToBuilder_append)

lemma EncodeRESP_simps [simp]:
  "EncodeRESP (RESPValue SimpleString s i vs nl) = ''+'' @ s @ crlf"
  "EncodeRESP (RESPValue Error s i vs nl) = ''-'' @ s @ crlf"
  "EncodeRESP (RESPValue Integer s i vs nl) = '':'' @ Itoa i @ crlf"
  "EncodeRESP (RESPValue BulkString s i vs True) = ''$-1'' @ crlf"
  "EncodeRESP (RESPValue BulkString s i vs False) = ''$'' @ Itoa (int (length s)) @ crlf @ s @ crlf"
  "EncodeRESP (RESPValue Array s i vs True) = ''*-1'' @ crlf"
  "EncodeRESP (RESPValue Array s i vs False) =
     ''*'' @ Itoa (int (length vs)) @ crlf @ concat (map EncodeRESP vs)"
  by (simp_all add: EncodeRESP_def foldl_encode)

subsection \<open>Well-formed values\<close>

text \<open>
  \<open>resp_ok d v\<close>: a value below \<open>d\<close> enclosing arrays as the parser can return it.  A
  status or error line holds no line feed, an integer has 64 bits, a bulk string at most
  512 MB, an array sits at most 32 deep, and the fields that a type does not use are zero.
  \<open>no_empty_bulk v\<close>: no bulk string in \<open>v\<close> is empty.
\<close>

fun resp_ok :: "nat \<Rightarrow> RESPValue \<Rightarrow> bool" where
  "resp_ok d (RESPValue t s i vs nl) =
     (case t of
        SimpleString \<Rightarrow> LF \<notin> set s \<and> i = 0 \<and> vs = [] \<and> \<not> nl
      | Error \<Rightarrow> LF \<notin> set s \<and> i = 0 \<and> vs = [] \<and> \<not> nl
      | Integer \<Rightarrow> s = [] \<and> in_int64 i \<and> vs = [] \<and> \<not> nl
      | BulkString \<Rightarrow> i = 0 \<and> vs = [] \<and> int (length s) \<le> MaxBulkStringSize \<and> (nl \<longrightarrow> s = [])
      | Array \<Rightarrow> s = [] \<and> i = 0 \<and> d < MaxRESPDepth \<and> 64 * int (length vs) \<le> 2 ^ 48 \<and>
          (nl \<longrightarrow> vs = []) \<and> list_all (\<lambda>v. resp_ok (Suc d) v) vs)"

fun no_empty_bulk :: "RESPValue \<Rightarrow> bool" where
  "no_empty_bulk (RESPValue t s i vs nl) =
     ((t = BulkString \<and> \<not> nl \<longrightarrow> s \<noteq> []) \<and> list_all (\<lambda>v. no_empty_bulk v) vs)"

subsection \<open>Reading back what was encoded\<close>

lemma ParseInt_len [simp]: "int n \<le> 2 ^ 62 \<Longrightarrow> ParseInt (Itoa (int n)) = Some (int n)"
  by (rule ParseInt_Itoa) (simp add: in_int64_def)

lemma ParseInt_minus_one [simp]: "ParseInt ''-1'' = Some (- 1)"
  by (simp add: ParseInt_def read_nat_def is_digit_def digit_val_def in_int64_def)

lemma read_minus_one [simp]:
  "read_line (CHR ''-'' # CHR ''1'' # CR # LF # r) = Some (''-1'' @ crlf, r)"
  by simp

lemma read_elems_append:
  assumes "\<And>v r. v \<in> set us \<Longrightarrow> resp_Read d (EncodeRESP v @ r) = Got v r"
  shows "read_elems d (length us + n) (concat (map EncodeRESP us) @ rest) =
     (case read_elems d n rest of
        Got vs r \<Rightarrow> Got (us @ vs) r | Fail e \<Rightarrow> Fail e | Crash \<Rightarrow> Crash)"
  using assms by (induction us) (auto simp: read_elems_Suc split: parse.splits)

lemma readBulkString_encoded:
  assumes "s \<noteq> []" and "int (length s) \<le> MaxBulkStringSize"
  shows "readBulkString (Itoa (int (length s)) @ crlf @ s @ crlf @ r) = Got (bulk s) r"
proof -
  have "int (length s) \<le> 2 ^ 62"
    using assms(2) by (simp add: MaxBulkStringSize_def)
  then show ?thesis
    using assms by (simp add: readBulkString_def nat_add_distrib)
qed

lemma readArray_header:
  assumes "d < MaxRESPDepth" and "64 * int n \<le> 2 ^ 48"
  shows "readArray d (Itoa (int n) @ crlf @ s) =
     (case read_elems (Suc d) n s of
        Got vs r \<Rightarrow> Got (array vs) r | Fail e \<Rightarrow> Fail e | Crash \<Rightarrow> Crash)"
proof -
  have "int n \<le> 2 ^ 62" using assms(2) by simp
  then show ?thesis
    using assms by (simp add: readArray.simps makeslice_panics_def)
qed

lemma resp_Read_encoded:
  "resp_ok d v \<Longrightarrow> no_empty_bulk v \<Longrightarrow> resp_Read d (EncodeRESP v @ rest) = Got v rest"
proof (induction v arbitrary: d rest)
  case (RESPValue t s i vs nl)
  show ?case
  proof (cases t)
    case SimpleString
    with RESPValue.prems show ?thesis by (simp add: readSimpleString_def)
  next
    case Error
    with RESPValue.prems show ?thesis by (simp add: readError_def)
  next
    case Integer
    with RESPValue.prems show ?thesis by (simp add: readInteger_def)
  next
    case BulkString
    with RESPValue.prems show ?thesis
      using readBulkString_encoded [of s rest] by (cases nl) (simp_all add: readBulkString_def)
  next
    case Array
    show ?thesis
    proof (cases nl)
      case True
      with Array RESPValue.prems show ?thesis by (simp add: readArray.simps)
    next
      case False
      have "resp_Read (Suc d) (EncodeRESP v @ r) = Got v r" if "v \<in> set vs" for v r
        using RESPValue.IH [OF that] RESPValue.prems Array that by (simp add: list_all_iff)
      then have "read_elems (Suc d) (length vs) (concat (map EncodeRESP vs) @ rest) = Got vs rest"
        using read_elems_append [of vs "Suc d" 0 rest] by simp
      with Array False RESPValue.prems readArray_header [of d "length vs"] show ?thesis by simp
    qed
  qed
qed

subsection \<open>What the parser returns\<close>

lemma read_line_butlast: "read_line s = Some (l, r) \<Longrightarrow> LF \<notin> set (butlast l)"
  by (induction s arbitrary: l) (auto split: if_splits option.splits)

lemma read_line_no_LF: "read_line s = Some (l, r) \<Longrightarrow> LF \<notin> set (take (length l - 2) l)"
  using read_line_butlast [of s l r]
  by (metis butlast_conv_take diff_le_self in_set_takeD length_butlast take_take min_def
      diff_le_mono2 one_le_numeral)

lemma ParseInt_in_int64: "ParseInt s = Some i \<Longrightarrow> in_int64 i"
  by (auto simp: ParseInt_def Let_def split: option.splits if_splits)

lemma line_readers_ok:
  "readSimpleString s = Got v r \<Longrightarrow> resp_ok d v"
  "readError s = Got v r \<Longrightarrow> resp_ok d v"
  "readInteger s = Got v r \<Longrightarrow> resp_ok d v"
  "readBulkString s = Got v r \<Longrightarrow> resp_ok d v"
  by (auto simp: line_readers MaxBulkStringSize_def read_line_no_LF ParseInt_in_int64
      split: option.splits if_splits)

lemma read_elems_length: "read_elems d n s = Got vs r \<Longrightarrow> length vs = n"
  by (induction n arbitrary: s vs) (auto simp: read_elems_Suc split: parse.splits)

lemma resp_Read_ok:
  "resp_Read d s = Got v r \<Longrightarrow> resp_ok d v"
  "readArray d s = Got v r \<Longrightarrow> resp_ok d v"
  "read_elems d n s = Got vs r \<Longrightarrow> list_all (resp_ok d) vs"
proof (induction d s and d s and d n s arbitrary: v r and v r and vs r
    rule: resp_Read_readArray_read_elems.induct)
  case (1 d s)
  then show ?case
    by (auto simp: resp_Read.simps [of d s] line_readers_ok split: if_splits list.splits)
next
  case (2 d s)
  from "2.prems" obtain l b where l: "read_line s = Some (l, b)"
    by (auto simp: readArray.simps [of d s] split: if_splits option.splits)
  consider "v = null_array" "d < MaxRESPDepth" | n vs where "n \<noteq> -1" "\<not> makeslice_panics n"
      "\<not> length l < 2" "\<not> d + 1 > MaxRESPDepth" "Atoi (take (length l - 2) l) = Some n"
      "read_elems (d + 1) (nat n) b = Got vs r" "v = array vs"
    using "2.prems" l
    by (auto simp: readArray.simps [of d s] split: if_splits option.splits parse.splits)
  then show ?case
  proof cases
    case (2 n vs)
    then have "list_all (resp_ok (d + 1)) vs" using "2.IH" l by blast
    with 2 show ?thesis
      using read_elems_length [of "d + 1" "nat n" b vs r] by (auto simp: makeslice_panics_def)
  qed simp
next
  case (3 d n s)
  show ?case
  proof (cases n)
    case (Suc m)
    with "3.prems" obtain v s' vs' where *: "resp_Read d s = Got v s'"
        "read_elems d m s' = Got vs' r" "vs = v # vs'"
      by (auto simp: read_elems_Suc split: parse.splits)
    then have "resp_ok d v" and "list_all (resp_ok d) vs'"
      using "3.IH" Suc by blast+
    with * show ?thesis by simp
  qed (use "3.prems" in simp)
qed

subsection \<open>Properties\<close>

text \<open>C7: Encoding a reply or a command with \<open>EncodeRESP\<close> and reading it back with
  \<open>Read\<close> gives the same value and leaves exactly the bytes that followed, for every
  well-formed value without empty bulk strings.\<close>

theorem resp_roundtrip:
  assumes "resp_ok 0 v" and "no_empty_bulk v"
  shows "resp_Read 0 (EncodeRESP v @ rest) = Got v rest"
  using assms by (rule resp_Read_encoded)

lemma resp_roundtrip_witness:
  "resp_Read 0 (EncodeRESP (array [bulk ''SET'', bulk ''k'', null_bulk, integer (- 7)]) @ ''+'')
     = Got (array [bulk ''SET'', bulk ''k'', null_bulk, integer (- 7)]) ''+''"
  by (rule resp_roundtrip) (simp_all add: MaxRESPDepth_def MaxBulkStringSize_def in_int64_def)

text \<open>Every value the parser returns is well formed: arrays nest at most 32 deep, bulk
  strings have at most 512 MB, integers are 64-bit and lines hold no line feed; and the
  parser has consumed at least one byte, leaving a proper suffix of its input.\<close>

theorem parser_output_ok:
  assumes "resp_Read d s = Got v r"
  shows "resp_ok d v \<and> (\<exists>pre. pre \<noteq> [] \<and> s = pre @ r)"
  using resp_Read_ok(1) [OF assms] resp_Read_suffix(1) [OF assms] by (simp add: suffix_of_def)

lemma parser_output_ok_witness:
  "resp_ok 0 (bulk ''ab'') \<and> (\<exists>pre. pre \<noteq> [] \<and> ''$2'' @ crlf @ ''abxyZ'' = pre @ ''Z'')"
proof (rule parser_output_ok)
  show "resp_Read 0 (''$2'' @ crlf @ ''abxyZ'') = Got (bulk ''ab'') ''Z''"
    by (simp add: readBulkString_def ParseInt_def read_nat_def is_digit_def digit_val_def
        in_int64_def MaxBulkStringSize_def)
qed

lemma readBulkString_empty: "readBulkString (CHR ''0'' # CR # LF # r) = Got (bulk []) r"
  by (simp add: readBulkString_def ParseInt_def read_nat_def is_digit_def digit_val_def
      in_int64_def)

lemma empty_bulk_fails:
  assumes "list_all (resp_ok 1) us" and "list_all no_empty_bulk us"
    and "64 * (int (length us) + int (length vs) + 2) \<le> 2 ^ 48"
  shows "resp_Read 0 (EncodeRESP (array (us @ bulk [] # v # vs)) @ rest) = Fail ErrInvalidRESP"
proof -
  let ?tail = "EncodeRESP (bulk []) @ EncodeRESP v @ concat (map EncodeRESP vs) @ rest"
  have us: "resp_Read 1 (EncodeRESP u @ r) = Got u r" if "u \<in> set us" for u r
    using that assms by (intro resp_Read_encoded) (simp_all add: list_all_iff)
  have "read_elems 1 (Suc (Suc (length vs))) ?tail = Fail ErrInvalidRESP"
    by (simp add: read_elems_Suc Itoa_def show_nat.simps readBulkString_empty
        resp_Read.simps)
  then have "read_elems 1 (length us + Suc (Suc (length vs))) (concat (map EncodeRESP us) @ ?tail)
      = Fail ErrInvalidRESP"
    using us by (simp only: read_elems_append parse.case)
  then show ?thesis
    using readArray_header [of 0 "length us + Suc (Suc (length vs))"] assms(3)
    by (simp add: MaxRESPDepth_def algebra_simps)
qed

text \<open>The parser does not consume the line end that follows an empty bulk string, so
  a command that the code's own encoder (or any client) writes with an empty argument
  before another argument is rejected: the array fails with ErrInvalidRESP.\<close>

theorem empty_bulk_desync:
  assumes "list_all (resp_ok 1) us" and "list_all no_empty_bulk us"
    and "64 * (int (length us) + int (length vs) + 2) \<le> 2 ^ 48"
  shows "resp_Read 0 (EncodeRESP (array (us @ bulk [] # v # vs)) @ rest) = Fail ErrInvalidRESP"
  using assms by (rule empty_bulk_fails)

lemma empty_bulk_desync_witness:
  "resp_Read 0 (EncodeRESP (array ([bulk ''SET'', bulk ''k''] @ bulk [] # bulk ''EX'' # [bulk ''9''])))
     = Fail ErrInvalidRESP"
  using empty_bulk_desync [of "[bulk ''SET'', bulk ''k'']" "[bulk ''9'']" "bulk ''EX''" "[]"]
  by (simp add: MaxBulkStringSize_def)

text \<open>A client can stop the whole process before it has authenticated: on a length line
  that is a lone line feed, and on a length below -1, the parser panics (a slice bound or a
  make length out of range) in a goroutine without a recover.\<close>

theorem parser_panics:
  assumes "d < MaxRESPDepth" and "n < -1" and "in_int64 n"
  shows "resp_Read d (''$'' @ [LF] @ rest) = Crash \<and> resp_Read d (''*'' @ [LF] @ rest) = Crash
    \<and> resp_Read d (''$'' @ Itoa n @ crlf @ rest) = Crash
    \<and> resp_Read d (''*'' @ Itoa n @ crlf @ rest) = Crash"
  using assms
  by (auto simp: readBulkString_def readArray.simps makeslice_panics_def MaxBulkStringSize_def)

lemma parser_panics_witness:
  "resp_Read 0 (''$'' @ [LF] @ []) = Crash \<and> resp_Read 0 (''*'' @ [LF] @ []) = Crash
    \<and> resp_Read 0 (''$'' @ Itoa (- 2) @ crlf @ []) = Crash
    \<and> resp_Read 0 (''*'' @ Itoa (- 2) @ crlf @ []) = Crash"
  by (rule parser_panics) (simp_all add: MaxRESPDepth_def in_int64_def)

end
