(* ===== verification/Item.thy ===== *)
theory Item
  imports Prelude
begin

section \<open>Cache items and their expiration\<close>

text \<open>
  Models \<^verbatim>\<open>internal/engine/item.go\<close>, at the type \<open>Item[string]\<close> that the program
  uses.  A call of \<open>time.Now().UnixNano()\<close> is the argument \<open>now\<close>; a duration is its
  number of nanoseconds.  \<open>now.Add(ttl).UnixNano()\<close> and the subtraction in \<open>TTL\<close> are
  64-bit and wrap around.
\<close>

record item =
  Value :: string
  Expiration :: int
  CreatedAt :: int

definition NewItem :: "int \<Rightarrow> string \<Rightarrow> int \<Rightarrow> item" where
  "NewItem now value ttl =
     \<lparr>Value = value, Expiration = (if ttl > 0 then wrap64 (now + ttl) else 0), CreatedAt = now\<rparr>"

definition IsExpired :: "int \<Rightarrow> item \<Rightarrow> bool" where
  "IsExpired now i = (if Expiration i = 0 then False else now > Expiration i)"

definition Item_TTL :: "int \<Rightarrow> item \<Rightarrow> int" where
  "Item_TTL now i =
     (if Expiration i = 0 then -1
      else let remaining = wrap64 (Expiration i - now) in
        if remaining < 0 then 0 else remaining)"

lemma NewItem_sel [simp]:
  "Value (NewItem now v ttl) = v"
  "CreatedAt (NewItem now v ttl) = now"
  "ttl \<le> 0 \<Longrightarrow> Expiration (NewItem now v ttl) = 0"
  "0 < ttl \<Longrightarrow> in_int64 (now + ttl) \<Longrightarrow> Expiration (NewItem now v ttl) = now + ttl"
  by (simp_all add: NewItem_def wrap64_id)

lemma IsExpired_NewItem:
  assumes "0 < ttl" and "in_int64 (now + ttl)" and "now + ttl \<noteq> 0"
  shows "IsExpired t (NewItem now v ttl) \<longleftrightarrow> t > now + ttl"
  using assms by (simp add: IsExpired_def)

lemma IsExpired_no_ttl [simp]: "ttl \<le> 0 \<Longrightarrow> \<not> IsExpired t (NewItem now v ttl)"
  by (simp add: IsExpired_def)

lemma IsExpired_mono: "IsExpired t i \<Longrightarrow> t \<le> t' \<Longrightarrow> IsExpired t' i"
  by (auto simp: IsExpired_def split: if_splits)

end
