(* ===== verification/Lru.thy ===== *)
theory Lru
  imports Item
begin

section \<open>The LRU evictor\<close>

text \<open>
  Models \<^verbatim>\<open>internal/engine/lru.go\<close>.  The struct keeps a map from keys to elements of a
  doubly linked list (\<open>container/list\<close>) and the list itself, most recently used first.
  An element is a pointer: here a number, allocated from \<open>next_elem\<close>.  \<open>elems\<close> is the
  heap of the elements' values (the field \<open>Value\<close> of \<open>list.Element\<close>), which outlive
  their removal from the list as they do in Go.  \<open>order\<close> is the list front to back.
  The logger is left out.

  The second half states the data structure's contract: the abstraction \<open>lru_abs\<close> is the
  list of (key, item) pairs in recency order, and every operation refines the corresponding
  operation on such lists.
\<close>

subsection \<open>The operations\<close>

record lruEntry =
  e_key :: string
  e_value :: item
  e_size :: int

record lru =
  capacity :: int
  maxMemory :: int
  currentMem :: int
  items :: "nat gomap"
  order :: "nat list"
  elems :: "nat \<Rightarrow> lruEntry"
  next_elem :: nat

text \<open>The dynamic types that the type switch of \<open>calculateSize\<close> tells apart.\<close>

datatype dyn = DString string | DInt int | DUint nat | DFloat | DBool bool | DOther

definition calculateSize :: "string \<Rightarrow> dyn \<Rightarrow> int" where
  "calculateSize key v =
     int (length key) +
     (case v of
        DString s \<Rightarrow> int (length s)
      | DInt _ \<Rightarrow> 8
      | DUint _ \<Rightarrow> 8
      | DFloat \<Rightarrow> 8
      | DBool _ \<Rightarrow> 1
      | DOther \<Rightarrow> 64)"

definition no_elems :: "nat \<Rightarrow> lruEntry" where
  "no_elems = (\<lambda>_. \<lparr>e_key = [], e_value = \<lparr>Value = [], Expiration = 0, CreatedAt = 0\<rparr>, e_size = 0\<rparr>)"

definition NewLRU :: "int \<Rightarrow> lru" where
  "NewLRU cap = \<lparr>capacity = cap, maxMemory = 0, currentMem = 0, items = [], order = [],
     elems = no_elems, next_elem = 0\<rparr>"

definition NewLRUWithMemory :: "int \<Rightarrow> int \<Rightarrow> lru" where
  "NewLRUWithMemory cap maxmem = \<lparr>capacity = cap, maxMemory = maxmem, currentMem = 0, items = [],
     order = [], elems = no_elems, next_elem = 0\<rparr>"

text \<open>\<open>order.MoveToFront(elem)\<close>: nothing happens if the element is not in the list.\<close>

definition MoveToFront :: "nat \<Rightarrow> nat list \<Rightarrow> nat list" where
  "MoveToFront e xs = (if e \<in> set xs then e # remove1 e xs else xs)"

definition removeOldest :: "lru \<Rightarrow> lru" where
  "removeOldest l =
     (if order l = [] then l
      else let elem = last (order l); entry = elems l elem in
        l\<lparr>currentMem := currentMem l - e_size entry,
          order := remove1 elem (order l),
          items := map_del (e_key entry) (items l)\<rparr>)"

lemma removeOldest_shrinks [simp]:
  "order l \<noteq> [] \<Longrightarrow> length (order (removeOldest l)) < length (order l)"
  by (simp add: removeOldest_def Let_def length_remove1)

text \<open>The loop of \<open>Add\<close> that evicts until the new item fits or the list is empty.\<close>

function evict_for :: "int \<Rightarrow> lru \<Rightarrow> lru" where
  "evict_for itemSize l =
     (if currentMem l + itemSize > maxMemory l \<and> length (order l) > 0
      then evict_for itemSize (removeOldest l) else l)"
  by pat_completeness auto
termination
  by (relation "measure (\<lambda>(_, l). length (order l))") auto

declare evict_for.simps [simp del]

definition LRU_Add :: "string \<Rightarrow> item \<Rightarrow> lru \<Rightarrow> lru" where
  "LRU_Add key value l =
     (let itemSize = calculateSize key (DString (Value value));
          l1 = (if maxMemory l > 0 \<and> currentMem l + itemSize > maxMemory l
                then evict_for itemSize l else l)
      in case map_of (items l1) key of
           Some elem \<Rightarrow>
             l1\<lparr>order := MoveToFront elem (order l1),
                currentMem := currentMem l1 - e_size (elems l1 elem) + itemSize,
                elems := (elems l1)(elem := (elems l1 elem)\<lparr>e_value := value, e_size := itemSize\<rparr>)\<rparr>
         | None \<Rightarrow>
             let l2 = (if capacity l1 > 0 \<and> int (length (order l1)) \<ge> capacity l1
                       then removeOldest l1 else l1);
                 elem = next_elem l2
             in l2\<lparr>order := elem # order l2,
                   elems := (elems l2)(elem := \<lparr>e_key = key, e_value = value, e_size = itemSize\<rparr>),
                   next_elem := Suc elem,
                   items := map_put key elem (items l2),
                   currentMem := currentMem l2 + itemSize\<rparr>)"

definition LRU_Has :: "string \<Rightarrow> lru \<Rightarrow> bool" where
  "LRU_Has key l = map_has (items l) key"

definition LRU_Get :: "string \<Rightarrow> lru \<Rightarrow> item option \<times> lru" where
  "LRU_Get key l =
     (case map_of (items l) key of
        Some elem \<Rightarrow> (Some (e_value (elems l elem)), l\<lparr>order := MoveToFront elem (order l)\<rparr>)
      | None \<Rightarrow> (None, l))"

definition LRU_Remove :: "string \<Rightarrow> lru \<Rightarrow> bool \<times> lru" where
  "LRU_Remove key l =
     (case map_of (items l) key of
        Some elem \<Rightarrow>
          (True, l\<lparr>currentMem := currentMem l - e_size (elems l elem),
                   order := remove1 elem (order l),
                   items := map_del key (items l)\<rparr>)
      | None \<Rightarrow> (False, l))"

text \<open>The (key, item) pairs that \<open>ForEach\<close> passes to its callback, in the order of the range.\<close>

definition LRU_ForEach :: "map_order \<Rightarrow> lru \<Rightarrow> (string \<times> item) list" where
  "LRU_ForEach it l = map (\<lambda>(key, elem). (key, e_value (elems l elem))) (range_map it (items l))"

definition LRU_Len :: "lru \<Rightarrow> int" where
  "LRU_Len l = int (length (order l))"

definition LRU_MemoryUsage :: "lru \<Rightarrow> int" where
  "LRU_MemoryUsage l = currentMem l"

definition LRU_MaxCapacity :: "lru \<Rightarrow> int" where
  "LRU_MaxCapacity l = capacity l"

definition LRU_GetItems :: "int \<Rightarrow> map_order \<Rightarrow> lru \<Rightarrow> item gomap" where
  "LRU_GetItems now it l =
     foldl (\<lambda>m (key, elem). let i = e_value (elems l elem) in
        if \<not> IsExpired now i then map_put key i m else m) [] (range_map it (items l))"

definition LRU_GetKeys :: "int \<Rightarrow> map_order \<Rightarrow> lru \<Rightarrow> string list" where
  "LRU_GetKeys now it l =
     foldl (\<lambda>ks (key, elem). let i = e_value (elems l elem) in
        if \<not> IsExpired now i then ks @ [key] else ks) [] (range_map it (items l))"

subsection \<open>The representation invariant\<close>

text \<open>
  The map and the list hold the same elements under their keys, sizes are those of the
  entries, the memory counter is their sum and the capacity is respected.
\<close>

definition lru_ok :: "lru \<Rightarrow> bool" where
  "lru_ok l \<longleftrightarrow>
     distinct (order l) \<and> (\<forall>e \<in> set (order l). e < next_elem l) \<and> map_ok (items l) \<and>
     (\<forall>k e. map_of (items l) k = Some e \<longleftrightarrow> e \<in> set (order l) \<and> e_key (elems l e) = k) \<and>
     (\<forall>e \<in> set (order l). e_size (elems l e) =
        calculateSize (e_key (elems l e)) (DString (Value (e_value (elems l e))))) \<and>
     currentMem l = (\<Sum>e \<leftarrow> order l. e_size (elems l e)) \<and>
     (capacity l > 0 \<longrightarrow> int (length (order l)) \<le> capacity l)"

definition lru_abs :: "lru \<Rightarrow> item gomap" where
  "lru_abs l = map (\<lambda>e. (e_key (elems l e), e_value (elems l e))) (order l)"

definition lru_contents :: "lru \<Rightarrow> string \<Rightarrow> item option" where
  "lru_contents l k = map_option (\<lambda>e. e_value (elems l e)) (map_of (items l) k)"

lemma lru_okD:
  assumes "lru_ok l"
  shows "distinct (order l)" "\<And>e. e \<in> set (order l) \<Longrightarrow> e < next_elem l" "map_ok (items l)"
    "\<And>k e. map_of (items l) k = Some e \<longleftrightarrow> e \<in> set (order l) \<and> e_key (elems l e) = k"
    "\<And>e. e \<in> set (order l) \<Longrightarrow> e_size (elems l e) =
        calculateSize (e_key (elems l e)) (DString (Value (e_value (elems l e))))"
    "currentMem l = (\<Sum>e \<leftarrow> order l. e_size (elems l e))"
    "capacity l > 0 \<Longrightarrow> int (length (order l)) \<le> capacity l"
  using assms by (simp_all add: lru_ok_def)

text \<open>Two elements of the list with the same key are the same element.\<close>

lemma lru_key_inj:
  assumes "lru_ok l" and "e \<in> set (order l)" and "e' \<in> set (order l)"
    and "e_key (elems l e) = e_key (elems l e')"
  shows "e = e'"
  using assms lru_okD(4) [OF assms(1)] by (metis option.inject)

lemma map_fst_abs: "map fst (lru_abs l) = map (\<lambda>e. e_key (elems l e)) (order l)"
  by (simp add: lru_abs_def)

lemma lru_abs_distinct:
  assumes "lru_ok l"
  shows "map_ok (lru_abs l)"
proof -
  have "inj_on (\<lambda>e. e_key (elems l e)) (set (order l))"
    using lru_key_inj [OF assms] by (blast intro: inj_onI)
  then show ?thesis
    unfolding map_ok_def map_fst_abs distinct_map using lru_okD(1) [OF assms] by blast
qed

lemma lru_contents_abs:
  assumes "lru_ok l"
  shows "lru_contents l = map_of (lru_abs l)"
proof
  fix k
  show "lru_contents l k = map_of (lru_abs l) k"
  proof (cases "map_of (items l) k")
    case None
    then have "e_key (elems l e) \<noteq> k" if "e \<in> set (order l)" for e
      using lru_okD(4) [OF assms, of k e] that by auto
    then have "k \<notin> fst ` set (lru_abs l)"
      by (fastforce simp: lru_abs_def)
    then have "map_of (lru_abs l) k = None"
      by (simp only: map_of_eq_None_iff not_False_eq_True)
    then show ?thesis using None by (simp add: lru_contents_def)
  next
    case (Some e)
    then have "(k, e_value (elems l e)) \<in> set (lru_abs l)"
      using lru_okD(4) [OF assms, of k e] by (auto simp: lru_abs_def)
    then show ?thesis
      using Some lru_abs_distinct [OF assms] by (simp add: lru_contents_def map_ok_def)
  qed
qed

subsection \<open>Taking an element out of the list and the map\<close>

text \<open>The three statements that \<open>removeOldest\<close> and \<open>Remove\<close> share.\<close>

definition detach :: "nat \<Rightarrow> lru \<Rightarrow> lru" where
  "detach e l = l\<lparr>currentMem := currentMem l - e_size (elems l e),
     order := remove1 e (order l), items := map_del (e_key (elems l e)) (items l)\<rparr>"

lemma removeOldest_detach:
  "removeOldest l = (if order l = [] then l else detach (last (order l)) l)"
  by (simp add: removeOldest_def detach_def Let_def)

lemma sum_remove1:
  "e \<in> set xs \<Longrightarrow> (\<Sum>x \<leftarrow> remove1 e xs. f x) = (\<Sum>x \<leftarrow> xs. f x) - (f e :: int)"
  by (simp add: sum_list_map_remove1 [of e xs f])

lemma detach_ok:
  assumes ok: "lru_ok l" and e: "e \<in> set (order l)"
  shows "lru_ok (detach e l)"
proof -
  have key: "e_key (elems l x) = e_key (elems l e) \<longleftrightarrow> x = e" if "x \<in> set (order l)" for x
    using lru_key_inj [OF ok that e] by auto
  have "length (remove1 e (order l)) \<le> length (order l)"
    by (simp add: length_remove1)
  then have cap: "capacity l > 0 \<longrightarrow> int (length (remove1 e (order l))) \<le> capacity l"
    using lru_okD(7) [OF ok] by linarith
  have "map_of (map_del (e_key (elems l e)) (items l)) k = Some x
      \<longleftrightarrow> x \<in> set (remove1 e (order l)) \<and> e_key (elems l x) = k" for k x
    using lru_okD(1,4) [OF ok] key by auto
  then show ?thesis
    using lru_okD(1-3,5,6) [OF ok] cap sum_remove1 [OF e]
    by (simp add: lru_ok_def detach_def)
qed

lemma detach_abs:
  assumes ok: "lru_ok l" and e: "e \<in> set (order l)"
  shows "lru_abs (detach e l) = map_del (e_key (elems l e)) (lru_abs l)"
proof -
  have "remove1 e (order l) = filter (\<lambda>x. e_key (elems l e) \<noteq> e_key (elems l x)) (order l)"
    using lru_okD(1) [OF ok] lru_key_inj [OF ok _ e]
    by (auto simp: distinct_remove1_removeAll removeAll_filter_not_eq intro!: filter_cong)
  then show ?thesis
    by (simp add: lru_abs_def detach_def AList.delete_eq filter_map comp_def)
qed

lemma detach_last_abs:
  assumes ok: "lru_ok l" and ne: "order l \<noteq> []"
  shows "lru_abs (detach (last (order l)) l) = butlast (lru_abs l)"
proof -
  obtain ys y where "order l = ys @ [y]" using ne by (cases "order l" rule: rev_cases) auto
  with lru_okD(1) [OF ok] show ?thesis
    by (simp add: lru_abs_def detach_def remove1_append)
qed

lemma removeOldest_ok: "lru_ok l \<Longrightarrow> lru_ok (removeOldest l)"
  by (simp add: removeOldest_detach detach_ok)

lemma removeOldest_abs: "lru_ok l \<Longrightarrow> lru_abs (removeOldest l) = butlast (lru_abs l)"
  by (simp add: removeOldest_detach detach_last_abs) (simp add: lru_abs_def)

lemma removeOldest_frame [simp]:
  "capacity (removeOldest l) = capacity l" "maxMemory (removeOldest l) = maxMemory l"
  "elems (removeOldest l) = elems l" "next_elem (removeOldest l) = next_elem l"
  by (simp_all add: removeOldest_def Let_def)

subsection \<open>The contract: operations on lists in recency order\<close>

definition mem_of :: "item gomap \<Rightarrow> int" where
  "mem_of xs = (\<Sum>(k, i) \<leftarrow> xs. calculateSize k (DString (Value i)))"

text \<open>Drop items from the cold end until \<open>need\<close> more bytes fit, or none is left.\<close>

function spec_evict :: "int \<Rightarrow> int \<Rightarrow> item gomap \<Rightarrow> item gomap" where
  "spec_evict maxmem need xs =
     (if mem_of xs + need > maxmem \<and> xs \<noteq> [] then spec_evict maxmem need (butlast xs) else xs)"
  by pat_completeness auto
termination
  by (relation "measure (\<lambda>(_, _, xs). length xs)") auto

declare spec_evict.simps [simp del]

definition spec_add :: "int \<Rightarrow> int \<Rightarrow> string \<Rightarrow> item \<Rightarrow> item gomap \<Rightarrow> item gomap" where
  "spec_add cap maxmem k i xs =
     (let ys = (if maxmem > 0 then spec_evict maxmem (calculateSize k (DString (Value i))) xs else xs)
      in if map_has ys k then (k, i) # map_del k ys
         else (k, i) # (if cap > 0 \<and> int (length ys) \<ge> cap then butlast ys else ys))"

definition spec_get :: "string \<Rightarrow> item gomap \<Rightarrow> item option \<times> item gomap" where
  "spec_get k xs = (case map_of xs k of Some i \<Rightarrow> (Some i, (k, i) # map_del k xs) | None \<Rightarrow> (None, xs))"

lemma currentMem_abs: "lru_ok l \<Longrightarrow> currentMem l = mem_of (lru_abs l)"
  using lru_okD(5,6) [of l]
  by (simp add: mem_of_def lru_abs_def comp_def cong: map_cong)

lemma length_lru_abs [simp]: "length (lru_abs l) = length (order l)"
  by (simp add: lru_abs_def)

lemma lru_abs_Nil [simp]: "lru_abs l = [] \<longleftrightarrow> order l = []"
  by (simp add: lru_abs_def)

lemma evict_for_ok: "lru_ok l \<Longrightarrow> lru_ok (evict_for n l)"
proof (induction n l rule: evict_for.induct)
  case (1 n l)
  then show ?case by (simp add: evict_for.simps [of n l] removeOldest_ok)
qed

lemma evict_for_frame [simp]:
  "capacity (evict_for n l) = capacity l" "maxMemory (evict_for n l) = maxMemory l"
  by (induction n l rule: evict_for.induct) (subst evict_for.simps, simp)+

lemma evict_for_abs:
  "lru_ok l \<Longrightarrow> lru_abs (evict_for n l) = spec_evict (maxMemory l) n (lru_abs l)"
proof (induction n l rule: evict_for.induct)
  case (1 n l)
  then show ?case
    by (simp add: evict_for.simps [of n l] spec_evict.simps [of "maxMemory l" n "lru_abs l"]
        currentMem_abs removeOldest_ok removeOldest_abs)
qed

lemma spec_evict_fits: "spec_evict m n xs = [] \<or> mem_of (spec_evict m n xs) + n \<le> m"
proof (induction m n xs rule: spec_evict.induct)
  case (1 m n xs)
  then show ?case by (auto simp: spec_evict.simps [of m n xs])
qed

lemma spec_evict_prefix: "\<exists>ys. xs = spec_evict m n xs @ ys"
proof (induction m n xs rule: spec_evict.induct)
  case (1 m n xs)
  show ?case
  proof (cases "mem_of xs + n > m \<and> xs \<noteq> []")
    case True
    with 1 obtain ys where "butlast xs = spec_evict m n (butlast xs) @ ys" by blast
    with True have "xs = spec_evict m n xs @ ys @ [last xs]"
      by (simp add: spec_evict.simps [of m n xs]) (metis append.assoc append_butlast_last_id)
    then show ?thesis by blast
  next
    case False
    then show ?thesis by (auto simp: spec_evict.simps [of m n xs])
  qed
qed

subsection \<open>Refinement of the operations\<close>

text \<open>The element moved to the front with a new item (\<open>Get\<close> keeps the old one).\<close>

definition renew :: "nat \<Rightarrow> item \<Rightarrow> lru \<Rightarrow> lru" where
  "renew e i l =
     (let n = calculateSize (e_key (elems l e)) (DString (Value i)) in
      l\<lparr>order := MoveToFront e (order l),
        currentMem := currentMem l - e_size (elems l e) + n,
        elems := (elems l)(e := (elems l e)\<lparr>e_value := i, e_size := n\<rparr>)\<rparr>)"

text \<open>A new element in front.\<close>

definition push_new :: "string \<Rightarrow> item \<Rightarrow> lru \<Rightarrow> lru" where
  "push_new k i l =
     (let n = calculateSize k (DString (Value i)); e = next_elem l in
      l\<lparr>order := e # order l,
        elems := (elems l)(e := \<lparr>e_key = k, e_value = i, e_size = n\<rparr>),
        next_elem := Suc e, items := map_put k e (items l), currentMem := currentMem l + n\<rparr>)"

lemma renew_ok:
  assumes ok: "lru_ok l" and e: "e \<in> set (order l)"
  shows "lru_ok (renew e i l)"
proof -
  have "length (remove1 e (order l)) < length (order l)"
    using e length_pos_if_in_set [OF e] by (simp add: length_remove1)
  then have "capacity l > 0 \<longrightarrow> int (Suc (length (remove1 e (order l)))) \<le> capacity l"
    using lru_okD(7) [OF ok] by linarith
  moreover have "(\<Sum>x \<leftarrow> remove1 e (order l). e_size (((elems l)(e := E)) x))
      = currentMem l - e_size (elems l e)" for E
  proof -
    have "(\<Sum>x \<leftarrow> remove1 e (order l). e_size (((elems l)(e := E)) x))
        = (\<Sum>x \<leftarrow> remove1 e (order l). e_size (elems l x))"
      using lru_okD(1) [OF ok] by (intro arg_cong [where f = sum_list] map_cong) auto
    then show ?thesis
      using sum_remove1 [OF e, of "\<lambda>x. e_size (elems l x)"] lru_okD(6) [OF ok] by simp
  qed
  ultimately show ?thesis
    using lru_okD(1-5) [OF ok] e
    by (simp add: lru_ok_def renew_def MoveToFront_def Let_def insert_absorb)
qed

lemma renew_abs:
  assumes ok: "lru_ok l" and e: "e \<in> set (order l)"
  shows "lru_abs (renew e i l) = (e_key (elems l e), i) # map_del (e_key (elems l e)) (lru_abs l)"
proof -
  have "map_del (e_key (elems l e)) (lru_abs l)
      = map (\<lambda>x. (e_key (elems l x), e_value (elems l x))) (remove1 e (order l))"
    using detach_abs [OF assms] by (simp add: lru_abs_def detach_def)
  then show ?thesis
    using e lru_okD(1) [OF ok] by (simp add: lru_abs_def renew_def MoveToFront_def Let_def)
qed

lemma push_new_ok:
  assumes ok: "lru_ok l" and new: "map_of (items l) k = None"
    and cap: "capacity l > 0 \<Longrightarrow> int (length (order l)) < capacity l"
  shows "lru_ok (push_new k i l)"
proof -
  have fresh: "next_elem l \<notin> set (order l)"
    using lru_okD(2) [OF ok] by blast
  have "e_key (elems l x) \<noteq> k" if "x \<in> set (order l)" for x
    using lru_okD(4) [OF ok, of k x] that new by auto
  moreover have "(\<Sum>x \<leftarrow> order l. e_size (((elems l)(next_elem l := E)) x)) = currentMem l" for E
    using fresh lru_okD(6) [OF ok] by (auto intro!: arg_cong [where f = sum_list] map_cong)
  moreover have "x < Suc (next_elem l)" if "x \<in> set (order l)" for x
    using lru_okD(2) [OF ok that] by simp
  ultimately show ?thesis
    using lru_okD(1,3-5) [OF ok] cap fresh
    by (simp add: lru_ok_def push_new_def Let_def) auto
qed

lemma push_new_abs:
  assumes ok: "lru_ok l"
  shows "lru_abs (push_new k i l) = (k, i) # lru_abs l"
  using lru_okD(2) [OF ok] by (auto simp: lru_abs_def push_new_def Let_def)

lemma items_abs: "lru_ok l \<Longrightarrow> map_of (items l) k = None \<longleftrightarrow> \<not> map_has (lru_abs l) k"
  by (simp add: map_has_def lru_contents_abs [symmetric] lru_contents_def)

text \<open>\<open>Add\<close> in terms of the two, after the eviction loop.\<close>

definition make_room :: "string \<Rightarrow> item \<Rightarrow> lru \<Rightarrow> lru" where
  "make_room k i l =
     (if maxMemory l > 0 \<and> currentMem l + calculateSize k (DString (Value i)) > maxMemory l
      then evict_for (calculateSize k (DString (Value i))) l else l)"

definition make_slot :: "lru \<Rightarrow> lru" where
  "make_slot l = (if capacity l > 0 \<and> int (length (order l)) \<ge> capacity l then removeOldest l else l)"

lemma LRU_Add_cases:
  assumes ok: "lru_ok (make_room k i l)"
  shows "LRU_Add k i l =
     (case map_of (items (make_room k i l)) k of
        Some e \<Rightarrow> renew e i (make_room k i l)
      | None \<Rightarrow> push_new k i (make_slot (make_room k i l)))"
proof -
  have "e_key (elems (make_room k i l) e) = k" if "map_of (items (make_room k i l)) k = Some e" for e
    using that lru_okD(4) [OF ok] by blast
  moreover have "LRU_Add k i l =
     (case map_of (items (make_room k i l)) k of
        Some e \<Rightarrow> (make_room k i l)\<lparr>order := MoveToFront e (order (make_room k i l)),
          currentMem := currentMem (make_room k i l) - e_size (elems (make_room k i l) e)
            + calculateSize k (DString (Value i)),
          elems := (elems (make_room k i l))(e := (elems (make_room k i l) e)
            \<lparr>e_value := i, e_size := calculateSize k (DString (Value i))\<rparr>)\<rparr>
      | None \<Rightarrow> push_new k i (make_slot (make_room k i l)))"
    unfolding LRU_Add_def push_new_def Let_def make_room_def [symmetric] make_slot_def [symmetric]
    by (rule refl)
  ultimately show ?thesis by (simp add: renew_def Let_def split: option.split)
qed

lemma make_room_ok: "lru_ok l \<Longrightarrow> lru_ok (make_room k i l)"
  by (simp add: make_room_def evict_for_ok)

lemma make_slot_ok: "lru_ok l \<Longrightarrow> lru_ok (make_slot l)"
  by (simp add: make_slot_def removeOldest_ok)

lemma make_frame [simp]:
  "capacity (make_room k i l) = capacity l" "maxMemory (make_room k i l) = maxMemory l"
  "capacity (make_slot l) = capacity l" "maxMemory (make_slot l) = maxMemory l"
  by (simp_all add: make_room_def make_slot_def)

lemma spec_evict_enough: "mem_of xs + n \<le> m \<Longrightarrow> spec_evict m n xs = xs"
  by (simp add: spec_evict.simps [of m n xs])

lemma make_room_abs:
  "lru_ok l \<Longrightarrow> lru_abs (make_room k i l) =
     (if maxMemory l > 0
      then spec_evict (maxMemory l) (calculateSize k (DString (Value i))) (lru_abs l) else lru_abs l)"
  by (simp add: make_room_def evict_for_abs currentMem_abs spec_evict_enough)

lemma make_slot_abs:
  "lru_ok l \<Longrightarrow> lru_abs (make_slot l) =
     (if capacity l > 0 \<and> int (length (lru_abs l)) \<ge> capacity l
      then butlast (lru_abs l) else lru_abs l)"
  by (simp add: make_slot_def removeOldest_abs)

lemma make_slot_room: "lru_ok l \<Longrightarrow> capacity l > 0 \<Longrightarrow> int (length (order (make_slot l))) < capacity l"
  using lru_okD(7) [of l] removeOldest_shrinks [of l]
  by (auto simp: make_slot_def)

lemma removeOldest_items: "map_of (items l) k = None \<Longrightarrow> map_of (items (removeOldest l)) k = None"
  by (simp add: removeOldest_def Let_def)

lemma make_slot_items: "map_of (items l) k = None \<Longrightarrow> map_of (items (make_slot l)) k = None"
  by (simp add: make_slot_def removeOldest_items)

lemma LRU_Add_refines:
  assumes ok: "lru_ok l"
  shows "lru_ok (LRU_Add k i l)"
    and "lru_abs (LRU_Add k i l) = spec_add (capacity l) (maxMemory l) k i (lru_abs l)"
proof -
  let ?r = "make_room k i l"
  have r: "lru_ok ?r" by (rule make_room_ok [OF ok])
  have "lru_ok (LRU_Add k i l) \<and>
    lru_abs (LRU_Add k i l) = spec_add (capacity l) (maxMemory l) k i (lru_abs l)"
  proof (cases "map_of (items ?r) k")
    case None
    have slot: "lru_ok (make_slot ?r)" by (rule make_slot_ok [OF r])
    have "lru_ok (push_new k i (make_slot ?r))"
      using make_slot_room [OF r] by (intro push_new_ok [OF slot make_slot_items [OF None]]) simp
    moreover have "\<not> map_has (lru_abs ?r) k" using None items_abs [OF r] by simp
    ultimately show ?thesis
      using None
      by (simp add: LRU_Add_cases [OF r] push_new_abs [OF slot] make_slot_abs [OF r]
          make_room_abs [OF ok] spec_add_def)
  next
    case (Some e)
    with lru_okD(4) [OF r] have e: "e \<in> set (order ?r)" "e_key (elems ?r e) = k" by blast+
    have "map_has (lru_abs ?r) k" using Some items_abs [OF r, of k] by simp
    with Some e show ?thesis
      by (simp add: LRU_Add_cases [OF r] renew_ok [OF r] renew_abs [OF r]
          make_room_abs [OF ok] spec_add_def)
  qed
  then show "lru_ok (LRU_Add k i l)"
    and "lru_abs (LRU_Add k i l) = spec_add (capacity l) (maxMemory l) k i (lru_abs l)" by auto
qed

lemma LRU_Add_frame [simp]:
  assumes "lru_ok l"
  shows "capacity (LRU_Add k i l) = capacity l" and "maxMemory (LRU_Add k i l) = maxMemory l"
  by (simp_all add: LRU_Add_cases [OF make_room_ok [OF assms]] renew_def push_new_def Let_def
      split: option.split)

lemma LRU_Get_renew:
  assumes ok: "lru_ok l" and e: "map_of (items l) k = Some e"
  shows "LRU_Get k l = (Some (e_value (elems l e)), renew e (e_value (elems l e)) l)"
proof -
  from e have "e \<in> set (order l)" using lru_okD(4) [OF ok] by blast
  then have "e_size (elems l e) = calculateSize (e_key (elems l e)) (DString (Value (e_value (elems l e))))"
    by (rule lru_okD(5) [OF ok])
  from this [symmetric] have "renew e (e_value (elems l e)) l = l\<lparr>order := MoveToFront e (order l)\<rparr>"
    by (simp add: renew_def Let_def)
  with e show ?thesis by (simp add: LRU_Get_def)
qed

lemma LRU_Get_refines:
  assumes ok: "lru_ok l"
  shows "lru_ok (snd (LRU_Get k l))"
    and "(fst (LRU_Get k l), lru_abs (snd (LRU_Get k l))) = spec_get k (lru_abs l)"
proof -
  have "lru_ok (snd (LRU_Get k l)) \<and>
    (fst (LRU_Get k l), lru_abs (snd (LRU_Get k l))) = spec_get k (lru_abs l)"
  proof (cases "map_of (items l) k")
    case None
    then have "map_of (lru_abs l) k = None"
      by (simp add: lru_contents_abs [OF ok, symmetric] lru_contents_def)
    with None ok show ?thesis by (simp add: LRU_Get_def spec_get_def)
  next
    case (Some e)
    with lru_okD(4) [OF ok] have e: "e \<in> set (order l)" "e_key (elems l e) = k" by blast+
    have "map_of (lru_abs l) k = Some (e_value (elems l e))"
      using Some by (simp add: lru_contents_abs [OF ok, symmetric] lru_contents_def)
    then show ?thesis
      using e by (simp add: LRU_Get_renew [OF ok Some] renew_ok [OF ok] renew_abs [OF ok] spec_get_def)
  qed
  then show "lru_ok (snd (LRU_Get k l))"
    and "(fst (LRU_Get k l), lru_abs (snd (LRU_Get k l))) = spec_get k (lru_abs l)" by auto
qed

lemma LRU_Remove_refines:
  assumes ok: "lru_ok l"
  shows "lru_ok (snd (LRU_Remove k l))"
    and "fst (LRU_Remove k l) = map_has (lru_abs l) k"
    and "lru_abs (snd (LRU_Remove k l)) = map_del k (lru_abs l)"
proof -
  have "lru_ok (snd (LRU_Remove k l)) \<and> fst (LRU_Remove k l) = map_has (lru_abs l) k
    \<and> lru_abs (snd (LRU_Remove k l)) = map_del k (lru_abs l)"
  proof (cases "map_of (items l) k")
    case None
    then have "\<not> map_has (lru_abs l) k" by (simp add: items_abs [OF ok])
    with None ok show ?thesis
      by (simp add: LRU_Remove_def AList.delete_idem map_has_iff)
  next
    case (Some e)
    with lru_okD(4) [OF ok] have e: "e \<in> set (order l)" "e_key (elems l e) = k" by blast+
    then have "LRU_Remove k l = (True, detach e l)"
      using Some by (simp add: LRU_Remove_def detach_def)
    then show ?thesis
      using e Some items_abs [OF ok, of k] by (simp add: detach_ok [OF ok] detach_abs [OF ok])
  qed
  then show "lru_ok (snd (LRU_Remove k l))" and "fst (LRU_Remove k l) = map_has (lru_abs l) k"
    and "lru_abs (snd (LRU_Remove k l)) = map_del k (lru_abs l)" by auto
qed

lemma LRU_Has_abs: "lru_ok l \<Longrightarrow> LRU_Has k l = map_has (lru_abs l) k"
  using items_abs [of l k] by (auto simp: LRU_Has_def map_has_def)

lemma NewLRUWithMemory_ok: "lru_ok (NewLRUWithMemory c m)" "lru_abs (NewLRUWithMemory c m) = []"
  by (simp_all add: lru_ok_def NewLRUWithMemory_def lru_abs_def)

lemma NewLRU_ok: "lru_ok (NewLRU c)" "lru_abs (NewLRU c) = []"
  by (simp_all add: lru_ok_def NewLRU_def lru_abs_def)

subsection \<open>Iteration\<close>

lemma map_fst_ForEach: "map fst (LRU_ForEach it l) = range_keys it (items l)"
  by (simp add: LRU_ForEach_def comp_def case_prod_unfold flip: map_fst_range_map)

lemma LRU_ForEach_refines:
  assumes ok: "lru_ok l" and it: "order_ok it"
  shows "map_ok (LRU_ForEach it l)" and "map_of (LRU_ForEach it l) = map_of (lru_abs l)"
proof -
  note m = lru_okD(3) [OF ok]
  show "map_ok (LRU_ForEach it l)"
    using distinct_range_keys [OF it m] by (simp add: map_ok_def map_fst_ForEach)
  have "map_of (LRU_ForEach it l) = map_option (\<lambda>e. e_value (elems l e)) \<circ> map_of (range_map it (items l))"
    by (simp add: LRU_ForEach_def map_of_map)
  also have "\<dots> = map_of (lru_abs l)"
    by (simp add: map_of_range_map [OF it m] lru_contents_abs [OF ok, symmetric]
        lru_contents_def fun_eq_iff)
  finally show "map_of (LRU_ForEach it l) = map_of (lru_abs l)" .
qed

lemma LRU_GetKeys_ForEach:
  "LRU_GetKeys now it l = map fst (filter (\<lambda>(k, i). \<not> IsExpired now i) (LRU_ForEach it l))"
  by (simp add: LRU_GetKeys_def LRU_ForEach_def foldl_collect Let_def case_prod_unfold
      filter_map comp_def)

lemma LRU_GetItems_ForEach:
  "LRU_GetItems now it l =
     foldl (\<lambda>m (k, i). map_put k i m) [] (filter (\<lambda>(k, i). \<not> IsExpired now i) (LRU_ForEach it l))"
  by (simp add: LRU_GetItems_def LRU_ForEach_def Let_def case_prod_unfold filter_map comp_def
      foldl_filter foldl_map)

subsection \<open>What the contract gives its clients\<close>

lemma prefix_lookup: "map_of ys k = None \<or> map_of ys k = map_of (ys @ zs) k"
  by (cases "map_of ys k") (simp_all add: map_add_def)

lemma butlast_lookup: "map_of (butlast ys) k = None \<or> map_of (butlast ys) k = map_of ys k"
  using prefix_lookup [of "butlast ys" k "[last ys]"] by (cases "ys = []") simp_all

lemma evict_lookup: "map_of (spec_evict m n xs) k = None \<or> map_of (spec_evict m n xs) k = map_of xs k"
  using spec_evict_prefix [of xs m n] prefix_lookup [of "spec_evict m n xs" k] by metis

lemma spec_add_hit: "map_of (spec_add c m k i xs) k = Some i"
  by (simp add: spec_add_def Let_def)

lemma spec_add_other:
  assumes "k' \<noteq> k"
  shows "map_of (spec_add c m k i xs) k' = None \<or> map_of (spec_add c m k i xs) k' = map_of xs k'"
  using assms evict_lookup [of m "calculateSize k (DString (Value i))" xs k']
    butlast_lookup [of "if m > 0 then spec_evict m (calculateSize k (DString (Value i))) xs else xs" k']
  by (auto simp: spec_add_def Let_def)

lemma calculateSize_nonneg [simp]: "0 \<le> calculateSize k v"
  by (cases v) (simp_all add: calculateSize_def)

lemma mem_of_simps [simp]:
  "mem_of [] = 0"
  "mem_of ((k, i) # xs) = calculateSize k (DString (Value i)) + mem_of xs"
  "mem_of (xs @ ys) = mem_of xs + mem_of ys"
  by (simp_all add: mem_of_def)

lemma mem_of_nonneg [simp]: "0 \<le> mem_of xs"
  by (auto simp: mem_of_def intro!: sum_list_nonneg split: prod.splits)

lemma mem_of_butlast: "mem_of (butlast xs) \<le> mem_of xs"
proof (cases xs rule: rev_cases)
  case (snoc ys y)
  then show ?thesis by (cases y) simp
qed simp

lemma mem_of_del: "mem_of (map_del k xs) \<le> mem_of xs"
proof (induction xs)
  case (Cons p xs)
  with calculateSize_nonneg [of "fst p" "DString (Value (snd p))"] show ?case
    by (cases p; cases "fst p = k") (simp_all del: calculateSize_nonneg)
qed simp

lemma spec_add_memory:
  assumes "m > 0"
  shows "mem_of (spec_add c m k i xs) \<le> m \<or> spec_add c m k i xs = [(k, i)]"
proof -
  let ?n = "calculateSize k (DString (Value i))"
  let ?ys = "spec_evict m ?n xs"
  consider "?ys = []" | "mem_of ?ys + ?n \<le> m"
    using spec_evict_fits by blast
  then show ?thesis
  proof cases
    case 1
    then show ?thesis using assms by (simp add: spec_add_def map_has_def)
  next
    case 2
    then show ?thesis
      using assms mem_of_butlast [of ?ys] mem_of_del [of k ?ys]
      by (auto simp: spec_add_def Let_def)
  qed
qed

lemma spec_evict_drops_last:
  "xs \<noteq> [] \<Longrightarrow> mem_of xs + n > m \<Longrightarrow> \<exists>ys. butlast xs = spec_evict m n xs @ ys"
  using spec_evict_prefix [of "butlast xs" m n] by (simp add: spec_evict.simps [of m n xs])

lemma spec_add_drops_last:
  assumes "map_ok xs" "m > 0" "mem_of xs + calculateSize k (DString (Value i)) > m"
    and "xs \<noteq> []" and "fst (last xs) \<noteq> k"
  shows "map_of (spec_add c m k i xs) (fst (last xs)) = None"
proof -
  let ?n = "calculateSize k (DString (Value i))"
  obtain ys where ys: "butlast xs = spec_evict m ?n xs @ ys"
    using spec_evict_drops_last [OF assms(4,3)] by blast
  have "fst (last xs) \<notin> fst ` set (butlast xs)"
    using assms(1,4) by (cases xs rule: rev_cases) (auto simp: map_ok_def)
  then have "map_of (spec_evict m ?n xs) (fst (last xs)) = None"
    unfolding map_of_eq_None_iff ys by auto
  then show ?thesis
    using assms(2,5) butlast_lookup [of "spec_evict m ?n xs" "fst (last xs)"]
    by (auto simp: spec_add_def Let_def)
qed

subsection \<open>Runs of operations\<close>

datatype lru_op = OpAdd string item | OpGet string | OpRemove string

fun lru_step :: "lru_op \<Rightarrow> lru \<Rightarrow> lru" where
  "lru_step (OpAdd k i) l = LRU_Add k i l"
| "lru_step (OpGet k) l = snd (LRU_Get k l)"
| "lru_step (OpRemove k) l = snd (LRU_Remove k l)"

fun spec_step :: "int \<Rightarrow> int \<Rightarrow> lru_op \<Rightarrow> item gomap \<Rightarrow> item gomap" where
  "spec_step c m (OpAdd k i) xs = spec_add c m k i xs"
| "spec_step c m (OpGet k) xs = snd (spec_get k xs)"
| "spec_step c m (OpRemove k) xs = map_del k xs"

lemma LRU_Get_abs: "lru_ok l \<Longrightarrow> lru_abs (snd (LRU_Get k l)) = snd (spec_get k (lru_abs l))"
  using LRU_Get_refines(2) [of l k] by (metis snd_conv)

lemma lru_frame [simp]:
  "capacity (snd (LRU_Get k l)) = capacity l" "maxMemory (snd (LRU_Get k l)) = maxMemory l"
  "capacity (snd (LRU_Remove k l)) = capacity l" "maxMemory (snd (LRU_Remove k l)) = maxMemory l"
  by (simp_all add: LRU_Get_def LRU_Remove_def split: option.split)

lemma lru_step_refines:
  assumes "lru_ok l"
  shows "lru_ok (lru_step p l) \<and> capacity (lru_step p l) = capacity l
    \<and> maxMemory (lru_step p l) = maxMemory l
    \<and> lru_abs (lru_step p l) = spec_step (capacity l) (maxMemory l) p (lru_abs l)"
  using assms
  by (cases p) (simp_all add: LRU_Add_refines LRU_Get_refines(1) LRU_Get_abs LRU_Remove_refines)

lemma lru_fold_refines:
  "lru_ok l \<Longrightarrow> lru_ok (fold lru_step ops l) \<and> capacity (fold lru_step ops l) = capacity l
    \<and> lru_abs (fold lru_step ops l) = fold (spec_step (capacity l) (maxMemory l)) ops (lru_abs l)"
  by (induction ops arbitrary: l) (auto simp: lru_step_refines)

subsection \<open>Properties\<close>

text \<open>C3: Whatever sequence of Add, Get and Remove a fresh LRU goes through, its map and its
  list stay consistent (same elements, sizes summing to the memory counter, capacity
  respected), and its contents in recency order are those of the abstract LRU policy: Add
  evicts from the least recently used end until the item fits and then once more if the
  capacity is reached, Get and Add move the key to the front.\<close>

theorem lru_run_refines:
  "lru_ok (fold lru_step ops (NewLRUWithMemory c m))
    \<and> lru_abs (fold lru_step ops (NewLRUWithMemory c m)) = fold (spec_step c m) ops []"
proof -
  have "capacity (NewLRUWithMemory c m) = c" and "maxMemory (NewLRUWithMemory c m) = m"
    by (simp_all add: NewLRUWithMemory_def)
  then show ?thesis
    using lru_fold_refines [OF NewLRUWithMemory_ok(1), of ops c m] by (simp add: NewLRUWithMemory_ok)
qed

text \<open>After Add on a consistent LRU, a positive memory limit is respected unless the new
  item alone exceeds it (and is then the only one left), and a positive capacity is
  respected.\<close>

theorem lru_limits:
  assumes "lru_ok l"
  shows "(0 < maxMemory l \<longrightarrow> LRU_MemoryUsage (LRU_Add k i l) \<le> maxMemory l
            \<or> lru_abs (LRU_Add k i l) = [(k, i)])
    \<and> (0 < capacity l \<longrightarrow> LRU_Len (LRU_Add k i l) \<le> capacity l)"
  using LRU_Add_refines [OF assms, of k i] spec_add_memory [of "maxMemory l" "capacity l" k i "lru_abs l"]
    lru_okD(7) [of "LRU_Add k i l"]
  by (simp add: LRU_MemoryUsage_def LRU_Len_def currentMem_abs LRU_Add_frame(1) [OF assms])

lemma lru_limits_witness:
  "(LRU_MemoryUsage (LRU_Add ''key'' (NewItem 0 ''v'' 0) (NewLRUWithMemory 1 3)) \<le> 3
      \<or> lru_abs (LRU_Add ''key'' (NewItem 0 ''v'' 0) (NewLRUWithMemory 1 3)) = [(''key'', NewItem 0 ''v'' 0)])
    \<and> LRU_Len (LRU_Add ''key'' (NewItem 0 ''v'' 0) (NewLRUWithMemory 1 3)) \<le> 1"
proof -
  have "capacity (NewLRUWithMemory 1 3) = 1" and "maxMemory (NewLRUWithMemory 1 3) = 3"
    by (simp_all add: NewLRUWithMemory_def)
  then show ?thesis
    using lru_limits [OF NewLRUWithMemory_ok(1), of 1 3 "''key''" "NewItem 0 ''v'' 0"] by auto
qed

text \<open>Overwriting a key counts the old value and the new one together while it makes
  room: the least recently used other key is evicted as soon as the memory in use plus the
  new item exceeds the limit, although the cache after the overwrite would have fitted.\<close>

theorem overwrite_evicts_too_much:
  assumes "lru_ok l" and "0 < maxMemory l"
    and "map_of (lru_abs l) k = Some old" and "fst (last (lru_abs l)) \<noteq> k"
    and "currentMem l + calculateSize k (DString (Value i)) > maxMemory l"
    and "currentMem l - calculateSize k (DString (Value old))
          + calculateSize k (DString (Value i)) \<le> maxMemory l"
  shows "map_of (lru_abs (LRU_Add k i l)) (fst (last (lru_abs l))) = None"
proof -
  have "lru_abs l \<noteq> []" using assms(3) by (metis map_of.simps(1) option.distinct(1))
  then show ?thesis
    using assms(1,2,4,5) spec_add_drops_last [OF lru_abs_distinct [OF assms(1)]]
    by (simp add: LRU_Add_refines(2) currentMem_abs)
qed

lemma overwrite_evicts_too_much_witness:
  "map_of (lru_abs (LRU_Add ''k'' (NewItem 2 ''zz'' 0)
     (LRU_Add ''k'' (NewItem 1 ''yy'' 0) (LRU_Add ''a'' (NewItem 0 ''x'' 0) (NewLRUWithMemory 0 6)))))
     ''a'' = None"
proof -
  let ?l1 = "LRU_Add ''a'' (NewItem 0 ''x'' 0) (NewLRUWithMemory 0 6)"
  let ?l = "LRU_Add ''k'' (NewItem 1 ''yy'' 0) ?l1"
  have ok1: "lru_ok ?l1" by (rule LRU_Add_refines(1)) (rule NewLRUWithMemory_ok)
  have ok: "lru_ok ?l" by (rule LRU_Add_refines(1) [OF ok1])
  have f: "capacity (NewLRUWithMemory 0 6) = 0" "maxMemory (NewLRUWithMemory 0 6) = 6"
    by (simp_all add: NewLRUWithMemory_def)
  have abs: "lru_abs ?l = [(''k'', NewItem 1 ''yy'' 0), (''a'', NewItem 0 ''x'' 0)]"
    by (simp add: LRU_Add_refines(2) ok1 NewLRUWithMemory_ok f spec_add_def spec_evict.simps
        calculateSize_def map_has_def)
  have mem: "currentMem ?l = 5"
    by (simp add: currentMem_abs [OF ok] abs calculateSize_def)
  show ?thesis
    using overwrite_evicts_too_much [OF ok, of "''k''" "NewItem 1 ''yy'' 0" "NewItem 2 ''zz'' 0"]
    by (simp add: abs mem ok1 NewLRUWithMemory_ok f calculateSize_def)
qed

text \<open>Add never evicts without need: when the bytes in use plus the new item are within
  the memory limit (or there is none) and the key is already there or a slot is free (or the
  capacity is unlimited), every other key keeps its item.\<close>

theorem add_keeps_when_room:
  assumes "lru_ok l"
    and "0 < maxMemory l \<Longrightarrow> currentMem l + calculateSize k (DString (Value i)) \<le> maxMemory l"
    and "0 < capacity l \<Longrightarrow> LRU_Has k l \<or> LRU_Len l < capacity l"
  shows "map_of (lru_abs (LRU_Add k i l)) = (map_of (lru_abs l))(k \<mapsto> i)"
  using assms
  by (auto simp: LRU_Add_refines(2) spec_add_def currentMem_abs spec_evict_enough LRU_Has_abs
      LRU_Len_def fun_eq_iff Let_def)

lemma add_keeps_when_room_witness:
  "map_of (lru_abs (LRU_Add ''b'' (NewItem 1 ''y'' 0)
     (LRU_Add ''a'' (NewItem 0 ''x'' 0) (NewLRUWithMemory 2 4)))) ''a'' = Some (NewItem 0 ''x'' 0)"
proof -
  let ?l = "LRU_Add ''a'' (NewItem 0 ''x'' 0) (NewLRUWithMemory 2 4)"
  have ok: "lru_ok ?l" by (rule LRU_Add_refines(1)) (rule NewLRUWithMemory_ok)
  have f: "capacity (NewLRUWithMemory 2 4) = 2" "maxMemory (NewLRUWithMemory 2 4) = 4"
    by (simp_all add: NewLRUWithMemory_def)
  have abs: "lru_abs ?l = [(''a'', NewItem 0 ''x'' 0)]"
    by (simp add: LRU_Add_refines(2) NewLRUWithMemory_ok f spec_add_def spec_evict.simps
        calculateSize_def map_has_def)
  have "length (order ?l) = 1" using arg_cong [OF abs, of length] by simp
  then show ?thesis
    using add_keeps_when_room [OF ok, of "''b''" "NewItem 1 ''y'' 0"]
    by (simp add: abs f currentMem_abs [OF ok] calculateSize_def LRU_Len_def NewLRUWithMemory_ok)
qed

end
