(* ===== verification/Evictor.thy ===== *)
theory Evictor
  imports Lru
begin

section \<open>The Evictor interface\<close>

text \<open>
  Models \<^verbatim>\<open>internal/engine/evictor.go\<close>.  A Go interface value carries the methods of
  its dynamic type: here a record of operations over the evictor's state \<open>'e\<close>.  The
  contract that a shard relies on is the locale \<open>eviction\<close>: an abstract map \<open>contents\<close>,
  what each method does to it, and an invariant that every method keeps.  Eviction shows in
  the law for \<open>Add\<close>: another key keeps its item or loses it.  \<open>ForEach\<close> is the sequence
  of its callback's arguments.  The only implementation in the repository, the LRU, is
  interpreted at the end.
\<close>

record 'e evictor_ops =
  ev_Add :: "string \<Rightarrow> item \<Rightarrow> 'e \<Rightarrow> 'e"
  ev_Get :: "string \<Rightarrow> 'e \<Rightarrow> item option \<times> 'e"
  ev_Has :: "string \<Rightarrow> 'e \<Rightarrow> bool"
  ev_Remove :: "string \<Rightarrow> 'e \<Rightarrow> bool \<times> 'e"
  ev_Len :: "'e \<Rightarrow> int"
  ev_MemoryUsage :: "'e \<Rightarrow> int"
  ev_ForEach :: "map_order \<Rightarrow> 'e \<Rightarrow> (string \<times> item) list"
  ev_MaxCapacity :: "'e \<Rightarrow> int"
  ev_GetItems :: "int \<Rightarrow> map_order \<Rightarrow> 'e \<Rightarrow> item gomap"
  ev_GetKeys :: "int \<Rightarrow> map_order \<Rightarrow> 'e \<Rightarrow> string list"

locale eviction =
  fixes E :: "'e evictor_ops"
    and inv :: "'e \<Rightarrow> bool"
    and contents :: "'e \<Rightarrow> string \<Rightarrow> item option"
  assumes inv_Add: "inv e \<Longrightarrow> inv (ev_Add E k i e)"
    and inv_Get: "inv e \<Longrightarrow> inv (snd (ev_Get E k e))"
    and inv_Remove: "inv e \<Longrightarrow> inv (snd (ev_Remove E k e))"
    and Add_hit: "inv e \<Longrightarrow> contents (ev_Add E k i e) k = Some i"
    and Add_other: "inv e \<Longrightarrow> k' \<noteq> k \<Longrightarrow>
          contents (ev_Add E k i e) k' = None \<or> contents (ev_Add E k i e) k' = contents e k'"
    and Get_result: "inv e \<Longrightarrow> fst (ev_Get E k e) = contents e k"
    and Get_contents: "inv e \<Longrightarrow> contents (snd (ev_Get E k e)) = contents e"
    and Has_contents: "inv e \<Longrightarrow> ev_Has E k e \<longleftrightarrow> contents e k \<noteq> None"
    and Remove_result: "inv e \<Longrightarrow> fst (ev_Remove E k e) \<longleftrightarrow> contents e k \<noteq> None"
    and Remove_contents: "inv e \<Longrightarrow> contents (snd (ev_Remove E k e)) = (contents e)(k := None)"
    and ForEach_ok: "inv e \<Longrightarrow> order_ok it \<Longrightarrow> map_ok (ev_ForEach E it e)"
    and ForEach_contents: "inv e \<Longrightarrow> order_ok it \<Longrightarrow> map_of (ev_ForEach E it e) = contents e"
    and GetKeys_ForEach: "inv e \<Longrightarrow>
          ev_GetKeys E t it e = map fst (filter (\<lambda>(k, i). \<not> IsExpired t i) (ev_ForEach E it e))"
    and Len_contents: "inv e \<Longrightarrow> ev_Len E e = int (card (dom (contents e)))"
begin

lemmas laws = inv_Add inv_Get inv_Remove Add_hit Get_result Get_contents Has_contents
  Remove_result Remove_contents

lemma GetKeys_set:
  assumes "inv e" and "order_ok it"
  shows "set (ev_GetKeys E t it e) = {k. \<exists>i. contents e k = Some i \<and> \<not> IsExpired t i}"
    and "distinct (ev_GetKeys E t it e)"
proof -
  let ?xs = "filter (\<lambda>(k, i). \<not> IsExpired t i) (ev_ForEach E it e)"
  have ok: "map_ok (ev_ForEach E it e)" by (rule ForEach_ok [OF assms])
  then show "distinct (ev_GetKeys E t it e)"
    by (auto simp: GetKeys_ForEach [OF assms(1)] map_ok_def distinct_map inj_on_def)
  have "(k, i) \<in> set (ev_ForEach E it e) \<longleftrightarrow> contents e k = Some i" for k i
    using ok by (simp add: ForEach_contents [OF assms, symmetric] map_ok_def)
  then show "set (ev_GetKeys E t it e) = {k. \<exists>i. contents e k = Some i \<and> \<not> IsExpired t i}"
    by (force simp: GetKeys_ForEach [OF assms(1)])
qed

end

subsection \<open>The LRU as an evictor\<close>

definition lru_evictor :: "lru evictor_ops" where
  "lru_evictor = \<lparr>ev_Add = LRU_Add, ev_Get = LRU_Get, ev_Has = LRU_Has, ev_Remove = LRU_Remove,
     ev_Len = LRU_Len, ev_MemoryUsage = LRU_MemoryUsage, ev_ForEach = LRU_ForEach,
     ev_MaxCapacity = LRU_MaxCapacity, ev_GetItems = LRU_GetItems, ev_GetKeys = LRU_GetKeys\<rparr>"

lemma lru_evictor_sel [simp]:
  "ev_Add lru_evictor = LRU_Add" "ev_Get lru_evictor = LRU_Get" "ev_Has lru_evictor = LRU_Has"
  "ev_Remove lru_evictor = LRU_Remove" "ev_Len lru_evictor = LRU_Len"
  "ev_MemoryUsage lru_evictor = LRU_MemoryUsage" "ev_ForEach lru_evictor = LRU_ForEach"
  "ev_MaxCapacity lru_evictor = LRU_MaxCapacity" "ev_GetItems lru_evictor = LRU_GetItems"
  "ev_GetKeys lru_evictor = LRU_GetKeys"
  by (simp_all add: lru_evictor_def)

lemma spec_get_contents:
  "fst (spec_get k xs) = map_of xs k" "map_of (snd (spec_get k xs)) = map_of xs"
  by (auto simp: spec_get_def fun_eq_iff split: option.splits)

lemma LRU_Get_fst: "lru_ok l \<Longrightarrow> fst (LRU_Get k l) = map_of (lru_abs l) k"
  using LRU_Get_refines(2) [of l k] spec_get_contents(1) by (metis fst_conv)

lemma LRU_Len_contents:
  assumes "lru_ok l"
  shows "LRU_Len l = int (card (dom (map_of (lru_abs l))))"
proof -
  have "card (set (map fst (lru_abs l))) = length (lru_abs l)"
    using lru_abs_distinct [OF assms] by (simp only: map_ok_def distinct_card length_map)
  then show ?thesis by (simp add: LRU_Len_def dom_map_of_conv_image_fst)
qed

interpretation lru: eviction lru_evictor lru_ok "\<lambda>l. map_of (lru_abs l)"
  by unfold_locales
    (auto simp: LRU_Add_refines LRU_Get_refines(1) LRU_Get_fst LRU_Get_abs spec_get_contents
      LRU_Remove_refines LRU_Has_abs map_has_def spec_add_hit spec_add_other LRU_ForEach_refines
      LRU_GetKeys_ForEach LRU_Len_contents fun_eq_iff)

end
