(* ===== verification/KeyedStore.thy ===== *)
theory KeyedStore
  imports Prelude
begin

section \<open>Keyed stores: the contract of the hash, the set and the sorted set\<close>

text \<open>
  Hashes, sets and sorted sets all keep a Go map with string keys, and the commands on them
  share two loops: store a sequence of entries and count the keys that were new (HSET, SADD,
  ZADD), and delete a sequence of keys and count those that were there (HDEL, SREM, ZREM).
  The loops are written once, the laws they need are a locale, and what they compute is
  proved in it.
\<close>

definition count_step :: "('x \<Rightarrow> 's \<Rightarrow> bool \<times> 's) \<Rightarrow> int \<times> 's \<Rightarrow> 'x \<Rightarrow> int \<times> 's" where
  "count_step f cs x =
     (case cs of (n, s) \<Rightarrow>
       case f x s of (b, s') \<Rightarrow> (if b then n + 1 else n, s'))"

definition count_loop :: "('x \<Rightarrow> 's \<Rightarrow> bool \<times> 's) \<Rightarrow> 'x list \<Rightarrow> 's \<Rightarrow> int \<times> 's" where
  "count_loop f xs s = foldl (count_step f) (0, s) xs"

lemma count_loop_acc:
  "foldl (count_step f) (c, s) xs = (c + fst (count_loop f xs s), snd (count_loop f xs s))"
  unfolding count_loop_def
proof (induction xs arbitrary: c s)
  case (Cons x xs)
  obtain b s' where f: "f x s = (b, s')" by force
  let ?d = "if b then 1 else 0 :: int"
  have step: "foldl (count_step f) (n, s) (x # xs) = foldl (count_step f) (n + ?d, s') xs" for n
    by (simp add: count_step_def f)
  show ?case
    unfolding step Cons [of "c + ?d" s'] Cons [of "0 + ?d" s'] fst_conv snd_conv
    by (simp only: add.assoc add_0)
qed simp

lemma count_loop_simps [simp]:
  "count_loop f [] s = (0, s)"
  "fst (count_loop f (x # xs) s)
     = (if fst (f x s) then 1 else 0) + fst (count_loop f xs (snd (f x s)))"
  "snd (count_loop f (x # xs) s) = snd (count_loop f xs (snd (f x s)))"
proof -
  obtain b s' where f: "f x s = (b, s')" by force
  show "fst (count_loop f (x # xs) s)
     = (if fst (f x s) then 1 else 0) + fst (count_loop f xs (snd (f x s)))"
    and "snd (count_loop f (x # xs) s) = snd (count_loop f xs (snd (f x s)))"
    by (cases b; simp add: count_loop_def [of f "x # xs"] count_step_def f count_loop_acc)+
qed (simp add: count_loop_def)

lemma count_loop_nonneg: "0 \<le> fst (count_loop f xs s)"
  by (induction xs arbitrary: s) simp_all

lemma count_loop_invariant:
  "(\<And>x s. P s \<Longrightarrow> P (snd (f x s))) \<Longrightarrow> P s \<Longrightarrow> P (snd (count_loop f xs s))"
  by (induction xs arbitrary: s) simp_all

locale keyed_store =
  fixes lookup :: "'s \<Rightarrow> string \<Rightarrow> 'v option"
    and put :: "string \<Rightarrow> 'v \<Rightarrow> 's \<Rightarrow> bool \<times> 's"
    and del :: "string \<Rightarrow> 's \<Rightarrow> bool \<times> 's"
    and len :: "'s \<Rightarrow> int"
    and ok :: "'s \<Rightarrow> bool"
  assumes put_ok: "ok s \<Longrightarrow> ok (snd (put k v s))"
    and del_ok: "ok s \<Longrightarrow> ok (snd (del k s))"
    and put_new: "ok s \<Longrightarrow> fst (put k v s) \<longleftrightarrow> lookup s k = None"
    and put_lookup: "ok s \<Longrightarrow> lookup (snd (put k v s)) = (lookup s)(k \<mapsto> v)"
    and del_found: "ok s \<Longrightarrow> fst (del k s) \<longleftrightarrow> lookup s k \<noteq> None"
    and del_lookup: "ok s \<Longrightarrow> lookup (snd (del k s)) = (lookup s)(k := None)"
    and len_card: "ok s \<Longrightarrow> len s = int (card (dom (lookup s)))"
    and finite_lookup: "ok s \<Longrightarrow> finite (dom (lookup s))"
begin

abbreviation put_all :: "(string \<times> 'v) list \<Rightarrow> 's \<Rightarrow> int \<times> 's" where
  "put_all \<equiv> count_loop (\<lambda>(k, v) s. put k v s)"

abbreviation del_all :: "string list \<Rightarrow> 's \<Rightarrow> int \<times> 's" where
  "del_all \<equiv> count_loop (\<lambda>k s. del k s)"

lemma put_all_ok: "ok s \<Longrightarrow> ok (snd (put_all kvs s))"
  by (rule count_loop_invariant [where P = ok]) (auto simp: put_ok)

lemma del_all_ok: "ok s \<Longrightarrow> ok (snd (del_all ks s))"
  by (rule count_loop_invariant [where P = ok]) (auto simp: del_ok)

lemma put_all_lookup: "ok s \<Longrightarrow> lookup (snd (put_all kvs s)) = lookup s ++ map_of (rev kvs)"
proof (induction kvs arbitrary: s)
  case (Cons p kvs)
  obtain k v where p: "p = (k, v)" by force
  have "lookup (snd (put_all kvs (snd (put k v s)))) = (lookup s)(k \<mapsto> v) ++ map_of (rev kvs)"
    using Cons.IH [OF put_ok [OF Cons.prems, of k v]]
    unfolding put_lookup [OF Cons.prems] .
  then show ?case
    by (simp add: p)
qed simp

lemma del_all_lookup: "ok s \<Longrightarrow> lookup (snd (del_all ks s)) = lookup s |` (- set ks)"
proof (induction ks arbitrary: s)
  case (Cons k ks)
  have "lookup (snd (del_all ks (snd (del k s)))) = (lookup s)(k := None) |` (- set ks)"
    using Cons.IH [OF del_ok [OF Cons.prems, of k]] unfolding del_lookup [OF Cons.prems] .
  then show ?case
    by (auto simp: restrict_map_def fun_eq_iff)
qed (simp add: restrict_map_def)

lemma dom_put_all: "ok s \<Longrightarrow> dom (lookup (snd (put_all kvs s))) = dom (lookup s) \<union> fst ` set kvs"
  by (auto simp: put_all_lookup dom_map_of_conv_image_fst)

lemma dom_del_all: "ok s \<Longrightarrow> dom (lookup (snd (del_all ks s))) = dom (lookup s) - set ks"
  by (auto simp: del_all_lookup)

lemma put_all_count:
  "ok s \<Longrightarrow> fst (put_all kvs s) = int (card (fst ` set kvs - dom (lookup s)))"
proof (induction kvs arbitrary: s)
  case (Cons p kvs)
  obtain k v where p: "p = (k, v)" by force
  let ?A = "fst ` set kvs" and ?D = "dom (lookup s)"
  have IH: "fst (put_all kvs (snd (put k v s))) = int (card (?A - insert k ?D))"
    using Cons.IH [OF put_ok [OF Cons.prems, of k v]]
    unfolding put_lookup [OF Cons.prems] dom_fun_upd by simp
  have step: "fst (put_all (p # kvs) s)
      = (if lookup s k = None then 1 else 0) + int (card (?A - insert k ?D))"
    using IH put_new [OF Cons.prems, of k v] by (simp add: p)
  show ?case
  proof (cases "k \<in> ?D")
    case True
    then have eq: "fst ` set (p # kvs) - ?D = ?A - insert k ?D" by (auto simp: p)
    show ?thesis unfolding step eq using True by auto
  next
    case False
    then have eq: "fst ` set (p # kvs) - ?D = insert k (?A - insert k ?D)" by (auto simp: p)
    have "card (insert k (?A - insert k ?D)) = Suc (card (?A - insert k ?D))"
      by (subst card_insert_disjoint) auto
    then show ?thesis unfolding step eq using False by (auto simp: domIff)
  qed
qed simp

lemma del_all_count:
  "ok s \<Longrightarrow> fst (del_all ks s) = int (card (set ks \<inter> dom (lookup s)))"
proof (induction ks arbitrary: s)
  case (Cons k ks)
  let ?D = "dom (lookup s)"
  have IH: "fst (del_all ks (snd (del k s))) = int (card (set ks \<inter> (?D - {k})))"
    using Cons.IH [OF del_ok [OF Cons.prems, of k]]
    unfolding del_lookup [OF Cons.prems] dom_fun_upd by simp
  have step: "fst (del_all (k # ks) s)
      = (if lookup s k = None then 0 else 1) + int (card (set ks \<inter> (?D - {k})))"
    using IH del_found [OF Cons.prems, of k] by simp
  show ?case
  proof (cases "k \<in> ?D")
    case True
    then have eq: "set (k # ks) \<inter> ?D = insert k (set ks \<inter> (?D - {k}))" by auto
    have "card (insert k (set ks \<inter> (?D - {k}))) = Suc (card (set ks \<inter> (?D - {k})))"
      by (subst card_insert_disjoint) auto
    then show ?thesis unfolding step eq using True by auto
  next
    case False
    then have eq: "set (k # ks) \<inter> ?D = set ks \<inter> (?D - {k})" by auto
    show ?thesis unfolding step eq using False by (auto simp: domIff)
  qed
qed simp

text \<open>The reply of a storing or deleting command is the change of the container's length.\<close>

lemma put_all_len: "ok s \<Longrightarrow> len (snd (put_all kvs s)) = len s + fst (put_all kvs s)"
proof -
  assume s: "ok s"
  have "card (dom (lookup s) \<union> fst ` set kvs)
      = card (dom (lookup s)) + card (fst ` set kvs - dom (lookup s))"
    using card_Un_disjoint [of "dom (lookup s)" "fst ` set kvs - dom (lookup s)"]
      finite_lookup [OF s] by (simp add: Int_Diff)
  then show ?thesis
    by (simp add: len_card [OF put_all_ok [OF s]] len_card [OF s] dom_put_all [OF s]
        put_all_count [OF s])
qed

lemma del_all_len: "ok s \<Longrightarrow> len (snd (del_all ks s)) = len s - fst (del_all ks s)"
proof -
  assume s: "ok s"
  have "card (dom (lookup s) - set ks) + card (set ks \<inter> dom (lookup s)) = card (dom (lookup s))"
    using finite_lookup [OF s] card_Diff_subset_Int [of "dom (lookup s)" "set ks"]
      card_mono [OF finite_lookup [OF s], of "dom (lookup s) \<inter> set ks"]
    by (simp add: Int_commute)
  then show ?thesis
    by (simp add: len_card [OF del_all_ok [OF s]] len_card [OF s] dom_del_all [OF s]
        del_all_count [OF s] flip: of_nat_add)
qed

end

end
