(* ===== verification/EngineHash.thy ===== *)
theory EngineHash
  imports KeyedStore
begin

section \<open>Hashes\<close>

text \<open>
  Models \<^verbatim>\<open>internal/engine/hash.go\<close>: a hash is a Go map from fields to values.  A result
  \<open>(string, bool)\<close> is an option.  \<open>Hash_Put\<close> is the pair of calls that HSET and the log
  replay make for one field (is it there, then set it); it makes the hash a keyed store.
\<close>

type_synonym hash = "string gomap"

definition NewHash :: hash where
  "NewHash = []"

definition Hash_Has :: "string \<Rightarrow> hash \<Rightarrow> bool" where
  "Hash_Has field h = map_has h field"

definition Hash_Set :: "string \<Rightarrow> string \<Rightarrow> hash \<Rightarrow> hash" where
  "Hash_Set field value h = map_put field value h"

definition Hash_Get :: "string \<Rightarrow> hash \<Rightarrow> string option" where
  "Hash_Get field h = map_of h field"

definition Hash_Delete :: "string \<Rightarrow> hash \<Rightarrow> bool \<times> hash" where
  "Hash_Delete field h = (if map_has h field then (True, map_del field h) else (False, h))"

definition Hash_GetAll :: "map_order \<Rightarrow> hash \<Rightarrow> string gomap" where
  "Hash_GetAll it h = foldl (\<lambda>m (k, v). map_put k v m) [] (range_map it h)"

definition Hash_Len :: "hash \<Rightarrow> int" where
  "Hash_Len h = int (length h)"

definition Hash_Keys :: "map_order \<Rightarrow> hash \<Rightarrow> string list" where
  "Hash_Keys it h = foldl (\<lambda>keys k. keys @ [k]) [] (range_keys it h)"

definition Hash_Values :: "map_order \<Rightarrow> hash \<Rightarrow> string list" where
  "Hash_Values it h = foldl (\<lambda>values (_, v). values @ [v]) [] (range_map it h)"

definition Hash_Put :: "string \<Rightarrow> string \<Rightarrow> hash \<Rightarrow> bool \<times> hash" where
  "Hash_Put field value h = (\<not> Hash_Has field h, Hash_Set field value h)"

lemma length_map_ok: "map_ok m \<Longrightarrow> int (length m) = int (card (dom (map_of m)))"
  by (metis distinct_card dom_map_of_conv_image_fst length_map list.set_map map_ok_def)

interpretation hash: keyed_store map_of Hash_Put Hash_Delete Hash_Len map_ok
  by unfold_locales
    (auto simp: Hash_Put_def Hash_Has_def Hash_Set_def Hash_Delete_def Hash_Len_def map_has_def
      length_map_ok finite_dom_map_of fun_eq_iff)

lemma Hash_GetAll_lookup:
  assumes "order_ok it" and "map_ok h"
  shows "map_ok (Hash_GetAll it h)" and "map_of (Hash_GetAll it h) = map_of h"
  using map_of_foldl_put [OF map_ok_range_map [OF assms], of "[]"] map_of_range_map [OF assms]
  by (auto simp: Hash_GetAll_def map_ok_foldl_put fun_eq_iff split: option.splits)

lemma foldl_snoc: "foldl (\<lambda>acc x. acc @ [f x]) acc xs = acc @ map f xs"
  by (induction xs arbitrary: acc) auto

lemma Hash_Keys_range: "Hash_Keys it h = range_keys it h"
  using foldl_snoc [of "\<lambda>k. k" "[]" "range_keys it h"] by (simp add: Hash_Keys_def)

lemma Hash_Values_range: "Hash_Values it h = map snd (range_map it h)"
  using foldl_snoc [of snd "[]" "range_map it h"] by (simp add: Hash_Values_def case_prod_unfold)

end
