(* ===== verification/EngineList.thy ===== *)
theory EngineList
  imports Prelude
begin

section \<open>Lists\<close>

text \<open>
  Models \<^verbatim>\<open>internal/engine/list.go\<close>: a doubly linked list of strings, here the list of
  its elements front to back.  \<open>LRange\<close> walks the list with an index and stops after the
  stop index (\<open>lrange_loop\<close>); the lemma \<open>LRange_slice\<close> says which slice that is.
\<close>

type_synonym go_list = "string list"

definition NewList :: go_list where
  "NewList = []"

definition List_LPush :: "string list \<Rightarrow> go_list \<Rightarrow> int \<times> go_list" where
  "List_LPush values l = (let l' = foldl (\<lambda>l v. v # l) l values in (int (length l'), l'))"

definition List_RPush :: "string list \<Rightarrow> go_list \<Rightarrow> int \<times> go_list" where
  "List_RPush values l = (let l' = foldl (\<lambda>l v. l @ [v]) l values in (int (length l'), l'))"

definition List_LPop :: "go_list \<Rightarrow> string option \<times> go_list" where
  "List_LPop l = (case l of [] \<Rightarrow> (None, l) | v # rest \<Rightarrow> (Some v, rest))"

definition List_RPop :: "go_list \<Rightarrow> string option \<times> go_list" where
  "List_RPop l = (if l = [] then (None, l) else (Some (last l), butlast l))"

fun lrange_loop :: "int \<Rightarrow> int \<Rightarrow> int \<Rightarrow> string list \<Rightarrow> string list \<Rightarrow> string list" where
  "lrange_loop i start stop result [] = result"
| "lrange_loop i start stop result (x # xs) =
     (let result' = (if i \<ge> start \<and> i \<le> stop then result @ [x] else result)
      in if i > stop then result' else lrange_loop (i + 1) start stop result' xs)"

definition List_LRange :: "int \<Rightarrow> int \<Rightarrow> go_list \<Rightarrow> string list" where
  "List_LRange start stop l =
     (let len = int (length l) in
      if len = 0 then []
      else
        let start1 = (if start < 0 then len + start else start);
            stop1 = (if stop < 0 then len + stop else stop);
            start2 = (if start1 < 0 then 0 else start1);
            stop2 = (if stop1 \<ge> len then len - 1 else stop1)
        in if start2 > stop2 then [] else lrange_loop 0 start2 stop2 [] l)"

definition List_LLen :: "go_list \<Rightarrow> int" where
  "List_LLen l = int (length l)"

lemma List_LPush_eq: "List_LPush vs l = (int (length l + length vs), rev vs @ l)"
proof -
  have "foldl (\<lambda>l v. v # l) l vs = rev vs @ l" by (induction vs arbitrary: l) auto
  then show ?thesis by (simp add: List_LPush_def)
qed

lemma List_RPush_eq: "List_RPush vs l = (int (length l + length vs), l @ vs)"
proof -
  have "foldl (\<lambda>l v. l @ [v]) l vs = l @ vs" by (induction vs arbitrary: l) auto
  then show ?thesis by (simp add: List_RPush_def)
qed

lemma lrange_loop_slice:
  "0 \<le> i \<Longrightarrow> lrange_loop i start stop acc xs
     = acc @ take (nat (stop + 1 - max start i)) (drop (nat (start - i)) xs)"
proof (induction i start stop acc xs rule: lrange_loop.induct)
  case (2 i start stop acc x xs)
  consider "i > stop" | "i \<le> stop" "i < start" | "i \<le> stop" "start \<le> i" by linarith
  then show ?case
  proof cases
    case 1
    then show ?thesis by (simp add: max_def)
  next
    case 2
    then have "nat (start - i) = Suc (nat (start - (i + 1)))" and "max start i = max start (i + 1)"
      by auto
    with 2 "2.IH" "2.prems" show ?thesis by simp
  next
    case 3
    then have "nat (stop + 1 - max start i) = Suc (nat (stop + 1 - max start (i + 1)))"
      by auto
    with 3 "2.IH" "2.prems" show ?thesis by simp
  qed
qed simp

text \<open>Negative indices count from the end; the slice is cut to the list.\<close>

definition slice_lo :: "int \<Rightarrow> int \<Rightarrow> int" where
  "slice_lo len start = max 0 (if start < 0 then len + start else start)"

definition slice_hi :: "int \<Rightarrow> int \<Rightarrow> int" where
  "slice_hi len stop = min (len - 1) (if stop < 0 then len + stop else stop)"

definition go_slice :: "int \<Rightarrow> int \<Rightarrow> 'a list \<Rightarrow> 'a list" where
  "go_slice start stop xs =
     (let lo = slice_lo (int (length xs)) start; hi = slice_hi (int (length xs)) stop
      in take (nat (hi + 1 - lo)) (drop (nat lo) xs))"

lemma LRange_slice: "List_LRange start stop l = go_slice start stop l"
  by (auto simp: List_LRange_def go_slice_def slice_lo_def slice_hi_def Let_def lrange_loop_slice
      max_def min_def) (cases l, simp_all)

lemma slice_all: "go_slice 0 (-1) xs = xs"
  by (simp add: go_slice_def slice_lo_def slice_hi_def)

end
