(* ===== verification/EngineSet.thy ===== *)
theory EngineSet
  imports EngineHash
begin

section \<open>Sets\<close>

text \<open>
  Models \<^verbatim>\<open>internal/engine/set.go\<close>: a set is a Go map from members to the empty struct.
\<close>

type_synonym go_set = "unit gomap"

definition NewSet :: go_set where
  "NewSet = []"

text \<open>The bodies of the two loops: add or remove one member and say whether it counted.\<close>

definition Set_Add1 :: "string \<Rightarrow> go_set \<Rightarrow> bool \<times> go_set" where
  "Set_Add1 m s = (if \<not> map_has s m then (True, map_put m () s) else (False, s))"

definition Set_Remove1 :: "string \<Rightarrow> go_set \<Rightarrow> bool \<times> go_set" where
  "Set_Remove1 m s = (if map_has s m then (True, map_del m s) else (False, s))"

definition Set_Add :: "string list \<Rightarrow> go_set \<Rightarrow> int \<times> go_set" where
  "Set_Add members s = count_loop Set_Add1 members s"

definition Set_Remove :: "string list \<Rightarrow> go_set \<Rightarrow> int \<times> go_set" where
  "Set_Remove members s = count_loop Set_Remove1 members s"

definition Set_IsMember :: "string \<Rightarrow> go_set \<Rightarrow> bool" where
  "Set_IsMember m s = map_has s m"

definition Set_Members :: "map_order \<Rightarrow> go_set \<Rightarrow> string list" where
  "Set_Members it s = foldl (\<lambda>result m. result @ [m]) [] (range_keys it s)"

definition Set_Len :: "go_set \<Rightarrow> int" where
  "Set_Len s = int (length s)"

lemma not_Some_unit [simp]: "x \<noteq> Some () \<longleftrightarrow> x = None"
  by (cases x) auto

interpretation goset: keyed_store map_of "\<lambda>m (_::unit). Set_Add1 m" Set_Remove1 Set_Len map_ok
  by unfold_locales
    (auto simp: Set_Add1_def Set_Remove1_def Set_Len_def map_has_def length_map_ok
      finite_dom_map_of fun_eq_iff)

lemma count_loop_map: "count_loop f (map g xs) s = count_loop (\<lambda>x. f (g x)) xs s"
  by (induction xs arbitrary: s) (auto simp: prod_eq_iff)

lemma Set_Add_put_all:
  "Set_Add ms s = count_loop (\<lambda>(m, _::unit) s. Set_Add1 m s) (map (\<lambda>m. (m, ())) ms) s"
  by (simp add: Set_Add_def count_loop_map)

lemma Set_Members_range: "Set_Members it s = range_keys it s"
  using foldl_snoc [of "\<lambda>k. k" "[]" "range_keys it s"] by (simp add: Set_Members_def)

lemma Set_Add_spec:
  assumes "map_ok s"
  shows "map_ok (snd (Set_Add ms s))"
    and "dom (map_of (snd (Set_Add ms s))) = dom (map_of s) \<union> set ms"
    and "fst (Set_Add ms s) = int (card (set ms - dom (map_of s)))"
  using goset.put_all_ok [OF assms] goset.dom_put_all [OF assms] goset.put_all_count [OF assms]
  by (simp_all add: Set_Add_put_all image_image)

lemma Set_Remove_spec:
  assumes "map_ok s"
  shows "map_ok (snd (Set_Remove ms s))"
    and "dom (map_of (snd (Set_Remove ms s))) = dom (map_of s) - set ms"
    and "fst (Set_Remove ms s) = int (card (set ms \<inter> dom (map_of s)))"
  using goset.del_all_ok [OF assms] goset.dom_del_all [OF assms] goset.del_all_count [OF assms]
  by (simp_all add: Set_Remove_def)

end
