(* ===== verification/EngineSortedSet.thy ===== *)
theory EngineSortedSet
  imports EngineHash EngineList "HOL-Library.Word"
begin

unbundle bit_operations_syntax

section \<open>Sorted sets\<close>

text \<open>
  Models \<^verbatim>\<open>internal/engine/sortedset.go\<close>.  A score is a \<open>float64\<close>, here its IEEE 754 bit
  pattern, with the comparison that Go's \<open><\<close> makes on it: false when an operand is NaN,
  the two zeros equal, otherwise the order of the signed magnitudes.

  \<open>sort.Slice\<close> is not stable and its input comes in the order of a map range.  The model
  sorts the range by insertion: since every range order is allowed, every arrangement of
  equal scores that \<open>sort.Slice\<close> may produce is an instance.  With a NaN score the
  comparison is no ordering and the library leaves the result open; the results here then
  speak of insertion sort only.
\<close>

type_synonym f64 = "64 word"

definition f64_magnitude :: "f64 \<Rightarrow> nat" where
  "f64_magnitude w = unat w mod 2 ^ 63"

definition is_nan :: "f64 \<Rightarrow> bool" where
  "is_nan w \<longleftrightarrow> f64_magnitude w > 2047 * 2 ^ 52"

definition f64_rank :: "f64 \<Rightarrow> int" where
  "f64_rank w = (if unat w \<ge> 2 ^ 63 then - int (f64_magnitude w) else int (f64_magnitude w))"

definition f64_less :: "f64 \<Rightarrow> f64 \<Rightarrow> bool" where
  "f64_less a b \<longleftrightarrow> \<not> is_nan a \<and> \<not> is_nan b \<and> f64_rank a < f64_rank b"

type_synonym sorted_set = "f64 gomap"

record SortedSetMember =
  Member :: string
  Score :: f64

definition NewSortedSet :: sorted_set where
  "NewSortedSet = []"

definition SortedSet_Add :: "f64 \<Rightarrow> string \<Rightarrow> sorted_set \<Rightarrow> bool \<times> sorted_set" where
  "SortedSet_Add score member ss = (\<not> map_has ss member, map_put member score ss)"

definition SortedSet_Remove :: "string \<Rightarrow> sorted_set \<Rightarrow> bool \<times> sorted_set" where
  "SortedSet_Remove member ss =
     (if map_has ss member then (True, map_del member ss) else (False, ss))"

definition SortedSet_Len :: "sorted_set \<Rightarrow> int" where
  "SortedSet_Len ss = int (length ss)"

definition SortedSet_Score :: "string \<Rightarrow> sorted_set \<Rightarrow> f64 option" where
  "SortedSet_Score member ss = map_of ss member"

text \<open>Insertion sort: \<open>sorted\<close> holds the sorted prefix in reverse.\<close>

fun insert_back :: "('a \<Rightarrow> 'a \<Rightarrow> bool) \<Rightarrow> 'a \<Rightarrow> 'a list \<Rightarrow> 'a list" where
  "insert_back lt x [] = [x]"
| "insert_back lt x (y # ys) = (if lt x y then y # insert_back lt x ys else x # y # ys)"

definition sort_Slice :: "('a \<Rightarrow> 'a \<Rightarrow> bool) \<Rightarrow> 'a list \<Rightarrow> 'a list" where
  "sort_Slice lt xs = rev (foldl (\<lambda>sorted x. insert_back lt x sorted) [] xs)"

definition collect_members :: "map_order \<Rightarrow> sorted_set \<Rightarrow> SortedSetMember list" where
  "collect_members it ss =
     foldl (\<lambda>ms (m, s). ms @ [\<lparr>Member = m, Score = s\<rparr>]) [] (range_map it ss)"

definition SortedSet_Range :: "map_order \<Rightarrow> int \<Rightarrow> int \<Rightarrow> sorted_set \<Rightarrow> SortedSetMember list" where
  "SortedSet_Range it start stop ss =
     (let members = sort_Slice (\<lambda>a b. f64_less (Score a) (Score b)) (collect_members it ss);
          len = int (length members);
          start1 = (if start < 0 then len + start else start);
          stop1 = (if stop < 0 then len + stop else stop);
          start2 = (if start1 < 0 then 0 else start1);
          stop2 = (if stop1 \<ge> len then len - 1 else stop1)
      in if start2 > stop2 \<or> start2 \<ge> len then []
         else take (nat (stop2 + 1) - nat start2) (drop (nat start2) members))"

interpretation zset: keyed_store map_of "\<lambda>m s. SortedSet_Add s m" SortedSet_Remove SortedSet_Len map_ok
  by unfold_locales
    (auto simp: SortedSet_Add_def SortedSet_Remove_def SortedSet_Len_def map_has_def length_map_ok
      finite_dom_map_of fun_eq_iff)

subsection \<open>Sorting\<close>

lemma mset_insert_back [simp]: "mset (insert_back lt x ys) = add_mset x (mset ys)"
  by (induction ys) auto

lemma set_insert_back [simp]: "set (insert_back lt x ys) = insert x (set ys)"
  by (metis mset_insert_back set_mset_mset set_mset_add_mset_insert)

lemma mset_sort_Slice [simp]: "mset (sort_Slice lt xs) = mset xs"
proof -
  have "mset (foldl (\<lambda>sorted x. insert_back lt x sorted) acc xs) = mset acc + mset xs" for acc
    by (induction xs arbitrary: acc) auto
  then show ?thesis by (simp add: sort_Slice_def)
qed

lemma length_sort_Slice [simp]: "length (sort_Slice lt xs) = length xs"
  by (metis mset_sort_Slice size_mset)

lemma sort_Slice_sorted:
  assumes "\<And>a b. a \<in> set xs \<Longrightarrow> b \<in> set xs \<Longrightarrow> lt a b \<longleftrightarrow> (key a :: int) < key b"
  shows "sorted (map key (sort_Slice lt xs))"
proof -
  have ins: "sorted_wrt (\<lambda>a b. key b \<le> key a) (insert_back lt x ys)"
    if "sorted_wrt (\<lambda>a b. key b \<le> key a) ys" "insert x (set ys) \<subseteq> set xs" for x ys
    using that
  proof (induction ys)
    case (Cons y ys)
    then have "lt x y \<longleftrightarrow> key x < key y" by (intro assms) auto
    with Cons show ?case by auto
  qed simp
  have "sorted_wrt (\<lambda>a b. key b \<le> key a) (foldl (\<lambda>sorted x. insert_back lt x sorted) acc zs)"
    if "sorted_wrt (\<lambda>a b. key b \<le> key a) acc" "set acc \<union> set zs \<subseteq> set xs" for acc zs
    using that by (induction zs arbitrary: acc) (simp_all add: ins)
  from this [of "[]" xs] show ?thesis
    by (simp add: sort_Slice_def sorted_wrt_map sorted_wrt_rev)
qed

lemma collect_members_map:
  "collect_members it ss = map (\<lambda>(m, s). \<lparr>Member = m, Score = s\<rparr>) (range_map it ss)"
  using foldl_snoc [of "\<lambda>(m, s). \<lparr>Member = m, Score = s\<rparr>" "[]" "range_map it ss"]
  by (simp add: collect_members_def case_prod_unfold)

lemma SortedSet_Range_slice:
  "SortedSet_Range it start stop ss =
     go_slice start stop (sort_Slice (\<lambda>a b. f64_less (Score a) (Score b)) (collect_members it ss))"
  by (auto simp: SortedSet_Range_def go_slice_def slice_lo_def slice_hi_def Let_def max_def min_def
      nat_diff_distrib [symmetric]) (cases "collect_members it ss", simp_all)

end
