(* ===== verification/Pattern.thy ===== *)
theory Pattern
  imports GoStrings
begin

section \<open>Key patterns\<close>

text \<open>
  Models \<^verbatim>\<open>internal/engine/pattern.go\<close>: a pattern with a star at the start, at the end or
  at both; every other pattern is compared literally.  The slice
  \<open>pattern[1 : len(pattern)-1]\<close> is in range: a pattern that starts and ends with a star and
  is not a lone star has at least two bytes.
\<close>

definition matchPattern :: "string \<Rightarrow> string \<Rightarrow> bool" where
  "matchPattern key pat =
     (if pat = ''*'' then True
      else if HasPrefix pat ''*'' \<and> HasSuffix pat ''*'' then
        Contains key (take (length pat - 2) (drop 1 pat))
      else if HasPrefix pat ''*'' then HasSuffix key (drop 1 pat)
      else if HasSuffix pat ''*'' then HasPrefix key (take (length pat - 1) pat)
      else key = pat)"

lemma star_prefix: "HasPrefix pat ''*'' \<longleftrightarrow> (\<exists>t. pat = CHR ''*'' # t)"
  by (simp add: HasPrefix_iff)

lemma star_suffix: "HasSuffix pat ''*'' \<longleftrightarrow> (\<exists>t. pat = t @ ''*'')"
  by (simp add: HasSuffix_iff)

lemma matchPattern_middle:
  "matchPattern key (''*'' @ m @ ''*'') \<longleftrightarrow> (\<exists>t u. key = t @ m @ u)"
  by (simp add: matchPattern_def star_prefix star_suffix Contains_iff)

lemma matchPattern_prefix:
  assumes "p = [] \<or> hd p \<noteq> CHR ''*''"
  shows "matchPattern key (p @ ''*'') \<longleftrightarrow> (\<exists>u. key = p @ u)"
  using assms
  by (cases p) (simp_all add: matchPattern_def star_prefix star_suffix HasPrefix_iff)

lemma matchPattern_suffix:
  assumes "p \<noteq> []" and "last p \<noteq> CHR ''*''"
  shows "matchPattern key (''*'' @ p) \<longleftrightarrow> (\<exists>t. key = t @ p)"
proof -
  have "\<not> HasSuffix (''*'' @ p) ''*''"
    using assms by (auto simp: HasSuffix_iff dest!: arg_cong [where f = last])
  with assms show ?thesis
    by (simp add: matchPattern_def star_prefix HasSuffix_iff)
qed

lemma matchPattern_literal:
  assumes "pat = [] \<or> hd pat \<noteq> CHR ''*''" and "pat = [] \<or> last pat \<noteq> CHR ''*''"
  shows "matchPattern key pat \<longleftrightarrow> key = pat"
  using assms by (auto simp: matchPattern_def star_prefix star_suffix)

lemma matchPattern_star [simp]: "matchPattern key ''*''"
  by (simp add: matchPattern_def)

end
