(* ===== verification/Shard.thy ===== *)
theory Shard
  imports Evictor EngineHash EngineList EngineSet EngineSortedSet Pattern
begin

section \<open>Shards\<close>

text \<open>
  Models \<^verbatim>\<open>internal/engine/shard.go\<close>.  A shard holds an evictor for strings behind the
  \<open>Evictor\<close> interface and four maps for the other data types.  An operation is one
  critical section of the shard's lock; \<open>Get\<close> and \<open>TTL\<close> are two (look up under the
  read lock, remove an expired item under the write lock), written here in sequence.  The
  operations take the evictor's methods \<open>E\<close>, as the Go code calls them through the
  interface.

  \<open>GetHash\<close> and its likes return a pointer into the map, through which the caller mutates
  the container: \<open>Shard_put_hash\<close> and its likes are that store through the pointer.
\<close>

record 'e shard =
  policy :: string
  evictor :: 'e
  hashes :: "hash gomap"
  lists :: "go_list gomap"
  sets :: "go_set gomap"
  sortedSets :: "sorted_set gomap"

definition empty_shard :: "string \<Rightarrow> 'e \<Rightarrow> 'e shard" where
  "empty_shard p e = \<lparr>policy = p, evictor = e, hashes = [], lists = [], sets = [], sortedSets = []\<rparr>"

text \<open>Every policy name ends up with the LRU evictor and the policy ''lru''.\<close>

definition NewShard :: "string \<Rightarrow> int \<Rightarrow> int \<Rightarrow> lru shard" where
  "NewShard evictionPolicy evictorCapacity maxMem =
     (let p = (if evictionPolicy = '''' then ''lru'' else evictionPolicy)
      in if p = ''lru'' then empty_shard p (NewLRUWithMemory evictorCapacity maxMem)
         else if p = ''lfu'' then empty_shard ''lru'' (NewLRUWithMemory evictorCapacity maxMem)
         else if p = ''ttl'' then empty_shard ''lru'' (NewLRUWithMemory evictorCapacity maxMem)
         else empty_shard ''lru'' (NewLRUWithMemory evictorCapacity maxMem))"

definition Shard_HasKey :: "'e evictor_ops \<Rightarrow> string \<Rightarrow> 'e shard \<Rightarrow> bool" where
  "Shard_HasKey E key s = ev_Has E key (evictor s)"

definition Shard_Set :: "'e evictor_ops \<Rightarrow> int \<Rightarrow> string \<Rightarrow> string \<Rightarrow> int \<Rightarrow> 'e shard \<Rightarrow> 'e shard" where
  "Shard_Set E now key value ttl s =
     s\<lparr>evictor := ev_Add E key (NewItem now value ttl) (evictor s)\<rparr>"

definition Shard_Get :: "'e evictor_ops \<Rightarrow> int \<Rightarrow> string \<Rightarrow> 'e shard \<Rightarrow> string option \<times> 'e shard" where
  "Shard_Get E now key s =
     (case ev_Get E key (evictor s) of (found, e1) \<Rightarrow>
       case found of
         None \<Rightarrow> (None, s\<lparr>evictor := e1\<rparr>)
       | Some item \<Rightarrow>
           if IsExpired now item then (None, s\<lparr>evictor := snd (ev_Remove E key e1)\<rparr>)
           else (Some (Value item), s\<lparr>evictor := e1\<rparr>))"

definition Shard_Delete :: "'e evictor_ops \<Rightarrow> string \<Rightarrow> 'e shard \<Rightarrow> bool \<times> 'e shard" where
  "Shard_Delete E key s =
     (case ev_Remove E key (evictor s) of (b, e1) \<Rightarrow> (b, s\<lparr>evictor := e1\<rparr>))"

text \<open>
  \<open>TTL\<close> reads the clock twice: \<open>t1\<close> for \<open>IsExpired\<close>, \<open>t2\<close> for the remaining time.
  \<open>int64(ttl.Seconds())\<close> is the integral number of seconds; \<open>Seconds\<close> goes through a
  float64, which is exact enough for the truncation below \<open>2 ^ 24\<close> seconds (194 days).
\<close>

definition Shard_TTL :: "'e evictor_ops \<Rightarrow> int \<Rightarrow> int \<Rightarrow> string \<Rightarrow> 'e shard \<Rightarrow> int \<times> 'e shard" where
  "Shard_TTL E t1 t2 key s =
     (case ev_Get E key (evictor s) of (found, e1) \<Rightarrow>
       case found of
         None \<Rightarrow> (-2, s\<lparr>evictor := e1\<rparr>)
       | Some item \<Rightarrow>
           if IsExpired t1 item then (-2, s\<lparr>evictor := snd (ev_Remove E key e1)\<rparr>)
           else let ttl = Item_TTL t2 item in
             (if ttl < 0 then -1 else ttl div 1000000000, s\<lparr>evictor := e1\<rparr>))"

definition Shard_MemoryUsage :: "'e evictor_ops \<Rightarrow> 'e shard \<Rightarrow> int" where
  "Shard_MemoryUsage E s = ev_MemoryUsage E (evictor s)"

definition Shard_Policy :: "'e shard \<Rightarrow> string" where
  "Shard_Policy s = policy s"

definition Shard_Size :: "'e evictor_ops \<Rightarrow> 'e shard \<Rightarrow> int" where
  "Shard_Size E s = ev_Len E (evictor s)"

definition Shard_MaxCapacity :: "'e evictor_ops \<Rightarrow> 'e shard \<Rightarrow> int" where
  "Shard_MaxCapacity E s = ev_MaxCapacity E (evictor s)"

text \<open>Deleting the visited key during the range does not disturb the range.\<close>

definition Shard_CleanupExpired :: "'e evictor_ops \<Rightarrow> int \<Rightarrow> map_order \<Rightarrow> 'e shard \<Rightarrow> 'e shard" where
  "Shard_CleanupExpired E now it s =
     s\<lparr>evictor := foldl (\<lambda>e (key, item).
         if IsExpired now item then snd (ev_Remove E key e) else e)
       (evictor s) (ev_ForEach E it (evictor s))\<rparr>"

definition Shard_GetItems :: "'e evictor_ops \<Rightarrow> int \<Rightarrow> map_order \<Rightarrow> 'e shard \<Rightarrow> item gomap" where
  "Shard_GetItems E now it s =
     foldl (\<lambda>m (key, item). if \<not> IsExpired now item then map_put key item m else m)
       [] (ev_ForEach E it (evictor s))"

definition Shard_Restore :: "'e evictor_ops \<Rightarrow> map_order \<Rightarrow> item gomap \<Rightarrow> 'e shard \<Rightarrow> 'e shard" where
  "Shard_Restore E it its s =
     s\<lparr>evictor := foldl (\<lambda>e (key, item). ev_Add E key item e) (evictor s) (range_map it its)\<rparr>"

definition Shard_GetHash :: "string \<Rightarrow> 'e shard \<Rightarrow> hash option" where
  "Shard_GetHash key s = map_of (hashes s) key"

definition Shard_put_hash :: "string \<Rightarrow> hash \<Rightarrow> 'e shard \<Rightarrow> 'e shard" where
  "Shard_put_hash key h s = s\<lparr>hashes := map_put key h (hashes s)\<rparr>"

definition Shard_GetOrCreateHash :: "string \<Rightarrow> 'e shard \<Rightarrow> hash \<times> bool \<times> 'e shard" where
  "Shard_GetOrCreateHash key s =
     (case map_of (hashes s) key of
        Some h \<Rightarrow> (h, False, s)
      | None \<Rightarrow> (NewHash, True, s\<lparr>hashes := map_put key NewHash (hashes s)\<rparr>))"

definition Shard_GetList :: "string \<Rightarrow> 'e shard \<Rightarrow> go_list option" where
  "Shard_GetList key s = map_of (lists s) key"

definition Shard_put_list :: "string \<Rightarrow> go_list \<Rightarrow> 'e shard \<Rightarrow> 'e shard" where
  "Shard_put_list key l s = s\<lparr>lists := map_put key l (lists s)\<rparr>"

definition Shard_GetOrCreateList :: "string \<Rightarrow> 'e shard \<Rightarrow> go_list \<times> bool \<times> 'e shard" where
  "Shard_GetOrCreateList key s =
     (case map_of (lists s) key of
        Some l \<Rightarrow> (l, False, s)
      | None \<Rightarrow> (NewList, True, s\<lparr>lists := map_put key NewList (lists s)\<rparr>))"

definition Shard_GetSet :: "string \<Rightarrow> 'e shard \<Rightarrow> go_set option" where
  "Shard_GetSet key s = map_of (sets s) key"

definition Shard_put_set :: "string \<Rightarrow> go_set \<Rightarrow> 'e shard \<Rightarrow> 'e shard" where
  "Shard_put_set key x s = s\<lparr>sets := map_put key x (sets s)\<rparr>"

definition Shard_GetOrCreateSet :: "string \<Rightarrow> 'e shard \<Rightarrow> go_set \<times> bool \<times> 'e shard" where
  "Shard_GetOrCreateSet key s =
     (case map_of (sets s) key of
        Some x \<Rightarrow> (x, False, s)
      | None \<Rightarrow> (NewSet, True, s\<lparr>sets := map_put key NewSet (sets s)\<rparr>))"

definition Shard_GetSortedSet :: "string \<Rightarrow> 'e shard \<Rightarrow> sorted_set option" where
  "Shard_GetSortedSet key s = map_of (sortedSets s) key"

definition Shard_put_sorted_set :: "string \<Rightarrow> sorted_set \<Rightarrow> 'e shard \<Rightarrow> 'e shard" where
  "Shard_put_sorted_set key x s = s\<lparr>sortedSets := map_put key x (sortedSets s)\<rparr>"

definition Shard_GetOrCreateSortedSet :: "string \<Rightarrow> 'e shard \<Rightarrow> sorted_set \<times> bool \<times> 'e shard" where
  "Shard_GetOrCreateSortedSet key s =
     (case map_of (sortedSets s) key of
        Some x \<Rightarrow> (x, False, s)
      | None \<Rightarrow> (NewSortedSet, True, s\<lparr>sortedSets := map_put key NewSortedSet (sortedSets s)\<rparr>))"

text \<open>
  The loop of \<open>Scan\<close> over the keys from the offset on.  When it starts below index zero,
  its first access panics.
\<close>

fun scan_loop :: "string \<Rightarrow> int \<Rightarrow> string list \<Rightarrow> string list \<Rightarrow> string list" where
  "scan_loop pat limit found [] = found"
| "scan_loop pat limit found (k # ks) =
     (if int (length found) < limit
      then scan_loop pat limit (if matchPattern k pat then found @ [k] else found) ks
      else found)"

definition Shard_Scan ::
  "'e evictor_ops \<Rightarrow> int \<Rightarrow> map_order \<Rightarrow> int \<Rightarrow> string \<Rightarrow> int \<Rightarrow> 'e shard \<Rightarrow> (string list \<times> int) outcome" where
  "Shard_Scan E now it offset pat limit s =
     (let allKeys = ev_GetKeys E now it (evictor s) in
      if offset < 0 \<and> 0 < limit then Panic
      else let keys = scan_loop pat limit [] (drop (nat offset) allKeys)
        in Ret (keys, offset + int (length keys)))"

subsection \<open>What a shard does, over any evictor that keeps the contract\<close>

text \<open>The value of an item that is there and has not expired.\<close>

definition live :: "int \<Rightarrow> item option \<Rightarrow> string option" where
  "live now io = (case io of None \<Rightarrow> None | Some i \<Rightarrow> if IsExpired now i then None else Some (Value i))"

definition drop_expired :: "int \<Rightarrow> item option \<Rightarrow> item option" where
  "drop_expired now io = (case io of None \<Rightarrow> None | Some i \<Rightarrow> if IsExpired now i then None else Some i)"

lemma live_simps [simp]:
  "live t None = None"
  "\<not> IsExpired t i \<Longrightarrow> live t (Some i) = Some (Value i)"
  "IsExpired t i \<Longrightarrow> live t (Some i) = None"
  by (simp_all add: live_def)

lemma drop_expired_simps [simp]:
  "drop_expired t None = None"
  "\<not> IsExpired t i \<Longrightarrow> drop_expired t (Some i) = Some i"
  "IsExpired t i \<Longrightarrow> drop_expired t (Some i) = None"
  by (simp_all add: drop_expired_def)

lemma live_drop_expired: "live t (drop_expired t io) = live t io"
  by (auto simp: live_def drop_expired_def split: option.splits)

definition shard_ok :: "('e \<Rightarrow> bool) \<Rightarrow> 'e shard \<Rightarrow> bool" where
  "shard_ok I s \<longleftrightarrow> I (evictor s) \<and>
     map_ok (hashes s) \<and> (\<forall>k h. map_of (hashes s) k = Some h \<longrightarrow> map_ok h) \<and>
     map_ok (lists s) \<and>
     map_ok (sets s) \<and> (\<forall>k x. map_of (sets s) k = Some x \<longrightarrow> map_ok x) \<and>
     map_ok (sortedSets s) \<and> (\<forall>k x. map_of (sortedSets s) k = Some x \<longrightarrow> map_ok x)"

lemma shard_ok_evictor: "shard_ok I s \<Longrightarrow> I e \<Longrightarrow> shard_ok I (s\<lparr>evictor := e\<rparr>)"
  by (simp add: shard_ok_def)

lemma shard_ok_inv: "shard_ok I s \<Longrightarrow> I (evictor s)"
  by (simp add: shard_ok_def)

lemma shard_ok_put:
  "shard_ok I s \<Longrightarrow> map_ok h \<Longrightarrow> shard_ok I (Shard_put_hash k h s)"
  "shard_ok I s \<Longrightarrow> shard_ok I (Shard_put_list k l s)"
  "shard_ok I s \<Longrightarrow> map_ok x \<Longrightarrow> shard_ok I (Shard_put_set k x s)"
  "shard_ok I s \<Longrightarrow> map_ok z \<Longrightarrow> shard_ok I (Shard_put_sorted_set k z s)"
  by (auto simp: shard_ok_def Shard_put_hash_def Shard_put_list_def Shard_put_set_def
      Shard_put_sorted_set_def)

lemma shard_ok_get:
  "shard_ok I s \<Longrightarrow> Shard_GetHash k s = Some h \<Longrightarrow> map_ok h"
  "shard_ok I s \<Longrightarrow> Shard_GetSet k s = Some x \<Longrightarrow> map_ok x"
  "shard_ok I s \<Longrightarrow> Shard_GetSortedSet k s = Some z \<Longrightarrow> map_ok z"
  by (auto simp: shard_ok_def Shard_GetHash_def Shard_GetSet_def Shard_GetSortedSet_def)

text \<open>\<open>GetOrCreate\<close> creates the empty container exactly when there is none.\<close>

definition or_empty :: "'a list option \<Rightarrow> 'a list" where
  "or_empty x = (case x of None \<Rightarrow> [] | Some y \<Rightarrow> y)"

lemma or_empty_simps [simp]: "or_empty None = []" "or_empty (Some x) = x"
  by (simp_all add: or_empty_def)

lemma Shard_GetOrCreate_eqs:
  "Shard_GetOrCreateHash k s = (or_empty (Shard_GetHash k s), Shard_GetHash k s = None,
     if Shard_GetHash k s = None then Shard_put_hash k NewHash s else s)"
  "Shard_GetOrCreateList k s = (or_empty (Shard_GetList k s), Shard_GetList k s = None,
     if Shard_GetList k s = None then Shard_put_list k NewList s else s)"
  "Shard_GetOrCreateSet k s = (or_empty (Shard_GetSet k s), Shard_GetSet k s = None,
     if Shard_GetSet k s = None then Shard_put_set k NewSet s else s)"
  "Shard_GetOrCreateSortedSet k s = (or_empty (Shard_GetSortedSet k s), Shard_GetSortedSet k s = None,
     if Shard_GetSortedSet k s = None then Shard_put_sorted_set k NewSortedSet s else s)"
  by (simp_all add: Shard_GetOrCreateHash_def Shard_GetHash_def Shard_put_hash_def NewHash_def
      Shard_GetOrCreateList_def Shard_GetList_def Shard_put_list_def NewList_def
      Shard_GetOrCreateSet_def Shard_GetSet_def Shard_put_set_def NewSet_def
      Shard_GetOrCreateSortedSet_def Shard_GetSortedSet_def Shard_put_sorted_set_def NewSortedSet_def
      split: option.split)

context eviction
begin

lemma Set_inv: "inv (evictor s) \<Longrightarrow> inv (evictor (Shard_Set E now k v ttl s))"
  by (simp add: Shard_Set_def inv_Add)

lemma Set_hit:
  "inv (evictor s) \<Longrightarrow>
     contents (evictor (Shard_Set E now k v ttl s)) k = Some (NewItem now v ttl)"
  by (simp add: Shard_Set_def Add_hit)

lemma Set_other:
  "inv (evictor s) \<Longrightarrow> k' \<noteq> k \<Longrightarrow>
     contents (evictor (Shard_Set E now k v ttl s)) k' = None
     \<or> contents (evictor (Shard_Set E now k v ttl s)) k' = contents (evictor s) k'"
  by (simp add: Shard_Set_def Add_other)

lemma Get_eq:
  assumes "inv (evictor s)"
  shows "fst (Shard_Get E now k s) = live now (contents (evictor s) k)"
    and "inv (evictor (snd (Shard_Get E now k s)))"
    and "contents (evictor (snd (Shard_Get E now k s)))
       = (contents (evictor s))(k := drop_expired now (contents (evictor s) k))"
proof -
  obtain r e1 where g: "ev_Get E k (evictor s) = (r, e1)" by force
  then have r: "r = contents (evictor s) k" and c: "contents e1 = contents (evictor s)" and i: "inv e1"
    using Get_result [OF assms, of k] Get_contents [OF assms, of k] inv_Get [OF assms, of k] by auto
  show "fst (Shard_Get E now k s) = live now (contents (evictor s) k)"
    and "inv (evictor (snd (Shard_Get E now k s)))"
    and "contents (evictor (snd (Shard_Get E now k s)))
       = (contents (evictor s))(k := drop_expired now (contents (evictor s) k))"
    using i c r
    by (auto simp: Shard_Get_def g live_def drop_expired_def inv_Remove Remove_contents fun_eq_iff
        split: option.splits)
qed

lemma TTL_eq:
  assumes "inv (evictor s)"
  shows "fst (Shard_TTL E t1 t2 k s) =
      (case drop_expired t1 (contents (evictor s) k) of
         None \<Rightarrow> -2
       | Some i \<Rightarrow> if Expiration i = 0 then -1 else Item_TTL t2 i div 1000000000)"
    and "inv (evictor (snd (Shard_TTL E t1 t2 k s)))"
    and "contents (evictor (snd (Shard_TTL E t1 t2 k s)))
       = (contents (evictor s))(k := drop_expired t1 (contents (evictor s) k))"
proof -
  obtain r e1 where g: "ev_Get E k (evictor s) = (r, e1)" by force
  then have r: "r = contents (evictor s) k" and c: "contents e1 = contents (evictor s)" and i: "inv e1"
    using Get_result [OF assms, of k] Get_contents [OF assms, of k] inv_Get [OF assms, of k] by auto
  show "fst (Shard_TTL E t1 t2 k s) =
      (case drop_expired t1 (contents (evictor s) k) of
         None \<Rightarrow> -2
       | Some i \<Rightarrow> if Expiration i = 0 then -1 else Item_TTL t2 i div 1000000000)"
    and "inv (evictor (snd (Shard_TTL E t1 t2 k s)))"
    and "contents (evictor (snd (Shard_TTL E t1 t2 k s)))
       = (contents (evictor s))(k := drop_expired t1 (contents (evictor s) k))"
    using i c r
    by (auto simp: Shard_TTL_def g drop_expired_def inv_Remove Remove_contents fun_eq_iff
        Item_TTL_def Let_def split: option.splits)
qed

lemma Delete_eq:
  assumes "inv (evictor s)"
  shows "fst (Shard_Delete E k s) \<longleftrightarrow> contents (evictor s) k \<noteq> None"
    and "inv (evictor (snd (Shard_Delete E k s)))"
    and "contents (evictor (snd (Shard_Delete E k s))) = (contents (evictor s))(k := None)"
  using Remove_result [OF assms, of k] inv_Remove [OF assms, of k] Remove_contents [OF assms, of k]
  by (auto simp: Shard_Delete_def split: prod.splits)

lemma cleanup_loop:
  assumes "inv e" and "map_ok xs"
  shows "inv (foldl (\<lambda>e (k, i). if IsExpired now i then snd (ev_Remove E k e) else e) e xs) \<and>
    contents (foldl (\<lambda>e (k, i). if IsExpired now i then snd (ev_Remove E k e) else e) e xs) k
      = (case map_of xs k of
           None \<Rightarrow> contents e k
         | Some i \<Rightarrow> if IsExpired now i then None else contents e k)"
  using assms
proof (induction xs arbitrary: e)
  case (Cons p xs)
  obtain k1 i1 where p: "p = (k1, i1)" by force
  let ?e = "if IsExpired now i1 then snd (ev_Remove E k1 e) else e"
  have inv': "inv ?e" using Cons.prems by (simp add: inv_Remove)
  have ok: "map_ok xs" and "k1 \<notin> fst ` set xs" using Cons.prems p by (auto simp: map_ok_def)
  then have none: "map_of xs k1 = None" by (simp only: map_of_eq_None_iff not_False_eq_True)
  show ?case
    using Cons.IH [OF inv' ok] none Cons.prems(1)
    by (cases "IsExpired now i1") (auto simp: p Remove_contents split: option.splits)
qed simp

lemma CleanupExpired_eq:
  assumes "inv (evictor s)" and "order_ok it"
  shows "inv (evictor (Shard_CleanupExpired E now it s))"
    and "contents (evictor (Shard_CleanupExpired E now it s)) k
      = drop_expired now (contents (evictor s) k)"
  using cleanup_loop [OF assms(1) ForEach_ok [OF assms], of now]
  by (auto simp: Shard_CleanupExpired_def ForEach_contents [OF assms] drop_expired_def
      split: option.splits)

lemma GetItems_eq:
  assumes "inv (evictor s)" and "order_ok it"
  shows "map_ok (Shard_GetItems E now it s)"
    and "map_of (Shard_GetItems E now it s) k = drop_expired now (contents (evictor s) k)"
proof -
  let ?xs = "filter (\<lambda>(k, i). \<not> IsExpired now i) (ev_ForEach E it (evictor s))"
  have eq: "Shard_GetItems E now it s = foldl (\<lambda>m (k, i). map_put k i m) [] ?xs"
    by (simp add: Shard_GetItems_def case_prod_unfold foldl_filter)
  have ok: "map_ok (ev_ForEach E it (evictor s))" by (rule ForEach_ok [OF assms])
  then have ok': "map_ok ?xs"
    by (auto simp: map_ok_def distinct_map inj_on_def)
  show "map_ok (Shard_GetItems E now it s)"
    by (simp add: eq map_ok_foldl_put)
  show "map_of (Shard_GetItems E now it s) k = drop_expired now (contents (evictor s) k)"
    by (auto simp: eq map_of_foldl_put [OF ok'] map_of_filter_snd [OF ok]
        ForEach_contents [OF assms] drop_expired_def split: option.splits)
qed

end

end
