(* ===== verification/Config.thy ===== *)
theory Config
  imports Prelude "HOL-Library.Word"
begin

section \<open>The configuration\<close>

text \<open>
  Models the configuration structures, the defaults and the validation of
  \<^verbatim>\<open>internal/config/config.go\<close>.  A \<open>time.Duration\<close> is its number of
  nanoseconds.  A validation error is its message; \<open>None\<close> is a nil error.
\<close>

record ServerConfig =
  Port :: string
  MaxConnections :: int
  ReadTimeout :: int
  WriteTimeout :: int
  IdleTimeout :: int
  RequirePass :: string

record EngineConfig =
  MaxMemory :: int
  EvictionPolicy :: string
  EvictorCapacity :: int
  ShardCount :: int
  DefaultTTL :: int

record JSONConfig =
  JSON_Enabled :: bool
  JSON_Path :: string
  JSON_Interval :: int
  MaxSnapshots :: int

record AOFConfig =
  AOF_Enabled :: bool
  FilePath :: string
  FlushInterval :: int
  SyncOnWrite :: bool

record RDBConfig =
  RDB_Enabled :: bool
  RDB_Path :: string
  RDB_Interval :: int

record PersistenceConfig =
  JSON :: JSONConfig
  RDB :: RDBConfig
  AOF :: AOFConfig

record Config =
  Server :: ServerConfig
  Engine :: EngineConfig
  Persistence :: PersistenceConfig

definition second :: int where "second = 1000000000"
definition minute :: int where "minute = 60 * second"
definition hour :: int where "hour = 60 * minute"

definition DefaultConfig :: Config where
  "DefaultConfig = \<lparr>
     Server = \<lparr>Port = ''6379'', MaxConnections = 50000, ReadTimeout = 2 * minute,
       WriteTimeout = 30 * second, IdleTimeout = 10 * minute, RequirePass = []\<rparr>,
     Engine = \<lparr>MaxMemory = 1024 * 1024 * 1024, EvictionPolicy = ''lru'',
       EvictorCapacity = 10000, ShardCount = 16, DefaultTTL = 0\<rparr>,
     Persistence = \<lparr>
       JSON = \<lparr>JSON_Enabled = True, JSON_Path = ''pendem.snapshot.json'',
         JSON_Interval = hour, MaxSnapshots = 5\<rparr>,
       RDB = \<lparr>RDB_Enabled = True, RDB_Path = ''pendem.rdb'', RDB_Interval = hour\<rparr>,
       AOF = \<lparr>AOF_Enabled = True, FilePath = ''pendem.aof'', FlushInterval = 5 * minute,
         SyncOnWrite = False\<rparr>\<rparr>\<rparr>"

datatype config_error = BadMaxConnections | BadMaxMemory | BadShardCount int
  | BadRdbInterval | BadFlushInterval

unbundle bit_operations_syntax

subsection \<open>Validation\<close>

definition Validate :: "Config \<Rightarrow> config_error option" where
  "Validate c =
     (if MaxConnections (Server c) < 1 then Some BadMaxConnections
      else if MaxMemory (Engine c) < 1 then Some BadMaxMemory
      else if ShardCount (Engine c) \<le> 0
        \<or> ShardCount (Engine c) AND (ShardCount (Engine c) - 1) \<noteq> 0
        then Some (BadShardCount (ShardCount (Engine c)))
      else if RDB_Enabled (RDB (Persistence c)) \<and> RDB_Interval (RDB (Persistence c)) \<le> 0
        then Some BadRdbInterval
      else if AOF_Enabled (AOF (Persistence c)) \<and> FlushInterval (AOF (Persistence c)) \<le> 0
        then Some BadFlushInterval
      else None)"

text \<open>The bit trick of the shard count check recognises the powers of two.\<close>

lemma and_pred_even: "(2 * m) AND (2 * m - 1) = 2 * (m AND (m - 1))" for m :: int
proof -
  have "(2 * m - 1) div 2 = m - 1" by simp
  then show ?thesis by (simp add: and_rec [of "2 * m" "2 * m - 1"])
qed

lemma and_pred_odd: "(1 + 2 * m) AND (2 * m) = 2 * m" for m :: int
  by (simp add: and_rec [of "1 + 2 * m" "2 * m"])

lemma and_pred_power: "(2::int) ^ k AND (2 ^ k - 1) = 0"
  by (induction k) (simp_all add: and_pred_even)

lemma and_pred_zero_iff:
  assumes "0 < (n::int)"
  shows "n AND (n - 1) = 0 \<longleftrightarrow> (\<exists>k. n = 2 ^ k)"
proof
  show "n AND (n - 1) = 0" if "\<exists>k. n = 2 ^ k"
    using that and_pred_power by blast
  show "\<exists>k. n = 2 ^ k" if "n AND (n - 1) = 0"
    using assms that
  proof (induction "nat n" arbitrary: n rule: less_induct)
    case less
    show ?case
    proof (cases "even n")
      case True
      then obtain m where n: "n = 2 * m" by blast
      with less.prems have "0 < m" and "m AND (m - 1) = 0" by (simp_all add: and_pred_even)
      with less.hyps [of m] n obtain k where "m = 2 ^ k" by auto
      with n show ?thesis by (metis power_Suc)
    next
      case False
      then obtain m where n: "n = 1 + 2 * m" by (metis oddE add.commute)
      have "n AND (n - 1) = 2 * m" using and_pred_odd [of m] by (simp add: n)
      with less.prems n have "n = 2 ^ 0" by simp
      then show ?thesis by blast
    qed
  qed
qed

text \<open>The engine settings of the witnesses.\<close>

definition witness_cfg :: EngineConfig where
  "witness_cfg = Engine DefaultConfig"

end
