(* ===== verification/Cache.thy ===== *)
theory Cache
  imports Shard Config
begin

section \<open>The sharded cache\<close>

text \<open>
  Models \<^verbatim>\<open>internal/engine/cache.go\<close>.  The cache is its list of shards; a key belongs
  to the shard that the FNV-1a hash of its bytes selects with a bit mask.  The operations
  on one key are the shard's, on that shard; like the shard's they take the evictor's
  methods \<open>E\<close>.  \<open>cleanupLoop\<close> is its body, one pass over the shards.

  The lemmas are proved once over the \<open>eviction\<close> contract; the properties at the end are
  about the cache that \<open>NewCache\<close> builds, whose evictor is the LRU.
\<close>

record 'e cache =
  shards :: "'e shard list"
  numShards :: int

definition NewCache :: "EngineConfig \<Rightarrow> lru cache" where
  "NewCache cfg =
     (let n = (if ShardCount cfg \<le> 0 then ShardCount (Engine DefaultConfig) else ShardCount cfg)
      in \<lparr>shards = map (\<lambda>_. NewShard (EvictionPolicy cfg) (EvictorCapacity cfg) (MaxMemory cfg))
            [0..<nat n],
          numShards = n\<rparr>)"

text \<open>\<open>fnv.New32a()\<close>, \<open>Write\<close>, \<open>Sum32\<close> of the standard library.\<close>

definition fnv32a :: "string \<Rightarrow> 32 word" where
  "fnv32a s = foldl (\<lambda>h c. (h XOR of_nat (of_char c)) * 16777619) 2166136261 s"

definition getShard :: "string \<Rightarrow> 'e cache \<Rightarrow> nat" where
  "getShard key c = nat (uint (fnv32a key) AND (numShards c - 1))"

definition Cache_shard :: "string \<Rightarrow> 'e cache \<Rightarrow> 'e shard" where
  "Cache_shard key c = shards c ! getShard key c"

text \<open>What a method on the shard of \<open>key\<close> leaves behind.\<close>

definition Cache_put :: "string \<Rightarrow> 'e shard \<Rightarrow> 'e cache \<Rightarrow> 'e cache" where
  "Cache_put key s c = c\<lparr>shards := (shards c)[getShard key c := s]\<rparr>"

subsection \<open>Operations on one key\<close>

definition Cache_HasKey :: "'e evictor_ops \<Rightarrow> string \<Rightarrow> 'e cache \<Rightarrow> bool" where
  "Cache_HasKey E key c = Shard_HasKey E key (Cache_shard key c)"

definition Cache_Set :: "'e evictor_ops \<Rightarrow> int \<Rightarrow> string \<Rightarrow> string \<Rightarrow> int \<Rightarrow> 'e cache \<Rightarrow> 'e cache" where
  "Cache_Set E now key value ttl c =
     Cache_put key (Shard_Set E now key value ttl (Cache_shard key c)) c"

definition Cache_Get :: "'e evictor_ops \<Rightarrow> int \<Rightarrow> string \<Rightarrow> 'e cache \<Rightarrow> string option \<times> 'e cache" where
  "Cache_Get E now key c =
     (case Shard_Get E now key (Cache_shard key c) of (r, s) \<Rightarrow> (r, Cache_put key s c))"

definition Cache_Delete :: "'e evictor_ops \<Rightarrow> string \<Rightarrow> 'e cache \<Rightarrow> bool \<times> 'e cache" where
  "Cache_Delete E key c =
     (case Shard_Delete E key (Cache_shard key c) of (r, s) \<Rightarrow> (r, Cache_put key s c))"

definition Cache_TTL :: "'e evictor_ops \<Rightarrow> int \<Rightarrow> int \<Rightarrow> string \<Rightarrow> 'e cache \<Rightarrow> int \<times> 'e cache" where
  "Cache_TTL E t1 t2 key c =
     (case Shard_TTL E t1 t2 key (Cache_shard key c) of (r, s) \<Rightarrow> (r, Cache_put key s c))"

subsection \<open>Operations on all shards\<close>

definition Cache_MemoryUsage :: "'e evictor_ops \<Rightarrow> 'e cache \<Rightarrow> int" where
  "Cache_MemoryUsage E c = foldl (\<lambda>total s. total + Shard_MemoryUsage E s) 0 (shards c)"

definition Cache_Size :: "'e evictor_ops \<Rightarrow> 'e cache \<Rightarrow> int" where
  "Cache_Size E c = foldl (\<lambda>total s. total + Shard_Size E s) 0 (shards c)"

definition Cache_Policy :: "'e cache \<Rightarrow> string" where
  "Cache_Policy c = (if length (shards c) = 0 then ''unknown'' else Shard_Policy (shards c ! 0))"

definition Cache_MaxCapacity :: "'e evictor_ops \<Rightarrow> 'e cache \<Rightarrow> int" where
  "Cache_MaxCapacity E c =
     (if length (shards c) = 0 then 0 else Shard_MaxCapacity E (shards c ! 0))"

definition Cache_TotalCapacity :: "'e evictor_ops \<Rightarrow> 'e cache \<Rightarrow> int" where
  "Cache_TotalCapacity E c =
     (if length (shards c) = 0 then 0 else wrap64 (Shard_MaxCapacity E (shards c ! 0) * numShards c))"

definition Cache_GetShard :: "int \<Rightarrow> 'e cache \<Rightarrow> 'e shard outcome" where
  "Cache_GetShard i c =
     (if 0 \<le> i \<and> i < int (length (shards c)) then Ret (shards c ! nat i) else Panic)"

definition Cache_NumShards :: "'e cache \<Rightarrow> int" where
  "Cache_NumShards c = numShards c"

definition Cache_cleanup :: "'e evictor_ops \<Rightarrow> int \<Rightarrow> map_order \<Rightarrow> 'e cache \<Rightarrow> 'e cache" where
  "Cache_cleanup E now it c = c\<lparr>shards := map (Shard_CleanupExpired E now it) (shards c)\<rparr>"

subsection \<open>The other data types\<close>

definition Cache_GetHash :: "string \<Rightarrow> 'e cache \<Rightarrow> hash option" where
  "Cache_GetHash key c = Shard_GetHash key (Cache_shard key c)"

definition Cache_GetOrCreateHash :: "string \<Rightarrow> 'e cache \<Rightarrow> hash \<times> bool \<times> 'e cache" where
  "Cache_GetOrCreateHash key c =
     (case Shard_GetOrCreateHash key (Cache_shard key c) of (h, b, s) \<Rightarrow> (h, b, Cache_put key s c))"

definition Cache_put_hash :: "string \<Rightarrow> hash \<Rightarrow> 'e cache \<Rightarrow> 'e cache" where
  "Cache_put_hash key h c = Cache_put key (Shard_put_hash key h (Cache_shard key c)) c"

definition Cache_GetList :: "string \<Rightarrow> 'e cache \<Rightarrow> go_list option" where
  "Cache_GetList key c = Shard_GetList key (Cache_shard key c)"

definition Cache_GetOrCreateList :: "string \<Rightarrow> 'e cache \<Rightarrow> go_list \<times> bool \<times> 'e cache" where
  "Cache_GetOrCreateList key c =
     (case Shard_GetOrCreateList key (Cache_shard key c) of (l, b, s) \<Rightarrow> (l, b, Cache_put key s c))"

definition Cache_put_list :: "string \<Rightarrow> go_list \<Rightarrow> 'e cache \<Rightarrow> 'e cache" where
  "Cache_put_list key l c = Cache_put key (Shard_put_list key l (Cache_shard key c)) c"

definition Cache_GetSet :: "string \<Rightarrow> 'e cache \<Rightarrow> go_set option" where
  "Cache_GetSet key c = Shard_GetSet key (Cache_shard key c)"

definition Cache_GetOrCreateSet :: "string \<Rightarrow> 'e cache \<Rightarrow> go_set \<times> bool \<times> 'e cache" where
  "Cache_GetOrCreateSet key c =
     (case Shard_GetOrCreateSet key (Cache_shard key c) of (x, b, s) \<Rightarrow> (x, b, Cache_put key s c))"

definition Cache_put_set :: "string \<Rightarrow> go_set \<Rightarrow> 'e cache \<Rightarrow> 'e cache" where
  "Cache_put_set key x c = Cache_put key (Shard_put_set key x (Cache_shard key c)) c"

definition Cache_GetSortedSet :: "string \<Rightarrow> 'e cache \<Rightarrow> sorted_set option" where
  "Cache_GetSortedSet key c = Shard_GetSortedSet key (Cache_shard key c)"

definition Cache_GetOrCreateSortedSet :: "string \<Rightarrow> 'e cache \<Rightarrow> sorted_set \<times> bool \<times> 'e cache" where
  "Cache_GetOrCreateSortedSet key c =
     (case Shard_GetOrCreateSortedSet key (Cache_shard key c) of (x, b, s) \<Rightarrow> (x, b, Cache_put key s c))"

definition Cache_put_sorted_set :: "string \<Rightarrow> sorted_set \<Rightarrow> 'e cache \<Rightarrow> 'e cache" where
  "Cache_put_sorted_set key x c = Cache_put key (Shard_put_sorted_set key x (Cache_shard key c)) c"

subsection \<open>SCAN\<close>

text \<open>
  A cursor is \<open>shard * 10000 + offset\<close>.  Go's \<open>/\<close> and \<open>%\<close> truncate towards zero.  The
  loop over the shards from index \<open>i\<close> on; an index below zero panics at once.
\<close>

definition go_div :: "int \<Rightarrow> int \<Rightarrow> int" where
  "go_div a b = (if a < 0 then - ((- a) div b) else a div b)"

definition go_mod :: "int \<Rightarrow> int \<Rightarrow> int" where
  "go_mod a b = (if a < 0 then - ((- a) mod b) else a mod b)"

fun scan_shards ::
  "'e evictor_ops \<Rightarrow> int \<Rightarrow> map_order \<Rightarrow> string \<Rightarrow> int \<Rightarrow> int \<Rightarrow> int \<Rightarrow> string list \<Rightarrow> 'e shard list
   \<Rightarrow> (string list \<times> int) outcome" where
  "scan_shards E now it pat limit i offset keys [] = Ret (keys, 0)"
| "scan_shards E now it pat limit i offset keys (s # ss) =
     (case Shard_Scan E now it offset pat (limit - int (length keys)) s of
        Panic \<Rightarrow> Panic
      | Ret (shardKeys, shardOffset) \<Rightarrow>
          let keys' = keys @ shardKeys in
          if int (length keys') \<ge> limit then Ret (keys', i * 10000 + shardOffset)
          else scan_shards E now it pat limit (i + 1) 0 keys' ss)"

definition Cache_Scan ::
  "'e evictor_ops \<Rightarrow> int \<Rightarrow> map_order \<Rightarrow> int \<Rightarrow> string \<Rightarrow> int \<Rightarrow> 'e cache \<Rightarrow> (string list \<times> int) outcome" where
  "Cache_Scan E now it cursor pat limit c =
     (let shardIdx = go_div cursor 10000; offset = go_mod cursor 10000 in
      if shardIdx < 0 then (if length (shards c) = 0 then Ret ([], 0) else Panic)
      else scan_shards E now it pat limit shardIdx offset [] (drop (nat shardIdx) (shards c)))"

subsection \<open>Which shard a key goes to\<close>

definition cache_size_ok :: "'e cache \<Rightarrow> bool" where
  "cache_size_ok c \<longleftrightarrow> numShards c = int (length (shards c)) \<and> shards c \<noteq> []"

lemma getShard_less: "cache_size_ok c \<Longrightarrow> getShard key c < length (shards c)"
proof -
  assume ok: "cache_size_ok c"
  then have "0 \<le> numShards c - 1" by (cases "shards c") (auto simp: cache_size_ok_def)
  then have "uint (fnv32a key) AND (numShards c - 1) \<le> numShards c - 1"
    by (rule AND_upper2)
  moreover have "numShards c = int (length (shards c))" using ok by (simp add: cache_size_ok_def)
  ultimately show ?thesis
    unfolding getShard_def using \<open>0 \<le> numShards c - 1\<close> by linarith
qed

lemma getShard_power:
  assumes "numShards c = 2 ^ k"
  shows "int (getShard key c) = uint (fnv32a key) mod 2 ^ k"
proof -
  have "uint (fnv32a key) AND (numShards c - 1) = take_bit k (uint (fnv32a key))"
    by (simp add: assms take_bit_eq_mask mask_eq_exp_minus_1)
  then show ?thesis by (simp add: getShard_def take_bit_eq_mod)
qed

lemma Cache_put_frame [simp]:
  "length (shards (Cache_put key s c)) = length (shards c)"
  "numShards (Cache_put key s c) = numShards c"
  "getShard k (Cache_put key s c) = getShard k c"
  by (simp_all add: Cache_put_def getShard_def)

lemma cache_size_ok_put [simp]: "cache_size_ok (Cache_put key s c) = cache_size_ok c"
  by (simp add: cache_size_ok_def Cache_put_def)

lemma Cache_shard_put:
  "cache_size_ok c \<Longrightarrow>
     Cache_shard k (Cache_put key s c) = (if getShard k c = getShard key c then s else Cache_shard k c)"
  using getShard_less [of c key] by (simp add: Cache_shard_def Cache_put_def getShard_def nth_list_update)

lemma Cache_put_self [simp]: "Cache_put key (Cache_shard key c) c = c"
  by (simp add: Cache_put_def Cache_shard_def)

lemma Cache_shard_in: "cache_size_ok c \<Longrightarrow> Cache_shard key c \<in> set (shards c)"
  using getShard_less [of c key] by (simp add: Cache_shard_def)

lemma NewCache_size: "cache_size_ok (NewCache cfg)"
  by (auto simp: cache_size_ok_def NewCache_def Let_def DefaultConfig_def)

subsection \<open>The invariant of the cache\<close>

definition cache_ok :: "('e \<Rightarrow> bool) \<Rightarrow> 'e cache \<Rightarrow> bool" where
  "cache_ok I c \<longleftrightarrow> cache_size_ok c \<and> (\<forall>s \<in> set (shards c). shard_ok I s)"

lemma cache_okD: "cache_ok I c \<Longrightarrow> cache_size_ok c"
  by (simp add: cache_ok_def)

lemma cache_ok_shard: "cache_ok I c \<Longrightarrow> shard_ok I (Cache_shard key c)"
  using Cache_shard_in by (auto simp: cache_ok_def)

lemma cache_ok_put: "cache_ok I c \<Longrightarrow> shard_ok I s \<Longrightarrow> cache_ok I (Cache_put key s c)"
  using set_update_subset_insert [of "shards c" "getShard key c" s]
  by (auto simp: cache_ok_def) (auto simp: Cache_put_def)

lemma empty_shard_ok: "I e \<Longrightarrow> shard_ok I (empty_shard p e)"
  by (simp add: shard_ok_def empty_shard_def)

lemma NewShard_empty: "\<exists>p. NewShard pol cap mem = empty_shard p (NewLRUWithMemory cap mem)"
  by (simp add: NewShard_def Let_def) blast

lemma NewCache_ok: "cache_ok lru_ok (NewCache cfg)"
proof -
  have "shard_ok lru_ok (NewShard pol cap mem)" for pol cap mem
    using NewShard_empty [of pol cap mem] empty_shard_ok [of lru_ok, OF NewLRUWithMemory_ok(1)] by metis
  then show ?thesis
    using NewCache_size [of cfg] by (auto simp: cache_ok_def NewCache_def Let_def)
qed

subsection \<open>The other data types: the laws of a store\<close>

lemma Shard_put_frame [simp]:
  "evictor (Shard_put_hash k h s) = evictor s" "evictor (Shard_put_list k l s) = evictor s"
  "evictor (Shard_put_set k x s) = evictor s" "evictor (Shard_put_sorted_set k z s) = evictor s"
  by (simp_all add: Shard_put_hash_def Shard_put_list_def Shard_put_set_def Shard_put_sorted_set_def)

lemma Shard_get_put [simp]:
  "Shard_GetHash k' (Shard_put_hash k h s) = (if k' = k then Some h else Shard_GetHash k' s)"
  "Shard_GetHash k' (Shard_put_list k l s) = Shard_GetHash k' s"
  "Shard_GetHash k' (Shard_put_set k x s) = Shard_GetHash k' s"
  "Shard_GetHash k' (Shard_put_sorted_set k z s) = Shard_GetHash k' s"
  "Shard_GetHash k' (s\<lparr>evictor := e\<rparr>) = Shard_GetHash k' s"
  "Shard_GetList k' (Shard_put_hash k h s) = Shard_GetList k' s"
  "Shard_GetList k' (Shard_put_list k l s) = (if k' = k then Some l else Shard_GetList k' s)"
  "Shard_GetList k' (Shard_put_set k x s) = Shard_GetList k' s"
  "Shard_GetList k' (Shard_put_sorted_set k z s) = Shard_GetList k' s"
  "Shard_GetList k' (s\<lparr>evictor := e\<rparr>) = Shard_GetList k' s"
  "Shard_GetSet k' (Shard_put_hash k h s) = Shard_GetSet k' s"
  "Shard_GetSet k' (Shard_put_list k l s) = Shard_GetSet k' s"
  "Shard_GetSet k' (Shard_put_set k x s) = (if k' = k then Some x else Shard_GetSet k' s)"
  "Shard_GetSet k' (Shard_put_sorted_set k z s) = Shard_GetSet k' s"
  "Shard_GetSet k' (s\<lparr>evictor := e\<rparr>) = Shard_GetSet k' s"
  "Shard_GetSortedSet k' (Shard_put_hash k h s) = Shard_GetSortedSet k' s"
  "Shard_GetSortedSet k' (Shard_put_list k l s) = Shard_GetSortedSet k' s"
  "Shard_GetSortedSet k' (Shard_put_set k x s) = Shard_GetSortedSet k' s"
  "Shard_GetSortedSet k' (Shard_put_sorted_set k z s) = (if k' = k then Some z else Shard_GetSortedSet k' s)"
  "Shard_GetSortedSet k' (s\<lparr>evictor := e\<rparr>) = Shard_GetSortedSet k' s"
  by (simp_all add: Shard_put_hash_def Shard_put_list_def Shard_put_set_def Shard_put_sorted_set_def
      Shard_GetHash_def Shard_GetList_def Shard_GetSet_def Shard_GetSortedSet_def)

lemma Shard_GetOrCreate_keeps:
  "shard_ok I s \<Longrightarrow> shard_ok I (snd (snd (Shard_GetOrCreateHash k s)))"
  "shard_ok I s \<Longrightarrow> shard_ok I (snd (snd (Shard_GetOrCreateList k s)))"
  "shard_ok I s \<Longrightarrow> shard_ok I (snd (snd (Shard_GetOrCreateSet k s)))"
  "shard_ok I s \<Longrightarrow> shard_ok I (snd (snd (Shard_GetOrCreateSortedSet k s)))"
  by (simp_all add: Shard_GetOrCreate_eqs shard_ok_put NewHash_def NewSet_def NewSortedSet_def)

lemma Cache_get_put [simp]:
  assumes "cache_size_ok c"
  shows "Cache_GetHash k' (Cache_put_hash k h c) = (if k' = k then Some h else Cache_GetHash k' c)"
    and "Cache_GetList k' (Cache_put_list k l c) = (if k' = k then Some l else Cache_GetList k' c)"
    and "Cache_GetSet k' (Cache_put_set k x c) = (if k' = k then Some x else Cache_GetSet k' c)"
    and "Cache_GetSortedSet k' (Cache_put_sorted_set k z c)
      = (if k' = k then Some z else Cache_GetSortedSet k' c)"
  unfolding Cache_GetHash_def Cache_put_hash_def Cache_GetList_def Cache_put_list_def
    Cache_GetSet_def Cache_put_set_def Cache_GetSortedSet_def Cache_put_sorted_set_def
    Cache_shard_put [OF assms]
  by (simp_all add: Cache_shard_def)

lemma Cache_frame_evictor [simp]:
  assumes "cache_size_ok c"
  shows "Cache_GetHash k' (Cache_put k ((Cache_shard k c)\<lparr>evictor := e\<rparr>) c) = Cache_GetHash k' c"
    and "Cache_GetList k' (Cache_put k ((Cache_shard k c)\<lparr>evictor := e\<rparr>) c) = Cache_GetList k' c"
    and "Cache_GetSet k' (Cache_put k ((Cache_shard k c)\<lparr>evictor := e\<rparr>) c) = Cache_GetSet k' c"
    and "Cache_GetSortedSet k' (Cache_put k ((Cache_shard k c)\<lparr>evictor := e\<rparr>) c)
      = Cache_GetSortedSet k' c"
  unfolding Cache_GetHash_def Cache_GetList_def Cache_GetSet_def Cache_GetSortedSet_def
    Cache_shard_put [OF assms]
  by (simp_all add: Cache_shard_def)

lemma Cache_frame_containers [simp]:
  assumes "cache_size_ok c"
  shows "Cache_GetList k' (Cache_put_hash k h c) = Cache_GetList k' c"
    and "Cache_GetSet k' (Cache_put_hash k h c) = Cache_GetSet k' c"
    and "Cache_GetSortedSet k' (Cache_put_hash k h c) = Cache_GetSortedSet k' c"
    and "Cache_GetHash k' (Cache_put_list k l c) = Cache_GetHash k' c"
    and "Cache_GetSet k' (Cache_put_list k l c) = Cache_GetSet k' c"
    and "Cache_GetSortedSet k' (Cache_put_list k l c) = Cache_GetSortedSet k' c"
    and "Cache_GetHash k' (Cache_put_set k x c) = Cache_GetHash k' c"
    and "Cache_GetList k' (Cache_put_set k x c) = Cache_GetList k' c"
    and "Cache_GetSortedSet k' (Cache_put_set k x c) = Cache_GetSortedSet k' c"
    and "Cache_GetHash k' (Cache_put_sorted_set k z c) = Cache_GetHash k' c"
    and "Cache_GetList k' (Cache_put_sorted_set k z c) = Cache_GetList k' c"
    and "Cache_GetSet k' (Cache_put_sorted_set k z c) = Cache_GetSet k' c"
  unfolding Cache_GetHash_def Cache_put_hash_def Cache_GetList_def Cache_put_list_def
    Cache_GetSet_def Cache_put_set_def Cache_GetSortedSet_def Cache_put_sorted_set_def
    Cache_shard_put [OF assms]
  by (simp_all add: Cache_shard_def)

lemma Cache_put_containers_ok:
  "cache_ok I c \<Longrightarrow> map_ok h \<Longrightarrow> cache_ok I (Cache_put_hash k h c)"
  "cache_ok I c \<Longrightarrow> cache_ok I (Cache_put_list k l c)"
  "cache_ok I c \<Longrightarrow> map_ok x \<Longrightarrow> cache_ok I (Cache_put_set k x c)"
  "cache_ok I c \<Longrightarrow> map_ok z \<Longrightarrow> cache_ok I (Cache_put_sorted_set k z c)"
  by (simp_all add: Cache_put_hash_def Cache_put_list_def Cache_put_set_def Cache_put_sorted_set_def
      cache_ok_put shard_ok_put cache_ok_shard)

lemma Cache_get_ok:
  "cache_ok I c \<Longrightarrow> Cache_GetHash k c = Some h \<Longrightarrow> map_ok h"
  "cache_ok I c \<Longrightarrow> Cache_GetSet k c = Some x \<Longrightarrow> map_ok x"
  "cache_ok I c \<Longrightarrow> Cache_GetSortedSet k c = Some z \<Longrightarrow> map_ok z"
  using shard_ok_get [OF cache_ok_shard]
  by (fastforce simp: Cache_GetHash_def Cache_GetSet_def Cache_GetSortedSet_def)+

lemma Cache_GetOrCreate_eqs:
  "Cache_GetOrCreateHash k c = (or_empty (Cache_GetHash k c), Cache_GetHash k c = None,
     if Cache_GetHash k c = None then Cache_put_hash k NewHash c else c)"
  "Cache_GetOrCreateList k c = (or_empty (Cache_GetList k c), Cache_GetList k c = None,
     if Cache_GetList k c = None then Cache_put_list k NewList c else c)"
  "Cache_GetOrCreateSet k c = (or_empty (Cache_GetSet k c), Cache_GetSet k c = None,
     if Cache_GetSet k c = None then Cache_put_set k NewSet c else c)"
  "Cache_GetOrCreateSortedSet k c = (or_empty (Cache_GetSortedSet k c), Cache_GetSortedSet k c = None,
     if Cache_GetSortedSet k c = None then Cache_put_sorted_set k NewSortedSet c else c)"
  by (auto simp: Cache_GetOrCreateHash_def Cache_GetHash_def Cache_put_hash_def
      Cache_GetOrCreateList_def Cache_GetList_def Cache_put_list_def
      Cache_GetOrCreateSet_def Cache_GetSet_def Cache_put_set_def
      Cache_GetOrCreateSortedSet_def Cache_GetSortedSet_def Cache_put_sorted_set_def
      Shard_GetOrCreate_eqs)

subsection \<open>Strings: the laws of the cache over any evictor\<close>

definition cache_item :: "('e \<Rightarrow> string \<Rightarrow> item option) \<Rightarrow> 'e cache \<Rightarrow> string \<Rightarrow> item option" where
  "cache_item con c k = con (evictor (Cache_shard k c)) k"

text \<open>Every key is in the shard its hash selects.\<close>

definition placed :: "('e \<Rightarrow> string \<Rightarrow> item option) \<Rightarrow> 'e cache \<Rightarrow> bool" where
  "placed con c \<longleftrightarrow>
     (\<forall>i < length (shards c). \<forall>k. con (evictor (shards c ! i)) k \<noteq> None \<longrightarrow> getShard k c = i)"

lemma cache_item_put:
  "cache_size_ok c \<Longrightarrow> cache_item con (Cache_put key s c) k =
     (if getShard k c = getShard key c then con (evictor s) k else cache_item con c k)"
  by (simp add: cache_item_def Cache_shard_put)

lemma cache_item_containers [simp]:
  assumes "cache_size_ok c"
  shows "cache_item con (Cache_put_hash k h c) = cache_item con c"
    and "cache_item con (Cache_put_list k l c) = cache_item con c"
    and "cache_item con (Cache_put_set k x c) = cache_item con c"
    and "cache_item con (Cache_put_sorted_set k z c) = cache_item con c"
  unfolding Cache_put_hash_def Cache_put_list_def Cache_put_set_def Cache_put_sorted_set_def
    fun_eq_iff cache_item_put [OF assms]
  by (simp_all add: cache_item_def Cache_shard_def)

lemma Shard_Get_evictor: "\<exists>e. snd (Shard_Get E now k s) = s\<lparr>evictor := e\<rparr>"
  by (auto simp: Shard_Get_def split: prod.split option.split)

lemma Shard_TTL_evictor: "\<exists>e. snd (Shard_TTL E t1 t2 k s) = s\<lparr>evictor := e\<rparr>"
  by (auto simp: Shard_TTL_def Let_def split: prod.split option.split)

lemma Shard_Delete_evictor: "\<exists>e. snd (Shard_Delete E k s) = s\<lparr>evictor := e\<rparr>"
  by (auto simp: Shard_Delete_def split: prod.split)

context eviction
begin

lemma Cache_Set_ok: "cache_ok inv c \<Longrightarrow> cache_ok inv (Cache_Set E now k v ttl c)"
  unfolding Cache_Set_def
  by (rule cache_ok_put) (simp_all add: Shard_Set_def cache_ok_shard shard_ok_evictor inv_Add shard_ok_inv)

lemma Cache_Set_hit:
  assumes "cache_ok inv c"
  shows "cache_item contents (Cache_Set E now k v ttl c) k = Some (NewItem now v ttl)"
  using Set_hit [OF shard_ok_inv [OF cache_ok_shard [OF assms]]]
  by (simp add: Cache_Set_def cache_item_put [OF cache_okD [OF assms]])

lemma Cache_Set_other:
  assumes "cache_ok inv c" and "k' \<noteq> k"
  shows "cache_item contents (Cache_Set E now k v ttl c) k' = None
    \<or> cache_item contents (Cache_Set E now k v ttl c) k' = cache_item contents c k'"
  using Set_other [OF shard_ok_inv [OF cache_ok_shard [OF assms(1)]] assms(2)]
  unfolding Cache_Set_def cache_item_put [OF cache_okD [OF assms(1)]]
  by (auto simp: cache_item_def Cache_shard_def)

lemma Cache_Set_elsewhere:
  "cache_ok inv c \<Longrightarrow> getShard k' c \<noteq> getShard k c \<Longrightarrow>
     cache_item contents (Cache_Set E now k v ttl c) k' = cache_item contents c k'"
  by (simp add: Cache_Set_def cache_item_put cache_okD)

lemma Cache_Get_eq:
  assumes "cache_ok inv c"
  shows "fst (Cache_Get E now k c) = live now (cache_item contents c k)"
    and "cache_ok inv (snd (Cache_Get E now k c))"
    and "cache_item contents (snd (Cache_Get E now k c))
      = (cache_item contents c)(k := drop_expired now (cache_item contents c k))"
proof -
  let ?s = "Cache_shard k c"
  note ok = cache_ok_shard [OF assms, of k]
  note g = Get_eq [OF shard_ok_inv [OF ok], of now k]
  obtain e where e: "snd (Shard_Get E now k ?s) = ?s\<lparr>evictor := e\<rparr>" using Shard_Get_evictor by metis
  show "fst (Cache_Get E now k c) = live now (cache_item contents c k)"
    using g(1) by (simp add: Cache_Get_def cache_item_def case_prod_unfold)
  show "cache_ok inv (snd (Cache_Get E now k c))"
    using g(2) e ok by (simp add: Cache_Get_def case_prod_unfold cache_ok_put [OF assms] shard_ok_evictor)
  show "cache_item contents (snd (Cache_Get E now k c))
      = (cache_item contents c)(k := drop_expired now (cache_item contents c k))"
    unfolding Cache_Get_def case_prod_unfold fun_eq_iff snd_conv cache_item_put [OF cache_okD [OF assms]]
    using g(3) by (simp add: cache_item_def Cache_shard_def)
qed

lemma Cache_Delete_eq:
  assumes "cache_ok inv c"
  shows "fst (Cache_Delete E k c) \<longleftrightarrow> cache_item contents c k \<noteq> None"
    and "cache_ok inv (snd (Cache_Delete E k c))"
    and "cache_item contents (snd (Cache_Delete E k c)) = (cache_item contents c)(k := None)"
proof -
  let ?s = "Cache_shard k c"
  note ok = cache_ok_shard [OF assms, of k]
  note g = Delete_eq [OF shard_ok_inv [OF ok], of k]
  obtain e where e: "snd (Shard_Delete E k ?s) = ?s\<lparr>evictor := e\<rparr>" using Shard_Delete_evictor by metis
  show "fst (Cache_Delete E k c) \<longleftrightarrow> cache_item contents c k \<noteq> None"
    using g(1) by (simp add: Cache_Delete_def cache_item_def case_prod_unfold)
  show "cache_ok inv (snd (Cache_Delete E k c))"
    using g(2) e ok by (simp add: Cache_Delete_def case_prod_unfold cache_ok_put [OF assms] shard_ok_evictor)
  show "cache_item contents (snd (Cache_Delete E k c)) = (cache_item contents c)(k := None)"
    unfolding Cache_Delete_def case_prod_unfold fun_eq_iff snd_conv cache_item_put [OF cache_okD [OF assms]]
    using g(3) by (simp add: cache_item_def Cache_shard_def)
qed

lemma Cache_HasKey_eq:
  "cache_ok inv c \<Longrightarrow> Cache_HasKey E k c \<longleftrightarrow> cache_item contents c k \<noteq> None"
  by (simp add: Cache_HasKey_def Shard_HasKey_def cache_item_def Has_contents shard_ok_inv cache_ok_shard)

lemma Cache_TTL_eq:
  assumes "cache_ok inv c"
  shows "fst (Cache_TTL E t1 t2 k c) =
      (case drop_expired t1 (cache_item contents c k) of
         None \<Rightarrow> -2
       | Some i \<Rightarrow> if Expiration i = 0 then -1 else Item_TTL t2 i div 1000000000)"
    and "cache_ok inv (snd (Cache_TTL E t1 t2 k c))"
    and "cache_item contents (snd (Cache_TTL E t1 t2 k c))
      = (cache_item contents c)(k := drop_expired t1 (cache_item contents c k))"
proof -
  let ?s = "Cache_shard k c"
  note ok = cache_ok_shard [OF assms, of k]
  note g = TTL_eq [OF shard_ok_inv [OF ok], of t1 t2 k]
  obtain e where e: "snd (Shard_TTL E t1 t2 k ?s) = ?s\<lparr>evictor := e\<rparr>" using Shard_TTL_evictor by metis
  show "fst (Cache_TTL E t1 t2 k c) =
      (case drop_expired t1 (cache_item contents c k) of
         None \<Rightarrow> -2
       | Some i \<Rightarrow> if Expiration i = 0 then -1 else Item_TTL t2 i div 1000000000)"
    using g(1) by (simp add: Cache_TTL_def cache_item_def case_prod_unfold)
  show "cache_ok inv (snd (Cache_TTL E t1 t2 k c))"
    using g(2) e ok by (simp add: Cache_TTL_def case_prod_unfold cache_ok_put [OF assms] shard_ok_evictor)
  show "cache_item contents (snd (Cache_TTL E t1 t2 k c))
      = (cache_item contents c)(k := drop_expired t1 (cache_item contents c k))"
    unfolding Cache_TTL_def case_prod_unfold fun_eq_iff snd_conv cache_item_put [OF cache_okD [OF assms]]
    using g(3) by (simp add: cache_item_def Cache_shard_def)
qed

lemma Cache_cleanup_eq:
  assumes "cache_ok inv c" and "order_ok it"
  shows "cache_ok inv (Cache_cleanup E now it c)"
    and "cache_item contents (Cache_cleanup E now it c) k = drop_expired now (cache_item contents c k)"
proof -
  have "shard_ok inv (Shard_CleanupExpired E now it s)" if "shard_ok inv s" for s
    using shard_ok_evictor [OF that CleanupExpired_eq(1) [OF shard_ok_inv [OF that] assms(2), of now]]
    by (simp add: Shard_CleanupExpired_def)
  with assms(1) show "cache_ok inv (Cache_cleanup E now it c)"
    by (auto simp: cache_ok_def cache_size_ok_def Cache_cleanup_def)
  have "Cache_shard k (Cache_cleanup E now it c) = Shard_CleanupExpired E now it (Cache_shard k c)"
    using getShard_less [OF cache_okD [OF assms(1)], of k]
    by (simp add: Cache_shard_def Cache_cleanup_def getShard_def)
  then show "cache_item contents (Cache_cleanup E now it c) k = drop_expired now (cache_item contents c k)"
    using CleanupExpired_eq(2) [OF shard_ok_inv [OF cache_ok_shard [OF assms(1)]] assms(2)]
    by (simp add: cache_item_def)
qed

end

subsection \<open>Runs of cache operations\<close>

datatype cache_op =
    OSet int string string int
  | OGet int string
  | ODelete string
  | OTTL int int string
  | OCleanup int map_order

fun cache_step :: "'e evictor_ops \<Rightarrow> cache_op \<Rightarrow> 'e cache \<Rightarrow> 'e cache" where
  "cache_step E (OSet now k v ttl) c = Cache_Set E now k v ttl c"
| "cache_step E (OGet now k) c = snd (Cache_Get E now k c)"
| "cache_step E (ODelete k) c = snd (Cache_Delete E k c)"
| "cache_step E (OTTL t1 t2 k) c = snd (Cache_TTL E t1 t2 k c)"
| "cache_step E (OCleanup now it) c = Cache_cleanup E now it c"

fun op_ok :: "cache_op \<Rightarrow> bool" where
  "op_ok (OCleanup now it) = order_ok it"
| "op_ok _ = True"

text \<open>The specification: the item that the latest \<open>Set\<close> wrote, unless deleted since.\<close>

fun last_written :: "cache_op \<Rightarrow> (string \<Rightarrow> item option) \<Rightarrow> string \<Rightarrow> item option" where
  "last_written (OSet now k v ttl) m = m(k \<mapsto> NewItem now v ttl)"
| "last_written (ODelete k) m = m(k := None)"
| "last_written _ m = m"

abbreviation lru_item :: "lru cache \<Rightarrow> string \<Rightarrow> item option" where
  "lru_item \<equiv> cache_item (\<lambda>l. map_of (lru_abs l))"

lemma drop_expired_cases: "drop_expired t io = None \<or> drop_expired t io = io"
  by (auto simp: drop_expired_def split: option.split)

context eviction
begin

lemma cache_step_ok: "cache_ok inv c \<Longrightarrow> op_ok p \<Longrightarrow> cache_ok inv (cache_step E p c)"
  by (cases p) (simp_all add: Cache_Set_ok Cache_Get_eq(2) Cache_Delete_eq(2)
      Cache_TTL_eq(2) Cache_cleanup_eq(1))

lemma cache_step_written:
  assumes "cache_ok inv c" and "op_ok p"
    and "\<And>k. cache_item contents c k = None \<or> cache_item contents c k = m k"
  shows "cache_item contents (cache_step E p c) k = None
    \<or> cache_item contents (cache_step E p c) k = last_written p m k"
proof (cases p)
  case (OSet now k' v ttl)
  with assms(3) Cache_Set_hit [OF assms(1)] Cache_Set_other [OF assms(1), of k k']
  show ?thesis by (cases "k = k'") (auto, metis)
qed (use assms drop_expired_cases in \<open>auto simp: Cache_Get_eq(3) Cache_Delete_eq(3)
  Cache_TTL_eq(3) Cache_cleanup_eq(2)\<close>, (metis drop_expired_cases)+)

lemma cache_run_ok:
  "list_all op_ok ops \<Longrightarrow> cache_ok inv c \<Longrightarrow>
   (\<And>k. cache_item contents c k = None \<or> cache_item contents c k = m k) \<Longrightarrow>
     cache_ok inv (fold (cache_step E) ops c) \<and>
     (cache_item contents (fold (cache_step E) ops c) k = None \<or>
      cache_item contents (fold (cache_step E) ops c) k = fold last_written ops m k)"
proof (induction ops arbitrary: c m)
  case (Cons p ops)
  from Cons.prems have ok: "op_ok p" "list_all op_ok ops" by simp_all
  show ?case
    using Cons.IH [OF ok(2) cache_step_ok [OF Cons.prems(2) ok(1)]
        cache_step_written [OF Cons.prems(2) ok(1) Cons.prems(3)]]
    by simp
qed simp

end

lemma NewCache_shards_empty: "s \<in> set (shards (NewCache cfg)) \<Longrightarrow> lru_abs (evictor s) = []"
  using NewShard_empty [of "EvictionPolicy cfg" "EvictorCapacity cfg" "MaxMemory cfg"]
  by (auto simp: NewCache_def Let_def empty_shard_def NewLRUWithMemory_ok(2) simp del: lru_abs_Nil)

lemma NewCache_item: "lru_item (NewCache cfg) k = None"
  using NewCache_shards_empty [OF Cache_shard_in [OF NewCache_size]]
  by (simp add: cache_item_def del: lru_abs_Nil)

text \<open>C10: The cache is coherent: after any sequence of Set, Get, Delete, TTL and clean-up passes
  on a new cache, Get returns nothing (the key was never set, was deleted, evicted or has
  expired) or the value of the latest Set of that key, which was not deleted since and has not
  expired; never an older value, another key's value or an expired one.\<close>

theorem cache_coherent:
  assumes "list_all op_ok ops"
  shows "fst (Cache_Get lru_evictor now k (fold (cache_step lru_evictor) ops (NewCache cfg)))
    \<in> {None, live now (fold last_written ops (\<lambda>_. None) k)}"
proof -
  let ?c = "fold (cache_step lru_evictor) ops (NewCache cfg)"
  have "cache_ok lru_ok ?c \<and> (lru_item ?c k = None \<or> lru_item ?c k = fold last_written ops (\<lambda>_. None) k)"
    using NewCache_ok NewCache_item by (intro lru.cache_run_ok [OF assms]) auto
  then show ?thesis using lru.Cache_Get_eq(1) [of ?c now k] by auto
qed

lemma cache_coherent_witness:
  "fst (Cache_Get lru_evictor 5 ''a''
     (fold (cache_step lru_evictor) [OSet 1 ''a'' ''x'' 0, OCleanup 2 rev, OSet 3 ''a'' ''y'' 0] (NewCache witness_cfg)))
   \<in> {None, Some ''y''}"
  using cache_coherent [of "[OSet 1 ''a'' ''x'' 0, OCleanup 2 rev, OSet 3 ''a'' ''y'' 0]" 5 "''a''" witness_cfg]
  by (simp add: order_ok_rev)

text \<open>A value that was just set is read back: at once when it has no time to live, and up to
  and including the instant of its expiry otherwise; after that instant Get finds nothing and
  has removed the item.\<close>

theorem set_then_get:
  assumes "cache_ok lru_ok c" and "in_int64 (now + ttl)" and "now + ttl \<noteq> 0"
  shows "fst (Cache_Get lru_evictor t k (Cache_Set lru_evictor now k v ttl c))
      = (if 0 < ttl \<and> now + ttl < t then None else Some v)
    \<and> (0 < ttl \<and> now + ttl < t \<longrightarrow>
        \<not> Cache_HasKey lru_evictor k (snd (Cache_Get lru_evictor t k (Cache_Set lru_evictor now k v ttl c))))"
proof -
  let ?c = "Cache_Set lru_evictor now k v ttl c"
  have ok: "cache_ok lru_ok ?c" by (rule lru.Cache_Set_ok [OF assms(1)])
  show ?thesis
    using lru.Cache_Get_eq [OF ok, of t k] lru.Cache_HasKey_eq [of "snd (Cache_Get lru_evictor t k ?c)" k]
      lru.Cache_Set_hit [OF assms(1), of now k v ttl] IsExpired_NewItem [of ttl now t v] assms(2,3)
    by (cases "0 < ttl") (auto simp: live_def drop_expired_def)
qed

lemma set_then_get_witness:
  "fst (Cache_Get lru_evictor 16 ''a'' (Cache_Set lru_evictor 5 ''a'' ''x'' 10 (NewCache witness_cfg))) = None
   \<and> fst (Cache_Get lru_evictor 15 ''a'' (Cache_Set lru_evictor 5 ''a'' ''x'' 10 (NewCache witness_cfg))) = Some ''x''"
  using set_then_get [OF NewCache_ok, of 5 10 16 "''a''" "''x''" witness_cfg]
    set_then_get [OF NewCache_ok, of 5 10 15 "''a''" "''x''" witness_cfg]
  by (simp add: in_int64_def)

text \<open>With a configuration that Validate accepts, the mask picks the shard
  \<open>fnv32a key mod numShards\<close>, so every shard can be hit.\<close>

theorem valid_config_shards:
  assumes "Validate cfg = None"
  shows "int (getShard key (NewCache (Engine cfg))) = uint (fnv32a key) mod numShards (NewCache (Engine cfg))
    \<and> (\<exists>k. numShards (NewCache (Engine cfg)) = 2 ^ k)
    \<and> numShards (NewCache (Engine cfg)) = ShardCount (Engine cfg)"
proof -
  have pos: "0 < ShardCount (Engine cfg)" and "ShardCount (Engine cfg) AND (ShardCount (Engine cfg) - 1) = 0"
    using assms by (auto simp: Validate_def split: if_splits)
  then obtain k where k: "ShardCount (Engine cfg) = 2 ^ k" using and_pred_zero_iff by blast
  have n: "numShards (NewCache (Engine cfg)) = ShardCount (Engine cfg)"
    using pos by (simp add: NewCache_def Let_def)
  show ?thesis using getShard_power [of "NewCache (Engine cfg)" k key] n k by simp
qed

lemma valid_config_shards_witness:
  "int (getShard ''key'' (NewCache (Engine DefaultConfig))) = uint (fnv32a ''key'') mod 16"
proof -
  have "Validate DefaultConfig = None" by code_simp
  from valid_config_shards [OF this, of "''key''"] show ?thesis by (simp add: DefaultConfig_def)
qed

end
