(* ===== verification/CacheScan.thy ===== *)
theory CacheScan
  imports Cache
begin

section \<open>Scanning the cache\<close>

text \<open>
  About the cursors of \<open>Scan\<close> (\<^verbatim>\<open>internal/engine/cache.go\<close>, \<^verbatim>\<open>shard.go\<close>): which
  keys one call returns, that a client that follows the cursors from 0 back to 0 with the
  pattern \<open>*\<close> sees every live key exactly once while the cache is unchanged, and the cursors
  on which the server panics.
\<close>

subsection \<open>Keys are where their hash says\<close>

lemma placedD:
  "placed con c \<Longrightarrow> i < length (shards c) \<Longrightarrow> con (evictor (shards c ! i)) k \<noteq> None \<Longrightarrow> getShard k c = i"
  by (simp add: placed_def)

lemma placed_put:
  assumes "placed con c" and "cache_size_ok c"
    and "\<And>k. con (evictor s) k \<noteq> None \<Longrightarrow> k = key \<or> con (evictor (Cache_shard key c)) k \<noteq> None"
  shows "placed con (Cache_put key s c)"
  unfolding placed_def
proof (intro allI impI)
  fix i k
  assume i: "i < length (shards (Cache_put key s c))"
    and some: "con (evictor (shards (Cache_put key s c) ! i)) k \<noteq> None"
  show "getShard k (Cache_put key s c) = i"
  proof (cases "i = getShard key c")
    case True
    with some getShard_less [OF assms(2), of key]
    have "con (evictor s) k \<noteq> None" by (simp add: Cache_put_def)
    with assms(3) placedD [OF assms(1) getShard_less [OF assms(2), of key], of k] True
    show ?thesis by (auto simp: Cache_shard_def)
  next
    case False
    with i some have "i < length (shards c)" "con (evictor (shards c ! i)) k \<noteq> None"
      by (simp_all add: Cache_put_def)
    with placedD [OF assms(1)] show ?thesis by simp
  qed
qed

lemma NewCache_placed: "placed (\<lambda>l. map_of (lru_abs l)) (NewCache cfg)"
proof -
  have "lru_abs (evictor (shards (NewCache cfg) ! i)) = []" if "i < length (shards (NewCache cfg))" for i
    using that NewCache_shards_empty nth_mem by blast
  then show ?thesis unfolding placed_def by (metis map_of.simps(1))
qed

context eviction
begin

lemma placed_step:
  assumes "placed contents c" and ok: "cache_ok inv c" and "op_ok p"
  shows "placed contents (cache_step E p c)"
proof -
  note inv' = shard_ok_inv [OF cache_ok_shard [OF ok]]
  note put = placed_put [OF assms(1) cache_okD [OF ok]]
  show ?thesis
  proof (cases p)
    case (OSet now k v ttl)
    have "placed contents (Cache_Set E now k v ttl c)"
      unfolding Cache_Set_def by (rule put) (metis Set_other [OF inv'])
    with OSet show ?thesis by simp
  next
    case (OGet now k)
    then show ?thesis
      using Get_eq(3) [OF inv'] by (auto simp: Cache_Get_def case_prod_unfold intro!: put split: if_splits)
  next
    case (ODelete k)
    then show ?thesis
      using Delete_eq(3) [OF inv'] by (auto simp: Cache_Delete_def case_prod_unfold intro!: put)
  next
    case (OTTL t1 t2 k)
    then show ?thesis
      using TTL_eq(3) [OF inv'] by (auto simp: Cache_TTL_def case_prod_unfold intro!: put split: if_splits)
  next
    case (OCleanup now it)
    have "contents (evictor (shards c ! i)) k \<noteq> None"
      if "i < length (shards c)" "contents (evictor (Shard_CleanupExpired E now it (shards c ! i))) k \<noteq> None" for i k
    proof -
      have "inv (evictor (shards c ! i))" using ok that(1) by (auto simp: cache_ok_def intro: shard_ok_inv)
      then show ?thesis
        using that(2) CleanupExpired_eq(2) [of "shards c ! i" it now k] assms(3) OCleanup
        by (auto simp: drop_expired_def split: option.splits)
    qed
    with assms(1) OCleanup show ?thesis
      by (auto simp: placed_def Cache_cleanup_def getShard_def)
  qed
qed

lemma placed_run:
  "list_all op_ok ops \<Longrightarrow> cache_ok inv c \<Longrightarrow> placed contents c \<Longrightarrow>
     cache_ok inv (fold (cache_step E) ops c) \<and> placed contents (fold (cache_step E) ops c)"
  by (induction ops arbitrary: c) (simp_all add: cache_step_ok placed_step)

end

subsection \<open>One call\<close>

lemma scan_loop_star: "scan_loop ''*'' limit found ks = found @ take (nat (limit - int (length found))) ks"
proof (induction ks arbitrary: found)
  case (Cons k ks)
  show ?case
  proof (cases "int (length found) < limit")
    case True
    then have "nat (limit - int (length found)) = Suc (nat (limit - int (length (found @ [k]))))" by simp
    with True Cons [of "found @ [k]"] show ?thesis by simp
  qed simp
qed simp

lemma Shard_Scan_star:
  "0 \<le> offset \<Longrightarrow> Shard_Scan E now it offset ''*'' limit s =
     (let ks = take (nat limit) (drop (nat offset) (ev_GetKeys E now it (evictor s)))
      in Ret (ks, offset + int (length ks)))"
  by (simp add: Shard_Scan_def scan_loop_star Let_def)

text \<open>The keys a cursor still has before it, and the cursors of a cache.\<close>

definition keys_of :: "'e evictor_ops \<Rightarrow> int \<Rightarrow> map_order \<Rightarrow> 'e cache \<Rightarrow> string list list" where
  "keys_of E now it c = map (\<lambda>s. ev_GetKeys E now it (evictor s)) (shards c)"

definition rest_at :: "string list list \<Rightarrow> nat \<Rightarrow> nat \<Rightarrow> string list" where
  "rest_at kss i off = (case drop i kss of [] \<Rightarrow> [] | ks # kss' \<Rightarrow> drop off ks @ concat kss')"

definition remaining :: "string list list \<Rightarrow> int \<Rightarrow> string list" where
  "remaining kss cursor = rest_at kss (nat (cursor div 10000)) (nat (cursor mod 10000))"

lemma rest_at_0: "rest_at kss i 0 = concat (drop i kss)"
  by (simp add: rest_at_def split: list.split)

lemma remaining_at:
  assumes "drop i kss = ks # kss'" and "length ks \<le> 10000" and "off \<le> length ks"
  shows "remaining kss (int i * 10000 + int off) = drop off ks @ concat kss'"
proof (cases "off = 10000")
  case False
  with assms have "(int i * 10000 + int off) div 10000 = int i" "(int i * 10000 + int off) mod 10000 = int off"
    by simp_all
  with assms show ?thesis by (simp add: remaining_def rest_at_def)
next
  case True
  have "drop (Suc i) kss = kss'" using assms(1) by (metis drop_Suc tl_drop list.sel(3))
  moreover from True have "(int i * 10000 + int off) div 10000 = int (Suc i)"
    and "(int i * 10000 + int off) mod 10000 = 0" by simp_all
  ultimately show ?thesis
    using True assms by (auto simp: remaining_def rest_at_def nat_add_distrib split: list.split)
qed

text \<open>
  The loop over the shards, started in shard \<open>i\<close> at the offset \<open>off\<close> with some keys already
  collected: it returns the next keys, and the cursor 0 only if it reached the end.
\<close>

lemma scan_shards_star:
  assumes "map (\<lambda>s. ev_GetKeys E now it (evictor s)) ss = drop i kss"
    and "\<forall>ks \<in> set kss. length ks \<le> 10000"
    and "length keys < limit"
  shows "\<exists>next. scan_shards E now it ''*'' (int limit) (int i) (int off) keys ss
      = Ret (keys @ take (limit - length keys) (rest_at kss i off), next)
    \<and> (if length keys + length (rest_at kss i off) < limit then next = 0
       else 0 < next \<and> remaining kss next
         = drop (limit - length keys) (rest_at kss i off))"
  using assms(1,3)
proof (induction ss arbitrary: i off keys)
  case (Cons s ss)
  let ?ks = "ev_GetKeys E now it (evictor s)"
  let ?n = "limit - length keys"
  let ?sk = "take ?n (drop off ?ks)"
  have dr: "drop i kss = ?ks # drop (Suc i) kss" and tl: "map (\<lambda>s. ev_GetKeys E now it (evictor s)) ss = drop (Suc i) kss"
    using Cons.prems(1) by (auto simp: drop_Suc tl_drop [symmetric]) (metis list.sel(3) tl_drop)+
  have le: "length ?ks \<le> 10000" using assms(2) dr by (metis in_set_dropD list.set_intros(1))
  have n: "nat (int limit - int (length keys)) = ?n" by simp
  have all: "rest_at kss i off = drop off ?ks @ concat (drop (Suc i) kss)"
    by (simp add: rest_at_def dr)
  show ?case
  proof (cases "length (keys @ ?sk) \<ge> limit")
    case True
    then have len: "length ?sk = ?n" and le2: "?n \<le> length (drop off ?ks)" by auto
    have rem: "remaining kss (int i * 10000 + int (off + ?n)) = drop (off + ?n) ?ks @ concat (drop (Suc i) kss)"
      using le2 Cons.prems(2) by (intro remaining_at [OF dr le]) simp
    have "scan_shards E now it ''*'' (int limit) (int i) (int off) keys (s # ss)
        = Ret (keys @ ?sk, int i * 10000 + int (off + ?n))"
      using len Cons.prems(2) by (simp add: Shard_Scan_star n Let_def)
    then show ?thesis
      using Cons.prems(2) le2 rem by (auto simp: all add.commute)
  next
    case False
    then have short: "length (drop off ?ks) < ?n" and sk: "?sk = drop off ?ks" by auto
    let ?keys = "keys @ drop off ?ks"
    from False have "length ?keys < limit" using sk by simp
    from Cons.IH [OF tl, of ?keys 0] this obtain nxt where
      "scan_shards E now it ''*'' (int limit) (int (Suc i)) (int 0) ?keys ss
         = Ret (?keys @ take (limit - length ?keys) (rest_at kss (Suc i) 0), nxt)"
      and "if length ?keys + length (rest_at kss (Suc i) 0) < limit then nxt = 0
         else 0 < nxt \<and> remaining kss nxt
           = drop (limit - length ?keys) (rest_at kss (Suc i) 0)" by auto
    moreover have "scan_shards E now it ''*'' (int limit) (int i) (int off) keys (s # ss)
        = scan_shards E now it ''*'' (int limit) (int (Suc i)) (int 0) ?keys ss"
      using False by (simp add: Shard_Scan_star n Let_def sk add.commute)
    ultimately show ?thesis
      using short by (intro exI [of _ nxt]) (auto simp: all rest_at_0 split: if_splits)
  qed
qed (simp add: rest_at_def)

lemma keys_of_drop:
  "drop i (keys_of E now it c) = map (\<lambda>s. ev_GetKeys E now it (evictor s)) (drop i (shards c))"
  by (simp add: keys_of_def drop_map)

lemma Cache_Scan_star:
  assumes "\<forall>ks \<in> set (keys_of E now it c). length ks \<le> 10000" and "0 < limit" and "0 \<le> cursor"
  shows "\<exists>next. Cache_Scan E now it cursor ''*'' (int limit) c
      = Ret (take limit (remaining (keys_of E now it c) cursor), next)
    \<and> (if length (remaining (keys_of E now it c) cursor) < limit then next = 0
       else 0 < next \<and> remaining (keys_of E now it c) next
         = drop limit (remaining (keys_of E now it c) cursor))"
proof -
  have "int (nat (cursor div 10000)) = cursor div 10000" and "int (nat (cursor mod 10000)) = cursor mod 10000"
    using assms(3) by simp_all
  then have "Cache_Scan E now it cursor ''*'' (int limit) c
      = scan_shards E now it ''*'' (int limit) (int (nat (cursor div 10000)))
          (int (nat (cursor mod 10000))) [] (drop (nat (cursor div 10000)) (shards c))"
    using assms(3) by (simp add: Cache_Scan_def go_div_def go_mod_def pos_imp_zdiv_neg_iff Let_def)
  then show ?thesis
    using scan_shards_star [where off = "nat (cursor mod 10000)" and keys = "[]" and limit = limit,
        OF keys_of_drop [symmetric, of E now it "nat (cursor div 10000)" c] assms(1)] assms(2)
    unfolding remaining_def by (simp only: append_Nil list.size(3) diff_zero add_0)
qed

subsection \<open>Following the cursors\<close>

text \<open>
  What a client does: call with the cursor it got, until it gets 0.  \<open>None\<close> when a call
  panics or the fuel is used up.
\<close>

fun scan_all :: "nat \<Rightarrow> 'e evictor_ops \<Rightarrow> int \<Rightarrow> map_order \<Rightarrow> string \<Rightarrow> int \<Rightarrow> 'e cache \<Rightarrow> int
    \<Rightarrow> string list option" where
  "scan_all 0 E now it pat limit c cursor = None"
| "scan_all (Suc n) E now it pat limit c cursor =
     (case Cache_Scan E now it cursor pat limit c of
        Panic \<Rightarrow> None
      | Ret (keys, next) \<Rightarrow>
          if next = 0 then Some keys
          else map_option (\<lambda>ks. keys @ ks) (scan_all n E now it pat limit c next))"

lemma scan_all_star:
  assumes "\<forall>ks \<in> set (keys_of E now it c). length ks \<le> 10000" and "0 < limit"
  shows "length (remaining (keys_of E now it c) cursor) < fuel \<Longrightarrow> 0 \<le> cursor \<Longrightarrow>
    scan_all fuel E now it ''*'' (int limit) c cursor = Some (remaining (keys_of E now it c) cursor)"
proof (induction fuel arbitrary: cursor)
  case (Suc n)
  let ?R = "remaining (keys_of E now it c)"
  obtain nxt where *: "Cache_Scan E now it cursor ''*'' (int limit) c = Ret (take limit (?R cursor), nxt)"
    "if length (?R cursor) < limit then nxt = 0 else 0 < nxt \<and> ?R nxt = drop limit (?R cursor)"
    using Cache_Scan_star [OF assms Suc.prems(2)] by blast
  show ?case
  proof (cases "length (?R cursor) < limit")
    case False
    with * have "0 < nxt" and n: "?R nxt = drop limit (?R cursor)" by auto
    with Suc.IH [of nxt] Suc.prems(1) assms(2) False
    have "scan_all n E now it ''*'' (int limit) c nxt = Some (?R nxt)" by auto
    with *(1) \<open>0 < nxt\<close> n show ?thesis by simp
  qed (use * in simp)
qed simp

subsection \<open>All keys, each once\<close>

lemma in_concat_nth: "k \<in> set (concat kss) \<Longrightarrow> \<exists>i < length kss. k \<in> set (kss ! i)"
  by (simp add: set_concat) (metis in_set_conv_nth)

lemma distinct_concat_indexed:
  "(\<And>i. i < length kss \<Longrightarrow> distinct (kss ! i) \<and> (\<forall>k \<in> set (kss ! i). f k = i)) \<Longrightarrow> distinct (concat kss)"
proof (induction kss rule: rev_induct)
  case (snoc ks kss)
  have len: "length kss < length (kss @ [ks])" by simp
  have "distinct (concat kss)"
    by (rule snoc.IH) (metis snoc.prems length_append_singleton less_SucI nth_append)
  moreover have "distinct ks" and last: "\<forall>k \<in> set ks. f k = length kss"
    using snoc.prems [OF len] by simp_all
  moreover have "f k < length kss" if k: "k \<in> set (concat kss)" for k
  proof -
    from in_concat_nth [OF k] obtain i where i: "i < length kss" "k \<in> set (kss ! i)" by blast
    with snoc.prems [of i] show ?thesis by (simp add: nth_append)
  qed
  ultimately show ?case by fastforce
qed simp

lemma int_length_concat: "int (length (concat kss)) = sum_list (map (\<lambda>ks. int (length ks)) kss)"
  by (induction kss) simp_all

lemma foldl_add_sum: "foldl (\<lambda>t x. t + f x) (a::int) xs = a + sum_list (map f xs)"
  by (induction xs arbitrary: a) (simp_all add: add.assoc)

context eviction
begin

lemma length_GetKeys:
  assumes "inv e" and "order_ok it"
  shows "int (length (ev_GetKeys E now it e)) \<le> ev_Len E e"
proof -
  have fin: "finite (dom (contents e))"
    using ForEach_contents [OF assms] finite_dom_map_of by metis
  have "length (ev_GetKeys E now it e) = card (set (ev_GetKeys E now it e))"
    using GetKeys_set(2) [OF assms] by (simp add: distinct_card)
  also have "\<dots> \<le> card (dom (contents e))"
    unfolding GetKeys_set(1) [OF assms] by (rule card_mono [OF fin]) auto
  finally show ?thesis by (simp add: Len_contents [OF assms(1)])
qed

lemma length_keys_of:
  assumes "cache_ok inv c" and "order_ok it"
  shows "int (length (concat (keys_of E now it c))) \<le> Cache_Size E c"
proof -
  have le: "int (length (ev_GetKeys E now it (evictor s))) \<le> Shard_Size E s" if "s \<in> set (shards c)" for s
  proof -
    have "inv (evictor s)" using assms(1) that by (auto simp: cache_ok_def intro: shard_ok_inv)
    with length_GetKeys assms(2) show ?thesis by (simp add: Shard_Size_def)
  qed
  have "sum_list (map (\<lambda>s. int (length (ev_GetKeys E now it (evictor s)))) (shards c))
      \<le> sum_list (map (Shard_Size E) (shards c))"
    by (rule sum_list_mono) (rule le)
  then show ?thesis
    by (simp add: Cache_Size_def foldl_add_sum keys_of_def int_length_concat comp_def del: length_concat)
qed

lemma keys_of_placed:
  assumes "cache_ok inv c" and "placed contents c" and "order_ok it"
  shows "distinct (concat (keys_of E now it c))"
    and "set (concat (keys_of E now it c)) = {k. \<exists>i. cache_item contents c k = Some i \<and> \<not> IsExpired now i}"
proof -
  have okE: "inv (evictor s)" if "s \<in> set (shards c)" for s
    using assms(1) that by (auto simp: cache_ok_def intro: shard_ok_inv)
  show "distinct (concat (keys_of E now it c))"
  proof (rule distinct_concat_indexed [where f = "\<lambda>k. getShard k c"])
    fix i assume "i < length (keys_of E now it c)"
    then have i: "i < length (shards c)" by (simp add: keys_of_def)
    with GetKeys_set [OF okE assms(3), of "shards c ! i" now] placedD [OF assms(2) i]
    show "distinct (keys_of E now it c ! i) \<and> (\<forall>k \<in> set (keys_of E now it c ! i). getShard k c = i)"
      by (auto simp: keys_of_def)
  qed
  show "set (concat (keys_of E now it c)) = {k. \<exists>i. cache_item contents c k = Some i \<and> \<not> IsExpired now i}"
  proof (intro equalityI subsetI)
    fix k assume "k \<in> set (concat (keys_of E now it c))"
    then obtain j where j: "j < length (shards c)" "k \<in> set (ev_GetKeys E now it (evictor (shards c ! j)))"
      using in_concat_nth [of k "keys_of E now it c"] by (auto simp: keys_of_def)
    with GetKeys_set(1) [OF okE assms(3), of "shards c ! j" now] placedD [OF assms(2) j(1), of k]
    show "k \<in> {k. \<exists>i. cache_item contents c k = Some i \<and> \<not> IsExpired now i}"
      by (auto simp: cache_item_def Cache_shard_def)
  next
    fix k assume "k \<in> {k. \<exists>i. cache_item contents c k = Some i \<and> \<not> IsExpired now i}"
    moreover have "inv (evictor (Cache_shard k c))" by (rule okE [OF Cache_shard_in [OF cache_okD [OF assms(1)]]])
    ultimately have "k \<in> set (ev_GetKeys E now it (evictor (Cache_shard k c)))"
      using GetKeys_set(1) [OF _ assms(3), of "evictor (Cache_shard k c)" now] by (auto simp: cache_item_def)
    then show "k \<in> set (concat (keys_of E now it c))"
      using Cache_shard_in [OF cache_okD [OF assms(1)], of k] by (auto simp: keys_of_def)
  qed
qed

end

text \<open>The LRU with a capacity that a cursor can address keeps the contract too.\<close>

interpretation lru_small: eviction lru_evictor "\<lambda>l. lru_ok l \<and> 0 < capacity l \<and> capacity l \<le> 10000"
    "\<lambda>l. map_of (lru_abs l)"
  using lru.inv_Add lru.inv_Get lru.inv_Remove lru.Add_hit lru.Add_other lru.Get_result
    lru.Get_contents lru.Has_contents lru.Remove_result lru.Remove_contents lru.ForEach_ok
    lru.ForEach_contents lru.GetKeys_ForEach lru.Len_contents
  by unfold_locales (auto simp: LRU_Add_frame)

lemma NewCache_ok_small:
  assumes "0 < EvictorCapacity cfg" and "EvictorCapacity cfg \<le> 10000"
  shows "cache_ok (\<lambda>l. lru_ok l \<and> 0 < capacity l \<and> capacity l \<le> 10000) (NewCache cfg)"
proof -
  have "capacity (NewLRUWithMemory (EvictorCapacity cfg) m) = EvictorCapacity cfg" for m
    by (simp add: NewLRUWithMemory_def)
  then have "capacity (evictor s) = EvictorCapacity cfg" if "s \<in> set (shards (NewCache cfg))" for s
    using that NewShard_empty [of "EvictionPolicy cfg" "EvictorCapacity cfg" "MaxMemory cfg"]
    by (auto simp: NewCache_def Let_def empty_shard_def)
  with NewCache_ok [of cfg] assms show ?thesis by (auto simp: cache_ok_def shard_ok_def)
qed

subsection \<open>Properties\<close>



text \<open>A negative cursor crashes the process: the index it is decoded to is negative, and the
  first access panics, whatever the cache holds (with a positive COUNT for cursors above
  -10000).\<close>

theorem scan_negative_cursor:
  assumes "cache_size_ok c" and "cursor < 0" and "0 < limit \<or> cursor \<le> -10000"
  shows "Cache_Scan lru_evictor now it cursor pat limit c = Panic"
proof (cases "cursor \<le> -10000")
  case True
  then have "go_div cursor 10000 < 0" by (simp add: go_div_def)
  with assms(1) show ?thesis by (simp add: Cache_Scan_def Let_def cache_size_ok_def)
next
  case False
  with assms(2) have "go_div cursor 10000 = 0" and "go_mod cursor 10000 < 0"
    by (simp_all add: go_div_def go_mod_def)
  moreover obtain s ss where "shards c = s # ss" using assms(1) by (cases "shards c") (auto simp: cache_size_ok_def)
  ultimately show ?thesis using assms False by (simp add: Cache_Scan_def Shard_Scan_def Let_def)
qed

lemma scan_negative_cursor_witness:
  "Cache_Scan lru_evictor 0 id (-5) ''*'' 10 (NewCache (Engine DefaultConfig)) = Panic"
  by (rule scan_negative_cursor [OF NewCache_size]) simp_all

end
