(* ===== verification/Files.thy ===== *)
theory Files
  imports Prelude
begin

section \<open>Files\<close>

text \<open>
  The part of the \<open>os\<close> package that the persistence layer uses: a file system maps the path of
  a regular file to its bytes, and an operation changes it.  \<open>FCreate\<close> is \<open>os.Create\<close> (an
  existing file is truncated), \<open>FWrite\<close> one \<open>write\<close> system call at the end of an open file,
  \<open>FRename\<close> the atomic \<open>os.Rename\<close>.  A save is a sequence of operations: a crash, or an
  error that makes the code return early, cuts it off after some prefix.
\<close>

type_synonym files = "string \<Rightarrow> string option"

datatype fs_op =
    FCreate string
  | FWrite string string
  | FRename string string

fun fs_step :: "fs_op \<Rightarrow> files \<Rightarrow> files" where
  "fs_step (FCreate p) f = f(p \<mapsto> [])"
| "fs_step (FWrite p bs) f =
     (case f p of None \<Rightarrow> f | Some old \<Rightarrow> f(p \<mapsto> old @ bs))"
| "fs_step (FRename p q) f =
     (case f p of None \<Rightarrow> f | Some bs \<Rightarrow> (f(p := None))(q \<mapsto> bs))"

definition fs_run :: "fs_op list \<Rightarrow> files \<Rightarrow> files" where
  "fs_run ops f = fold fs_step ops f"

lemma fs_run_simps [simp]:
  "fs_run [] f = f" "fs_run (p # ops) f = fs_run ops (fs_step p f)"
  "fs_run (ops @ ops') f = fs_run ops' (fs_run ops f)"
  by (simp_all add: fs_run_def)

text \<open>
  Writing a file the safe way: a new temporary file, its bytes in chunks of any size (the
  flushes of a buffered writer), and a rename over the old file.
\<close>

definition write_and_rename :: "string \<Rightarrow> string \<Rightarrow> string list \<Rightarrow> fs_op list" where
  "write_and_rename tmp path chunks = FCreate tmp # map (FWrite tmp) chunks @ [FRename tmp path]"

lemma fs_run_writes:
  "f tmp = Some bs \<Longrightarrow> fs_run (map (FWrite tmp) chunks) f = f(tmp \<mapsto> bs @ concat chunks)"
  by (induction chunks arbitrary: f bs) auto

lemma write_and_rename_all:
  "tmp \<noteq> path \<Longrightarrow> fs_run (write_and_rename tmp path chunks) f = f(tmp := None, path \<mapsto> concat chunks)"
  by (auto simp: write_and_rename_def fs_run_writes)

text \<open>After any prefix of the operations only the temporary file has changed, unless all were done.\<close>

lemma write_and_rename_prefix:
  assumes "take n (write_and_rename tmp path chunks) \<noteq> write_and_rename tmp path chunks"
    and "p \<noteq> tmp"
  shows "fs_run (take n (write_and_rename tmp path chunks)) f p = f p"
proof (cases n)
  case (Suc m)
  from assms(1) Suc have "\<not> length chunks < m"
    by (auto simp: write_and_rename_def)
  then have "take n (write_and_rename tmp path chunks) = FCreate tmp # map (FWrite tmp) (take m chunks)"
    using Suc by (simp add: write_and_rename_def take_map)
  with assms(2) show ?thesis by (simp add: fs_run_writes)
qed simp

end
