(* ===== verification/Snapshot.thy ===== *)
theory Snapshot
  imports Cache
begin

section \<open>Taking a shard's items out and putting them back\<close>

text \<open>
  What the two snapshot formats share: \<open>GetItems\<close> of a shard yields its items that have not
  expired, and \<open>Restore\<close> of those items into an empty shard with the same limits loses
  none of them, although \<open>Add\<close> evicts: the items came from an LRU whose limits they
  respect.  The invariant behind this (the memory in use is within the limit, or there is a
  single item) is kept by every operation.
\<close>

subsection \<open>The limits as an invariant\<close>

definition lru_bounded :: "int \<Rightarrow> int \<Rightarrow> lru \<Rightarrow> bool" where
  "lru_bounded c m l \<longleftrightarrow> lru_ok l \<and> capacity l = c \<and> maxMemory l = m \<and>
     (0 < m \<longrightarrow> mem_of (lru_abs l) \<le> m \<or> length (lru_abs l) \<le> 1)"

lemma mem_of_mset: "mset xs = mset ys \<Longrightarrow> mem_of xs = mem_of ys"
  by (simp add: mem_of_def flip: sum_mset_sum_list)

lemma mem_of_filter: "mem_of (filter p xs) \<le> mem_of xs"
proof (induction xs)
  case (Cons x xs)
  with calculateSize_nonneg [of "fst x" "DString (Value (snd x))"] show ?case
    by (cases x) (simp_all del: calculateSize_nonneg)
qed simp

lemma mem_of_spec_get:
  assumes "map_ok xs"
  shows "mem_of (snd (spec_get k xs)) = mem_of xs" and "length (snd (spec_get k xs)) = length xs"
proof -
  have "mset (snd (spec_get k xs)) = mset xs"
  proof (cases "map_of xs k")
    case (Some i)
    with assms have "mset xs = add_mset (k, i) (mset (map_del k xs))"
    proof (induction xs)
      case (Cons p xs)
      then have tl: "map_ok xs" and "fst p \<notin> fst ` set xs" by (auto simp: map_ok_def)
      then have "map_del (fst p) xs = xs" by (simp add: AList.delete_idem)
      with Cons tl show ?case by (cases p) (auto split: if_splits)
    qed simp
    with Some show ?thesis by (simp add: spec_get_def)
  qed (simp add: spec_get_def)
  then show "mem_of (snd (spec_get k xs)) = mem_of xs" and "length (snd (spec_get k xs)) = length xs"
    using mem_of_mset by (blast, metis size_mset)
qed

lemma lru_bounded_Add: "lru_bounded c m l \<Longrightarrow> lru_bounded c m (LRU_Add k i l)"
  using spec_add_memory [of m c k i "lru_abs l"]
  by (auto simp: lru_bounded_def LRU_Add_refines)

lemma lru_bounded_Get: "lru_bounded c m l \<Longrightarrow> lru_bounded c m (snd (LRU_Get k l))"
  using mem_of_spec_get [OF lru_abs_distinct, of l k]
  by (auto simp: lru_bounded_def LRU_Get_refines(1) LRU_Get_abs simp del: length_lru_abs)

lemma lru_bounded_Remove: "lru_bounded c m l \<Longrightarrow> lru_bounded c m (snd (LRU_Remove k l))"
  using mem_of_del [of k "lru_abs l"] length_del [OF lru_abs_distinct, of l k]
  by (auto simp: lru_bounded_def LRU_Remove_refines simp del: length_lru_abs split: if_splits)

interpretation lru_bounded: eviction lru_evictor "lru_bounded c m" "\<lambda>l. map_of (lru_abs l)" for c m
proof (unfold_locales, goal_cases)
  case 1 then show ?case by (simp add: lru_bounded_Add)
next
  case 2 then show ?case by (simp add: lru_bounded_Get)
next
  case 3 then show ?case by (simp add: lru_bounded_Remove)
qed (simp_all add: lru_bounded_def lru.laws lru.Add_other lru.ForEach_ok lru.ForEach_contents
    lru.GetKeys_ForEach lru.Len_contents del: lru_evictor_sel)

lemma NewCache_bounded: "cache_ok (lru_bounded (EvictorCapacity cfg) (MaxMemory cfg)) (NewCache cfg)"
proof -
  have new: "lru_bounded c m (NewLRUWithMemory c m)" for c m
    by (simp add: lru_bounded_def NewLRUWithMemory_ok del: lru_abs_Nil length_lru_abs)
      (simp add: NewLRUWithMemory_def)
  have "shard_ok (lru_bounded c m) (NewShard pol c m)" for pol c m
    using NewShard_empty [of pol c m] empty_shard_ok [of "lru_bounded c m", OF new] by metis
  then show ?thesis
    using NewCache_size [of cfg] by (auto simp: cache_ok_def NewCache_def Let_def)
qed

subsection \<open>The items of a shard\<close>

lemma put_new: "k \<notin> fst ` set m \<Longrightarrow> map_put k v m = m @ [(k, v)]"
  by (induction m) auto

lemma foldl_put_distinct: "map_ok (acc @ xs) \<Longrightarrow> foldl (\<lambda>m (k, v). map_put k v m) acc xs = acc @ xs"
proof (induction xs arbitrary: acc)
  case (Cons p xs)
  then have "fst p \<notin> fst ` set acc" and ok: "map_ok ((acc @ [p]) @ xs)" by (auto simp: map_ok_def)
  then show ?case using Cons.IH [OF ok] by (cases p) (simp add: put_new)
qed simp

lemma map_ok_filter: "map_ok xs \<Longrightarrow> map_ok (filter p xs)"
  by (simp add: map_ok_def distinct_map_filter)

lemma mset_map_of:
  assumes "map_ok xs" and "map_ok ys" and "map_of xs = map_of ys"
  shows "mset xs = mset ys"
proof -
  have "set xs = set ys"
    using assms map_of_inject_set [of xs ys] by (simp add: map_ok_def)
  moreover have "distinct xs" "distinct ys" using assms(1,2) by (auto simp: map_ok_def distinct_map)
  ultimately show ?thesis by (simp add: set_eq_iff_mset_eq_distinct)
qed

lemma Shard_GetItems_eq:
  assumes "lru_ok (evictor s)" and "order_ok it"
  shows "Shard_GetItems lru_evictor now it s
      = filter (\<lambda>(k, i). \<not> IsExpired now i) (LRU_ForEach it (evictor s))"
    and "mset (Shard_GetItems lru_evictor now it s)
      = mset (filter (\<lambda>(k, i). \<not> IsExpired now i) (lru_abs (evictor s)))"
    and "map_ok (Shard_GetItems lru_evictor now it s)"
proof -
  note fe = LRU_ForEach_refines [OF assms]
  have "foldl (\<lambda>m (k, i). if \<not> IsExpired now i then map_put k i m else m) [] xs
      = filter (\<lambda>(k, i). \<not> IsExpired now i) xs" if "map_ok xs" for xs
    using foldl_put_distinct [of "[]" "filter (\<lambda>(k, i). \<not> IsExpired now i) xs"] map_ok_filter [OF that]
      foldl_filter [of "\<lambda>p. \<not> IsExpired now (snd p)" "\<lambda>m p. map_put (fst p) (snd p) m" "[]" xs]
    by (simp add: case_prod_unfold)
  from this [OF fe(1)] show eq: "Shard_GetItems lru_evictor now it s
      = filter (\<lambda>(k, i). \<not> IsExpired now i) (LRU_ForEach it (evictor s))"
    by (simp add: Shard_GetItems_def)
  have "mset (LRU_ForEach it (evictor s)) = mset (lru_abs (evictor s))"
    by (rule mset_map_of [OF fe(1) lru_abs_distinct [OF assms(1)] fe(2)])
  then show "mset (Shard_GetItems lru_evictor now it s)
      = mset (filter (\<lambda>(k, i). \<not> IsExpired now i) (lru_abs (evictor s)))"
    by (simp add: eq)
  show "map_ok (Shard_GetItems lru_evictor now it s)" by (simp add: eq map_ok_filter [OF fe(1)])
qed

lemma GetItems_live:
  assumes "lru_ok (evictor s)" and "order_ok it" and "now \<le> t"
  shows "live t (map_of (Shard_GetItems lru_evictor now it s) k) = live t (map_of (lru_abs (evictor s)) k)"
proof -
  let ?l = "evictor s"
  have "map_of (Shard_GetItems lru_evictor now it s) k = drop_expired now (map_of (lru_abs ?l) k)"
    using LRU_ForEach_refines [OF assms(1,2)] Shard_GetItems_eq(1) [OF assms(1,2), of now]
      map_of_filter_snd [of "LRU_ForEach it ?l" "\<lambda>i. \<not> IsExpired now i" k]
    by (simp add: drop_expired_def split: option.split)
  then show ?thesis
    using IsExpired_mono [OF _ assms(3)] by (auto simp: drop_expired_def live_def split: option.splits)
qed

subsection \<open>Restoring them\<close>

lemma spec_add_room:
  assumes "\<not> map_has xs k"
    and "0 < m \<Longrightarrow> mem_of xs + calculateSize k (DString (Value i)) \<le> m \<or> xs = []"
    and "0 < c \<Longrightarrow> int (length xs) < c"
  shows "spec_add c m k i xs = (k, i) # xs"
proof -
  have "spec_evict m n [] = []" for n by (simp add: spec_evict.simps)
  with assms show ?thesis by (auto simp: spec_add_def spec_evict_enough)
qed

definition limits_ok :: "int \<Rightarrow> int \<Rightarrow> item gomap \<Rightarrow> bool" where
  "limits_ok c m xs \<longleftrightarrow> (0 < c \<longrightarrow> int (length xs) \<le> c) \<and> (0 < m \<longrightarrow> mem_of xs \<le> m \<or> length xs \<le> 1)"

lemma limits_ok_filter: "limits_ok c m xs \<Longrightarrow> limits_ok c m (filter p xs)"
  using length_filter_le [of p xs] mem_of_filter [of p xs]
  by (auto simp: limits_ok_def simp del: length_filter_le)

lemma limits_ok_mset: "mset xs = mset ys \<Longrightarrow> limits_ok c m xs = limits_ok c m ys"
  by (metis limits_ok_def mem_of_mset size_mset)

lemma lru_bounded_limits: "lru_bounded c m l \<Longrightarrow> limits_ok c m (lru_abs l)"
  using lru_okD(7) [of l] by (auto simp: lru_bounded_def limits_ok_def)

lemma LRU_restore:
  assumes "lru_bounded c m l" and "lru_abs l = rev ys" and "map_ok (ys @ xs)" and "limits_ok c m (ys @ xs)"
  shows "lru_bounded c m (foldl (\<lambda>e (k, i). LRU_Add k i e) l xs)
    \<and> lru_abs (foldl (\<lambda>e (k, i). LRU_Add k i e) l xs) = rev (ys @ xs)"
  using assms
proof (induction xs arbitrary: l ys)
  case (Cons p xs)
  obtain k i where p: "p = (k, i)" by force
  have ok: "lru_ok l" "capacity l = c" "maxMemory l = m" using Cons.prems(1) by (simp_all add: lru_bounded_def)
  have new: "\<not> map_has (rev ys) k" using Cons.prems(3) p by (auto simp: map_has_iff map_ok_def)
  have "mem_of (rev ys) = mem_of ys" by (rule mem_of_mset) simp
  then have "spec_add c m k i (rev ys) = (k, i) # rev ys"
    using Cons.prems(4) p
    by (intro spec_add_room [OF new]) (auto simp: limits_ok_def intro: order_trans [rotated])
  then have "lru_abs (LRU_Add k i l) = rev (ys @ [p])"
    using p ok Cons.prems(2) by (simp add: LRU_Add_refines)
  with Cons.IH [OF lru_bounded_Add [OF Cons.prems(1)], of k i "ys @ [p]"] Cons.prems(3,4) p
  show ?case by simp
qed simp

lemma Shard_Restore_eq:
  assumes "lru_bounded c m (evictor s)" and "order (evictor s) = []" and "order_ok it"
    and "map_ok its" and "limits_ok c m its"
  shows "lru_bounded c m (evictor (Shard_Restore lru_evictor it its s))"
    and "map_of (lru_abs (evictor (Shard_Restore lru_evictor it its s))) = map_of its"
proof -
  let ?xs = "range_map it its"
  have ok: "map_ok ?xs" by (rule map_ok_range_map [OF assms(3,4)])
  have lim: "limits_ok c m ?xs"
    using limits_ok_mset [OF mset_range_map [OF assms(3,4)]] assms(5) by blast
  have "lru_abs (evictor s) = rev []" using assms(2) by (simp only: rev.simps lru_abs_Nil)
  from LRU_restore [OF assms(1) this, of ?xs] ok lim
  have r: "lru_bounded c m (evictor (Shard_Restore lru_evictor it its s))"
      "lru_abs (evictor (Shard_Restore lru_evictor it its s)) = rev ?xs"
    by (simp_all add: Shard_Restore_def)
  then show "lru_bounded c m (evictor (Shard_Restore lru_evictor it its s))" by blast
  have "map_of (rev ?xs) = map_of ?xs"
    using ok by (intro map_of_inject_set [THEN iffD2]) (simp_all add: map_ok_def distinct_map rev_map [symmetric])
  with r(2) show "map_of (lru_abs (evictor (Shard_Restore lru_evictor it its s))) = map_of its"
    by (simp add: map_of_range_map [OF assms(3,4)])
qed

subsection \<open>Restoring a whole cache, shard by shard\<close>

text \<open>\<open>shard := cache.GetShard(id)\<close> followed by \<open>shard.Restore(items)\<close>.\<close>

definition Cache_Restore :: "map_order \<Rightarrow> int \<Rightarrow> item gomap \<Rightarrow> lru cache \<Rightarrow> lru cache outcome" where
  "Cache_Restore it sid its c =
     (case Cache_GetShard sid c of
        Panic \<Rightarrow> Panic
      | Ret shard \<Rightarrow> Ret (c\<lparr>shards := (shards c)[nat sid := Shard_Restore lru_evictor it its shard]\<rparr>))"

definition shard_contents :: "lru cache \<Rightarrow> nat \<Rightarrow> string \<Rightarrow> item option" where
  "shard_contents c n = map_of (lru_abs (evictor (shards c ! n)))"

fun restore_all :: "(int \<times> map_order \<times> item gomap) list \<Rightarrow> lru cache \<Rightarrow> lru cache outcome" where
  "restore_all [] c = Ret c"
| "restore_all ((sid, it, its) # rs) c =
     (case Cache_Restore it sid its c of Panic \<Rightarrow> Panic | Ret c1 \<Rightarrow> restore_all rs c1)"

lemma restore_all_append:
  "restore_all (rs @ rs') c = (case restore_all rs c of Panic \<Rightarrow> Panic | Ret c1 \<Rightarrow> restore_all rs' c1)"
  by (induction rs c rule: restore_all.induct) (auto split: outcome.split)

text \<open>What may be restored into shard \<open>n\<close>, and into which caches.\<close>

definition entry_fits :: "int \<Rightarrow> int \<Rightarrow> int \<times> map_order \<times> item gomap \<Rightarrow> bool" where
  "entry_fits cap m e \<longleftrightarrow>
     (case e of (sid, it, its) \<Rightarrow> 0 \<le> sid \<and> order_ok it \<and> map_ok its \<and> limits_ok cap m its)"

lemma Cache_Restore_eq:
  assumes "cache_ok (lru_bounded cap m) c" and "entry_fits cap m (sid, it, its)"
    and "sid < int (length (shards c))" and "order (evictor (shards c ! nat sid)) = []"
  obtains c1 where "Cache_Restore it sid its c = Ret c1" and "cache_ok (lru_bounded cap m) c1"
    and "numShards c1 = numShards c" and "length (shards c1) = length (shards c)"
    and "\<And>n. n \<noteq> nat sid \<Longrightarrow> shards c1 ! n = shards c ! n"
    and "shard_contents c1 (nat sid) = map_of its"
proof
  let ?s = "Shard_Restore lru_evictor it its (shards c ! nat sid)"
  let ?c1 = "c\<lparr>shards := (shards c)[nat sid := ?s]\<rparr>"
  have sid: "0 \<le> sid" "order_ok it" "map_ok its" "limits_ok cap m its" "nat sid < length (shards c)"
    using assms(2,3) by (auto simp: entry_fits_def)
  have sh: "shard_ok (lru_bounded cap m) (shards c ! nat sid)"
    using assms(1) sid(5) by (auto simp: cache_ok_def)
  note r = Shard_Restore_eq [OF shard_ok_inv [OF sh] assms(4) sid(2-4)]
  show "Cache_Restore it sid its c = Ret ?c1"
    using sid assms(3) by (simp add: Cache_Restore_def Cache_GetShard_def)
  have "?s = (shards c ! nat sid)\<lparr>evictor := evictor ?s\<rparr>" by (simp add: Shard_Restore_def)
  with shard_ok_evictor [OF sh r(1)] have "shard_ok (lru_bounded cap m) ?s" by simp
  then show "cache_ok (lru_bounded cap m) ?c1"
    using assms(1) set_update_subset_insert [of "shards c" "nat sid" ?s]
    by (auto simp: cache_ok_def cache_size_ok_def)
  show "shard_contents ?c1 (nat sid) = map_of its"
    using r(2) sid(5) by (simp add: shard_contents_def)
qed simp_all

text \<open>The entries name different shards, all of them empty before.\<close>

lemma restore_all_eq:
  assumes "cache_ok (lru_bounded cap m) c" and "\<forall>e \<in> set rs. entry_fits cap m e"
    and "distinct (map fst rs)" and "\<forall>e \<in> set rs. fst e < int (length (shards c))"
    and "\<forall>e \<in> set rs. order (evictor (shards c ! nat (fst e))) = []"
  shows "\<exists>c'. restore_all rs c = Ret c' \<and> cache_ok (lru_bounded cap m) c'
    \<and> numShards c' = numShards c \<and> length (shards c') = length (shards c)
    \<and> (\<forall>n. shard_contents c' n = (case map_of rs (int n) of
          None \<Rightarrow> shard_contents c n | Some (it, its) \<Rightarrow> map_of its))"
  using assms
proof (induction rs arbitrary: c)
  case (Cons e rs)
  obtain sid it its where e: "e = (sid, it, its)" by (cases e) auto
  with Cons.prems obtain c1 where c1: "Cache_Restore it sid its c = Ret c1"
      "cache_ok (lru_bounded cap m) c1" "numShards c1 = numShards c" "length (shards c1) = length (shards c)"
      "\<And>n. n \<noteq> nat sid \<Longrightarrow> shards c1 ! n = shards c ! n" "shard_contents c1 (nat sid) = map_of its"
    using Cache_Restore_eq [of cap m c sid it its] by auto
  have pos: "0 \<le> sid" and pos': "\<forall>e \<in> set rs. 0 \<le> fst e"
    using Cons.prems(2) e by (auto simp: entry_fits_def)
  have other: "nat (fst e') \<noteq> nat sid" if "e' \<in> set rs" for e'
  proof -
    have "fst e' \<in> fst ` set rs" using that by (rule imageI)
    with Cons.prems(3) e have "fst e' \<noteq> sid" by auto
    with pos pos' that show ?thesis by (auto simp: nat_eq_iff)
  qed
  then have "\<forall>e \<in> set rs. order (evictor (shards c1 ! nat (fst e))) = []"
    using Cons.prems(5) c1(5) by auto
  with Cons.IH [OF c1(2)] Cons.prems(2-4) c1(4)
  obtain c' where c': "restore_all rs c1 = Ret c'" "cache_ok (lru_bounded cap m) c'"
      "numShards c' = numShards c1" "length (shards c') = length (shards c1)"
      "\<forall>n. shard_contents c' n = (case map_of rs (int n) of
          None \<Rightarrow> shard_contents c1 n | Some (it, its) \<Rightarrow> map_of its)"
    by auto
  have keep: "shard_contents c1 n = shard_contents c n" if "int n \<noteq> sid" for n
  proof -
    from that pos have "n \<noteq> nat sid" by auto
    then show ?thesis by (simp add: shard_contents_def c1(5))
  qed
  have "map_of rs sid = None"
    using Cons.prems(3) e by (simp add: map_of_eq_None_iff)
  then have "shard_contents c' n = (case map_of (e # rs) (int n) of
          None \<Rightarrow> shard_contents c n | Some (it, its) \<Rightarrow> map_of its)" for n
    using c'(5) c1(6) pos e keep [of n] by (cases "int n = sid") (auto split: option.split)
  with c' c1 e show ?case by auto
qed simp

text \<open>
  A snapshot \<open>rs\<close> of a cache agrees with it at time \<open>t\<close> when every shard's restored items
  have the values of the shard's items that are alive at \<open>t\<close>.
\<close>

definition agrees_at :: "int \<Rightarrow> lru cache \<Rightarrow> (int \<times> map_order \<times> item gomap) list \<Rightarrow> bool" where
  "agrees_at t c rs \<longleftrightarrow> (\<forall>n < length (shards c). \<forall>k.
     live t (case map_of rs (int n) of None \<Rightarrow> None | Some (it, its) \<Rightarrow> map_of its k)
       = live t (shard_contents c n k))"

lemma lru_item_contents: "lru_item c k = shard_contents c (getShard k c) k"
  by (simp add: cache_item_def shard_contents_def Cache_shard_def)

lemma restore_all_live:
  assumes "cache_ok (lru_bounded cap m) c" and "\<forall>e \<in> set rs. entry_fits cap m e"
    and "distinct (map fst rs)" and "\<forall>e \<in> set rs. fst e < int (length (shards c))"
    and "agrees_at t c rs"
    and "cache_ok (lru_bounded cap m) c0" and "numShards c0 = numShards c"
    and "\<And>s. s \<in> set (shards c0) \<Longrightarrow> lru_abs (evictor s) = []"
  shows "\<exists>c'. restore_all rs c0 = Ret c' \<and> cache_ok (lru_bounded cap m) c'
    \<and> (\<forall>k. live t (lru_item c' k) = live t (lru_item c k))"
proof -
  have len: "length (shards c0) = length (shards c)"
    using cache_okD [OF assms(1)] cache_okD [OF assms(6)] assms(7) by (simp add: cache_size_ok_def)
  have empty: "order (evictor (shards c0 ! n)) = []" if "n < length (shards c)" for n
    using assms(8) [of "shards c0 ! n"] len that by simp
  have "nat (fst e) < length (shards c)" if "e \<in> set rs" for e
    using bspec [OF assms(2) that] bspec [OF assms(4) that] by (auto simp: entry_fits_def split: prod.splits)
  then have "\<forall>e \<in> set rs. order (evictor (shards c0 ! nat (fst e))) = []" using empty by blast
  with restore_all_eq [OF assms(6,2,3)] assms(4) len
  obtain c' where c': "restore_all rs c0 = Ret c'" "cache_ok (lru_bounded cap m) c'"
      "numShards c' = numShards c0"
      "\<forall>n. shard_contents c' n = (case map_of rs (int n) of
          None \<Rightarrow> shard_contents c0 n | Some (it, its) \<Rightarrow> map_of its)" by auto
  have "live t (lru_item c' k) = live t (lru_item c k)" for k
  proof -
    have n: "getShard k c < length (shards c)" by (rule getShard_less [OF cache_okD [OF assms(1)]])
    have "shard_contents c0 (getShard k c) = Map.empty"
      using assms(8) [of "shards c0 ! getShard k c"] n len by (simp add: shard_contents_def)
    moreover have "getShard k c' = getShard k c" using c'(3) assms(7) by (simp add: getShard_def)
    ultimately show ?thesis
      using c'(4) assms(5) n
      by (auto simp: lru_item_contents agrees_at_def split: option.splits)
  qed
  with c' show ?thesis by blast
qed

subsection \<open>Caches that arise from a new one\<close>

lemma run_bounded:
  "list_all op_ok ops \<Longrightarrow>
     cache_ok (lru_bounded (EvictorCapacity cfg) (MaxMemory cfg)) (fold (cache_step lru_evictor) ops (NewCache cfg))"
  using lru_bounded.cache_run_ok [OF _ NewCache_bounded, where m = "\<lambda>_. None"] NewCache_item by blast

lemma lru_bounded_ok: "cache_ok (lru_bounded cap m) c \<Longrightarrow> cache_ok lru_ok c"
  by (auto simp: cache_ok_def shard_ok_def lru_bounded_def)

lemma cache_step_numShards: "numShards (cache_step E p c) = numShards c"
  by (cases p) (simp_all add: Cache_Set_def Cache_Get_def Cache_Delete_def Cache_TTL_def Cache_cleanup_def
      split: prod.split)

lemma cache_run_numShards: "numShards (fold (cache_step E) ops c) = numShards c"
  by (induction ops arbitrary: c) (simp_all add: cache_step_numShards)

lemma shard_bounded:
  "cache_ok (lru_bounded cap m) c \<Longrightarrow> n < length (shards c) \<Longrightarrow> lru_bounded cap m (evictor (shards c ! n))"
  by (auto simp: cache_ok_def intro: shard_ok_inv)

text \<open>Restoring a snapshot of such a cache into a new one gives the same results of Get.\<close>

lemma restore_run:
  assumes "list_all op_ok ops" and "c = fold (cache_step lru_evictor) ops (NewCache cfg)"
    and "\<forall>e \<in> set rs. entry_fits (EvictorCapacity cfg) (MaxMemory cfg) e"
    and "distinct (map fst rs)" and "\<forall>e \<in> set rs. fst e < int (length (shards c))" and "agrees_at t c rs"
  shows "\<exists>c'. restore_all rs (NewCache cfg) = Ret c' \<and>
    (\<forall>k. fst (Cache_Get lru_evictor t k c') = fst (Cache_Get lru_evictor t k c))"
proof -
  let ?I = "lru_bounded (EvictorCapacity cfg) (MaxMemory cfg)"
  have ok: "cache_ok ?I c" unfolding assms(2) by (rule run_bounded [OF assms(1)])
  have "numShards (NewCache cfg) = numShards c"
    unfolding assms(2) by (simp add: cache_run_numShards)
  then obtain c' where c': "restore_all rs (NewCache cfg) = Ret c'" "cache_ok ?I c'"
      "\<forall>k. live t (lru_item c' k) = live t (lru_item c k)"
    using restore_all_live [OF ok assms(3-6) NewCache_bounded] NewCache_shards_empty by blast
  have "fst (Cache_Get lru_evictor t k c') = fst (Cache_Get lru_evictor t k c)" for k
    using lru.Cache_Get_eq(1) [OF lru_bounded_ok [OF c'(2)]] lru.Cache_Get_eq(1) [OF lru_bounded_ok [OF ok]]
      c'(3) by simp
  with c'(1) show ?thesis by blast
qed

end
