(* ===== verification/Rdb.thy ===== *)
theory Rdb
  imports Snapshot Files Config
begin

section \<open>RDB snapshots\<close>

text \<open>
  Models \<^verbatim>\<open>internal/persistence/rdb.go\<close>: the binary format that \<open>Save\<close> writes and
  \<open>Load\<close> reads, byte by byte, with the error of every read.  A save reads the clock in shard
  \<open>n\<close> at \<open>sv_now n\<close> (which items are expired) and at \<open>sv_tick n key\<close> (the time to live it
  writes); a load reads it at \<open>ld_now r i\<close> for the \<open>i\<close>-th item of the \<open>r\<close>-th shard in the
  file.  \<open>sv_secs\<close> is \<open>int64(d.Seconds())\<close> of a duration, a float64 computation, whose result
  \<open>Load\<close> reads and ignores.  \<open>GetShard\<close> never returns nil: on an index out of range it
  panics, so the code that skips the items of an unknown shard is never reached.

  The background goroutine of \<open>Start\<close>, which calls \<open>Save\<close> at intervals, and \<open>Stop\<close> are in the
  theory AutoSave.
\<close>

subsection \<open>Little-endian integers\<close>

text \<open>\<open>binary.Write(w, binary.LittleEndian, x)\<close> for an integer of \<open>n\<close> bytes, which keeps the low
  bits, and the value \<open>binary.Read\<close> gives for \<open>n\<close> bytes as an unsigned integer.\<close>

fun le_bytes :: "nat \<Rightarrow> int \<Rightarrow> string" where
  "le_bytes 0 x = []"
| "le_bytes (Suc n) x = char_of (x mod 256) # le_bytes n (x div 256)"

fun le_val :: "string \<Rightarrow> int" where
  "le_val [] = 0"
| "le_val (b # bs) = of_char b + 256 * le_val bs"

definition read_le :: "nat \<Rightarrow> string \<Rightarrow> (int \<times> string) option" where
  "read_le n s = (if length s < n then None else Some (le_val (take n s), drop n s))"

text \<open>\<open>io.ReadFull\<close> into a buffer of \<open>n\<close> bytes.\<close>

definition read_full :: "int \<Rightarrow> string \<Rightarrow> (string \<times> string) option" where
  "read_full n s = (if int (length s) < n then None else Some (take (nat n) s, drop (nat n) s))"

subsection \<open>Saving\<close>

definition RDBMagic :: string where "RDBMagic = ''PENDEM''"
definition RDBVersion :: int where "RDBVersion = 1"

record save_env =
  sv_now :: "nat \<Rightarrow> int"
  sv_tick :: "nat \<Rightarrow> string \<Rightarrow> int"
  sv_iter :: "nat \<Rightarrow> map_order"
  sv_range :: "nat \<Rightarrow> map_order"
  sv_secs :: "int \<Rightarrow> int"

definition save_item :: "(int \<Rightarrow> int) \<Rightarrow> int \<Rightarrow> string \<times> item \<Rightarrow> string" where
  "save_item secs now p =
     (case p of (key, i) \<Rightarrow>
        let ttl = (if Item_TTL now i < 0 then 0 else Item_TTL now i) in
        le_bytes 2 (int (length key)) @ key @
        le_bytes 4 (int (length (Value i))) @ Value i @
        le_bytes 8 (secs ttl) @ le_bytes 8 (Expiration i))"

definition save_shard :: "save_env \<Rightarrow> nat \<Rightarrow> lru shard \<Rightarrow> string" where
  "save_shard E n s =
     (let its = Shard_GetItems lru_evictor (sv_now E n) (sv_iter E n) s in
      if length its = 0 then []
      else le_bytes 2 (int n) @ le_bytes 4 (int (length its)) @
        concat (map (\<lambda>p. save_item (sv_secs E) (sv_tick E n (fst p)) p) (range_map (sv_range E n) its)))"

fun save_shards :: "save_env \<Rightarrow> nat list \<Rightarrow> lru cache \<Rightarrow> string outcome" where
  "save_shards E [] c = Ret []"
| "save_shards E (n # ns) c =
     (case Cache_GetShard (int n) c of
        Panic \<Rightarrow> Panic
      | Ret s \<Rightarrow>
          (case save_shards E ns c of
             Panic \<Rightarrow> Panic
           | Ret out \<Rightarrow> Ret (save_shard E n s @ out)))"

definition rdb_bytes :: "save_env \<Rightarrow> lru cache \<Rightarrow> string outcome" where
  "rdb_bytes E c =
     (case save_shards E [0..<nat (Cache_NumShards c)] c of
        Panic \<Rightarrow> Panic
      | Ret out \<Rightarrow> Ret (RDBMagic @ [char_of RDBVersion] @ le_bytes 2 (Cache_NumShards c) @ out))"

text \<open>The file operations of \<open>Save\<close>; the buffered writer cuts the bytes into chunks.\<close>

definition RDB_Save_ops :: "RDBConfig \<Rightarrow> string list \<Rightarrow> fs_op list" where
  "RDB_Save_ops cfg chunks = write_and_rename (RDB_Path cfg @ ''.tmp'') (RDB_Path cfg) chunks"

text \<open>A save that runs to its end.\<close>

definition RDB_Save :: "save_env \<Rightarrow> RDBConfig \<Rightarrow> lru cache \<Rightarrow> files \<Rightarrow> files outcome" where
  "RDB_Save E cfg c f =
     (case rdb_bytes E c of
        Panic \<Rightarrow> Panic
      | Ret bytes \<Rightarrow> Ret (fs_run (RDB_Save_ops cfg [bytes]) f))"

subsection \<open>Loading\<close>

datatype rdb_error =
    FailedMagic | InvalidMagic string | FailedVersion | UnsupportedVersion int | FailedShardCount
  | FailedShardID | FailedItemCount | FailedKeyLength | FailedKey | FailedValueLength | FailedValue
  | FailedTTL | FailedExpiration

definition load_item :: "string \<Rightarrow> rdb_error + (string \<times> string \<times> int \<times> string)" where
  "load_item s =
     (case read_le 2 s of
        None \<Rightarrow> Inl FailedKeyLength
      | Some (keyLen, s1) \<Rightarrow>
     (case read_full keyLen s1 of
        None \<Rightarrow> Inl FailedKey
      | Some (key, s2) \<Rightarrow>
     (case read_le 4 s2 of
        None \<Rightarrow> Inl FailedValueLength
      | Some (valLen, s3) \<Rightarrow>
     (case read_full valLen s3 of
        None \<Rightarrow> Inl FailedValue
      | Some (val, s4) \<Rightarrow>
     (case read_le 8 s4 of
        None \<Rightarrow> Inl FailedTTL
      | Some (ttlSec, s5) \<Rightarrow>
     (case read_le 8 s5 of
        None \<Rightarrow> Inl FailedExpiration
      | Some (e, s6) \<Rightarrow> Inr (key, val, wrap64 e, s6)))))))"

fun load_items :: "(nat \<Rightarrow> int) \<Rightarrow> nat \<Rightarrow> nat \<Rightarrow> string \<Rightarrow> item gomap \<Rightarrow> rdb_error + (item gomap \<times> string)" where
  "load_items now i 0 s its = Inr (its, s)"
| "load_items now i (Suc n) s its =
     (case load_item s of
        Inl e \<Rightarrow> Inl e
      | Inr (key, val, ex, s') \<Rightarrow>
          load_items now (i + 1) n s'
            (if ex > 0 \<and> now i > ex then its
             else map_put key \<lparr>Value = val, Expiration = ex, CreatedAt = 0\<rparr> its))"

lemma read_le_length: "read_le n s = Some (x, s') \<Longrightarrow> length s = n + length s'"
  by (auto simp: read_le_def split: if_splits)

lemma read_full_length: "read_full n s = Some (x, s') \<Longrightarrow> length s' \<le> length s"
  by (auto simp: read_full_def split: if_splits)

lemma load_item_length: "load_item s = Inr (k, v, e, s') \<Longrightarrow> length s' < length s"
  by (auto simp: load_item_def split: option.splits prod.splits dest!: read_le_length read_full_length)

lemma load_items_length: "load_items now i n s m = Inr (m', s') \<Longrightarrow> length s' \<le> length s"
proof (induction now i n s m rule: load_items.induct)
  case (2 now i n s m)
  then show ?case by (fastforce split: sum.splits prod.splits dest: load_item_length)
qed simp

text \<open>The loop over the shards in the file, from the \<open>r\<close>-th on.  The first result is the error,
  if any; what earlier shards restored stays in the cache.\<close>

record load_env =
  ld_now :: "nat \<Rightarrow> nat \<Rightarrow> int"
  ld_range :: "nat \<Rightarrow> map_order"

function load_shards :: "load_env \<Rightarrow> nat \<Rightarrow> string \<Rightarrow> lru cache \<Rightarrow> (rdb_error option \<times> lru cache) outcome" where
  "load_shards E r s c =
     (if s = [] then Ret (None, c)
      else case read_le 2 s of
        None \<Rightarrow> Ret (Some FailedShardID, c)
      | Some (shardID, s1) \<Rightarrow>
     (case read_le 4 s1 of
        None \<Rightarrow> Ret (Some FailedItemCount, c)
      | Some (numItems, s2) \<Rightarrow>
     (case Cache_GetShard shardID c of
        Panic \<Rightarrow> Panic
      | Ret shard \<Rightarrow>
     (case load_items (ld_now E r) 0 (nat numItems) s2 [] of
        Inl e \<Rightarrow> Ret (Some e, c)
      | Inr (its, s3) \<Rightarrow>
     (case Cache_Restore (ld_range E r) shardID its c of
        Panic \<Rightarrow> Panic
      | Ret c1 \<Rightarrow> load_shards E (r + 1) s3 c1)))))"
  by pat_completeness auto
termination
  by (relation "measure (\<lambda>(E, r, s, c). length s)")
    (auto dest!: read_le_length load_items_length)

declare load_shards.simps [simp del]

definition rdb_parse :: "load_env \<Rightarrow> string \<Rightarrow> lru cache \<Rightarrow> (rdb_error option \<times> lru cache) outcome" where
  "rdb_parse E s c =
     (case read_full (int (length RDBMagic)) s of
        None \<Rightarrow> Ret (Some FailedMagic, c)
      | Some (magic, s1) \<Rightarrow>
          if magic \<noteq> RDBMagic then Ret (Some (InvalidMagic magic), c)
          else (case s1 of
             [] \<Rightarrow> Ret (Some FailedVersion, c)
           | version # s2 \<Rightarrow>
               if of_char version \<noteq> RDBVersion then Ret (Some (UnsupportedVersion (of_char version)), c)
               else (case read_le 2 s2 of
                  None \<Rightarrow> Ret (Some FailedShardCount, c)
                | Some (shardCount, s3) \<Rightarrow> load_shards E 0 s3 c)))"

text \<open>\<open>Load\<close>: a missing file is not an error.\<close>

definition RDB_Load :: "load_env \<Rightarrow> RDBConfig \<Rightarrow> files \<Rightarrow> lru cache \<Rightarrow> (rdb_error option \<times> lru cache) outcome" where
  "RDB_Load E cfg f c =
     (case f (RDB_Path cfg) of
        None \<Rightarrow> Ret (None, c)
      | Some s \<Rightarrow> rdb_parse E s c)"

end
