(* ===== verification/RdbProps.thy ===== *)
theory RdbProps
  imports Rdb
begin

section \<open>Correctness of RDB snapshots\<close>

text \<open>
  The round trip of the binary format: field by field, item by item, shard by shard, and from
  there that a server which loads the snapshot answers every GET as the one that saved it.
  Then what the format cannot hold, and what a load does with a file that is not a snapshot or
  comes from a server with more shards.
\<close>

subsection \<open>Fields\<close>

lemma length_le_bytes [simp]: "length (le_bytes n x) = n"
  by (induction n arbitrary: x) simp_all

lemma le_val_le_bytes: "le_val (le_bytes n x) = x mod 256 ^ n"
proof (induction n arbitrary: x)
  case (Suc n)
  have "of_char (char_of (x mod 256) :: char) = x mod 256" by (simp add: of_char_of)
  with Suc [of "x div 256"] show ?case
    by (simp add: zmod_zmult2_eq [of "256 ^ n" x 256] mult.commute)
qed simp

lemma read_le_append [simp]: "read_le n (le_bytes n x @ s) = Some (x mod 256 ^ n, s)"
  by (simp add: read_le_def le_val_le_bytes)

lemma read_full_append [simp]: "read_full (int (length k)) (k @ s) = Some (k, s)"
  by (simp add: read_full_def)

lemma wrap64_mod [simp]: "wrap64 (x mod 2 ^ 64) = wrap64 x"
  by (simp add: wrap64_def mod_add_left_eq)

subsection \<open>Items\<close>

definition item_fits :: "string \<times> item \<Rightarrow> bool" where
  "item_fits p \<longleftrightarrow> int (length (fst p)) < 2 ^ 16 \<and> int (length (Value (snd p))) < 2 ^ 32 \<and> in_int64 (Expiration (snd p))"

lemma load_save_item:
  assumes "item_fits (k, i)"
  shows "load_item (save_item secs now (k, i) @ s) = Inr (k, Value i, Expiration i, s)"
proof -
  have "int (length k) mod 65536 = int (length k)"
    and "int (length (Value i)) mod 4294967296 = int (length (Value i))"
    and "wrap64 (Expiration i) = Expiration i"
    using assms by (simp_all add: item_fits_def wrap64_id)
  then show ?thesis
    using wrap64_mod [of "Expiration i"] read_le_append [of 2 "int (length k)"]
      read_le_append [of 4 "int (length (Value i))"] read_le_append [of 8 "Expiration i" s]
    by (simp add: load_item_def save_item_def Let_def)
qed

text \<open>The items that a load keeps of those in the file.\<close>

fun kept :: "(nat \<Rightarrow> int) \<Rightarrow> nat \<Rightarrow> item gomap \<Rightarrow> item gomap" where
  "kept now j [] = []"
| "kept now j ((k, i) # xs) =
     (if Expiration i > 0 \<and> now j > Expiration i then [] else [(k, i\<lparr>CreatedAt := 0\<rparr>)]) @ kept now (j + 1) xs"

lemma kept_keys: "fst ` set (kept now j xs) \<subseteq> fst ` set xs"
  by (induction now j xs rule: kept.induct) auto

lemma kept_ok: "map_ok xs \<Longrightarrow> map_ok (kept now j xs)"
proof (induction now j xs rule: kept.induct)
  case (2 now j k i xs)
  then show ?case using kept_keys [of now "j + 1" xs] by (auto simp: map_ok_def)
qed simp

lemma calculateSize_created [simp]:
  "calculateSize k (DString (Value (i\<lparr>CreatedAt := 0\<rparr>))) = calculateSize k (DString (Value i))"
  by simp

lemma kept_limits: "limits_ok c m xs \<Longrightarrow> limits_ok c m (kept now j xs)"
proof -
  have "mem_of (kept now j xs) \<le> mem_of xs \<and> length (kept now j xs) \<le> length xs"
  proof (induction now j xs rule: kept.induct)
    case (2 now j k i xs)
    then show ?case using calculateSize_nonneg [of k "DString (Value i)"]
      by (simp del: calculateSize_nonneg)
  qed simp
  then show "limits_ok c m xs \<Longrightarrow> limits_ok c m (kept now j xs)" by (auto simp: limits_ok_def)
qed

lemma kept_live:
  assumes "map_ok xs" and "\<And>n. now n \<le> t"
  shows "live t (map_of (kept now j xs) k) = live t (map_of xs k)"
  using assms(1)
proof (induction xs arbitrary: j)
  case (Cons p xs)
  obtain k1 i where p: "p = (k1, i)" by force
  with Cons.prems have ok: "map_ok xs" and new: "k1 \<notin> fst ` set xs" by (auto simp: map_ok_def)
  then have none: "map_of (kept now (j + 1) xs) k1 = None"
    using kept_keys [of now "j + 1" xs] by (auto simp: map_of_eq_None_iff)
  have "IsExpired t i" if "Expiration i > 0" "now j > Expiration i"
    using that assms(2) [of j] by (auto simp: IsExpired_def)
  moreover have "live t (Some (i\<lparr>CreatedAt := 0\<rparr>)) = live t (Some i)"
    by (simp add: live_def IsExpired_def)
  ultimately show ?case using Cons.IH [OF ok] none p by auto
qed simp

lemma load_save_items:
  assumes "\<forall>p \<in> set xs. item_fits p" and "map_ok (acc @ xs)"
  shows "load_items now j (length xs) (concat (map (\<lambda>p. save_item secs (tick (fst p)) p) xs) @ s) acc
    = Inr (acc @ kept now j xs, s)"
  using assms
proof (induction xs arbitrary: j acc)
  case (Cons p xs)
  obtain k i where p: "p = (k, i)" by force
  have new: "k \<notin> fst ` set acc" and "item_fits (k, i)" and ok: "map_ok (acc @ xs)"
    using Cons.prems p by (auto simp: map_ok_def)
  moreover have "map_ok ((acc @ [(k, i\<lparr>CreatedAt := 0\<rparr>)]) @ xs)"
    using Cons.prems(2) p by (auto simp: map_ok_def)
  moreover have eq: "\<lparr>Value = Value i, Expiration = Expiration i, CreatedAt = 0\<rparr> = i\<lparr>CreatedAt := 0\<rparr>"
    by simp
  ultimately show ?case
    using Cons.IH [of "acc @ [(k, i\<lparr>CreatedAt := 0\<rparr>)]"] Cons.IH [of acc] Cons.prems(1) p
    by (simp add: load_save_item put_new eq)
qed simp

subsection \<open>Shards\<close>

text \<open>The items that \<open>Save\<close> writes for shard \<open>n\<close>, and what \<open>Load\<close> restores from the file.\<close>

definition saved :: "save_env \<Rightarrow> nat \<Rightarrow> lru cache \<Rightarrow> item gomap" where
  "saved E n c = range_map (sv_range E n)
     (Shard_GetItems lru_evictor (sv_now E n) (sv_iter E n) (shards c ! n))"

fun restored :: "save_env \<Rightarrow> load_env \<Rightarrow> nat \<Rightarrow> nat list \<Rightarrow> lru cache \<Rightarrow> (int \<times> map_order \<times> item gomap) list" where
  "restored E L r [] c = []"
| "restored E L r (n # ns) c =
     (if saved E n c = [] then restored E L r ns c
      else (int n, ld_range L r, kept (ld_now L r) 0 (saved E n c)) # restored E L (r + 1) ns c)"

definition orders_ok :: "save_env \<Rightarrow> load_env \<Rightarrow> bool" where
  "orders_ok E L \<longleftrightarrow> (\<forall>n. order_ok (sv_iter E n) \<and> order_ok (sv_range E n) \<and> order_ok (ld_range L n))"

lemma saved_eq:
  assumes "lru_bounded cap m (evictor (shards c ! n))" and "orders_ok E L"
  shows "map_ok (saved E n c)" and "limits_ok cap m (saved E n c)"
    and "set (saved E n c) \<subseteq> set (lru_abs (evictor (shards c ! n)))"
    and "sv_now E n \<le> t \<Longrightarrow> live t (map_of (saved E n c) k) = live t (shard_contents c n k)"
proof -
  let ?l = "evictor (shards c ! n)" and ?its = "Shard_GetItems lru_evictor (sv_now E n) (sv_iter E n) (shards c ! n)"
  have it: "order_ok (sv_iter E n)" "order_ok (sv_range E n)" and ok: "lru_ok ?l"
    using assms by (simp_all add: orders_ok_def lru_bounded_def)
  note g = Shard_GetItems_eq [OF ok it(1), of "sv_now E n"]
  have ms: "mset (saved E n c) = mset (filter (\<lambda>(k, i). \<not> IsExpired (sv_now E n) i) (lru_abs ?l))"
    using mset_range_map [OF it(2) g(3)] g(2) by (simp add: saved_def)
  show "map_ok (saved E n c)" by (simp add: saved_def map_ok_range_map [OF it(2) g(3)])
  show "limits_ok cap m (saved E n c)"
    using limits_ok_mset [OF ms] limits_ok_filter [OF lru_bounded_limits [OF assms(1)]] by blast
  show "set (saved E n c) \<subseteq> set (lru_abs ?l)"
    using mset_eq_setD [OF ms] by auto
  show "live t (map_of (saved E n c) k) = live t (shard_contents c n k)" if "sv_now E n \<le> t"
    using map_of_range_map [OF it(2) g(3)] GetItems_live [OF ok it(1) that, of k]
    by (simp add: saved_def shard_contents_def)
qed

lemma save_shard_eq:
  assumes "order_ok (sv_range E n)"
  shows "save_shard E n (shards c ! n) =
    (if saved E n c = [] then []
     else le_bytes 2 (int n) @ le_bytes 4 (int (length (saved E n c))) @
       concat (map (\<lambda>p. save_item (sv_secs E) (sv_tick E n (fst p)) p) (saved E n c)))"
proof -
  let ?its = "Shard_GetItems lru_evictor (sv_now E n) (sv_iter E n) (shards c ! n)"
  have "length (saved E n c) = length ?its" by (simp add: saved_def length_range_map [OF assms])
  moreover from this have "saved E n c = [] \<longleftrightarrow> ?its = []" by (metis length_0_conv)
  ultimately show ?thesis by (simp add: save_shard_def Let_def saved_def)
qed

text \<open>The sizes that fit the format's fields.\<close>

definition rdb_fits :: "lru cache \<Rightarrow> bool" where
  "rdb_fits c \<longleftrightarrow> int (length (shards c)) \<le> 2 ^ 16 \<and>
     (\<forall>s \<in> set (shards c). int (length (lru_abs (evictor s))) < 2 ^ 32 \<and> list_all item_fits (lru_abs (evictor s)))"

lemma load_saved_shard:
  assumes "n < length (shards c)" and "rdb_fits c" and "map_ok (saved E n c)"
    and "set (saved E n c) \<subseteq> set (lru_abs (evictor (shards c ! n)))"
    and "order_ok (sv_range E n)" and "saved E n c \<noteq> []"
  shows "load_shards L r (save_shard E n (shards c ! n) @ out) c0 =
    (case Cache_Restore (ld_range L r) (int n) (kept (ld_now L r) 0 (saved E n c)) c0 of
       Panic \<Rightarrow> Panic | Ret c1 \<Rightarrow> load_shards L (r + 1) out c1)"
proof -
  let ?xs = "saved E n c"
  have sh: "int (length (lru_abs (evictor (shards c ! n)))) < 2 ^ 32" "\<forall>p \<in> set (lru_abs (evictor (shards c ! n))). item_fits p"
    and "int (length (shards c)) \<le> 2 ^ 16"
    using assms(2) nth_mem [OF assms(1)] by (auto simp: rdb_fits_def list_all_iff simp del: length_lru_abs)
  with assms(1) have n: "int n mod 65536 = int n" by simp
  have "distinct ?xs" using assms(3) by (auto simp: map_ok_def distinct_map)
  then have "length ?xs = card (set ?xs)" by (rule distinct_card [symmetric])
  also have "\<dots> \<le> card (set (lru_abs (evictor (shards c ! n))))" by (rule card_mono [OF _ assms(4)]) simp
  also have "\<dots> \<le> length (lru_abs (evictor (shards c ! n)))" by (rule card_length)
  finally have len: "int (length ?xs) mod 4294967296 = int (length ?xs)" using sh(1) by simp
  let ?body = "concat (map (\<lambda>p. save_item (sv_secs E) (sv_tick E n (fst p)) p) ?xs)"
  have "\<forall>p \<in> set ?xs. item_fits p" using sh(2) assms(4) by blast
  from load_save_items [OF this, of "[]"] assms(3)
  have body: "load_items (ld_now L r) 0 (length ?xs) (?body @ out) [] = Inr (kept (ld_now L r) 0 ?xs, out)"
    by simp
  have ne: "le_bytes 2 x \<noteq> []" for x
    using length_le_bytes [of 2 x] by (cases "le_bytes 2 x") simp_all
  have "load_shards L r (le_bytes 2 (int n) @ le_bytes 4 (int (length ?xs)) @ ?body @ out) c0 =
    (case Cache_GetShard (int n) c0 of Panic \<Rightarrow> Panic
     | Ret shard \<Rightarrow> (case Cache_Restore (ld_range L r) (int n) (kept (ld_now L r) 0 ?xs) c0 of
       Panic \<Rightarrow> Panic | Ret c1 \<Rightarrow> load_shards L (r + 1) out c1))"
    using ne by (subst load_shards.simps) (simp add: n len body del: le_bytes.simps cong: outcome.case_cong)
  moreover have "Cache_Restore (ld_range L r) (int n) (kept (ld_now L r) 0 ?xs) c0 = Panic"
    if "Cache_GetShard (int n) c0 = Panic"
    using that by (simp add: Cache_Restore_def)
  ultimately show ?thesis
    using assms(6) by (simp add: save_shard_eq [OF assms(5)] split: outcome.split)
qed

lemma save_shards_eq:
  "list_all (\<lambda>n. n < length (shards c)) ns \<Longrightarrow>
     save_shards E ns c = Ret (concat (map (\<lambda>n. save_shard E n (shards c ! n)) ns))"
  by (induction E ns c rule: save_shards.induct) (simp_all add: Cache_GetShard_def)

lemma load_saved_shards:
  assumes "list_all (\<lambda>n. n < length (shards c)) ns" and "rdb_fits c" and "orders_ok E L"
    and "cache_ok (lru_bounded cap m) c"
  shows "load_shards L r (concat (map (\<lambda>n. save_shard E n (shards c ! n)) ns)) c0
    = (case restore_all (restored E L r ns c) c0 of Panic \<Rightarrow> Panic | Ret c' \<Rightarrow> Ret (None, c'))"
  using assms(1)
proof (induction ns arbitrary: r c0)
  case Nil
  then show ?case by (simp add: load_shards.simps)
next
  case (Cons n ns)
  then have n: "n < length (shards c)" and ns: "list_all (\<lambda>n. n < length (shards c)) ns" by simp_all
  have "lru_bounded cap m (evictor (shards c ! n))"
    using assms(4) n by (auto simp: cache_ok_def intro: shard_ok_inv)
  note s = saved_eq [OF this assms(3)]
  have it: "order_ok (sv_range E n)" using assms(3) by (simp add: orders_ok_def)
  show ?case
  proof (cases "saved E n c = []")
    case True
    with Cons.IH [OF ns] show ?thesis by (simp add: save_shard_eq [OF it])
  next
    case False
    with load_saved_shard [OF n assms(2) s(1,3) it False] Cons.IH [OF ns]
    show ?thesis by (simp split: outcome.split)
  qed
qed

lemma restored_map:
  "map fst (restored E L r ns c) = map int (filter (\<lambda>n. saved E n c \<noteq> []) ns)"
  by (induction E L r ns c rule: restored.induct) simp_all

lemma restored_fits:
  assumes "list_all (\<lambda>n. n < length (shards c)) ns" and "orders_ok E L"
    and "cache_ok (lru_bounded cap m) c"
  shows "\<forall>e \<in> set (restored E L r ns c). entry_fits cap m e"
  using assms
proof (induction E L r ns c rule: restored.induct)
  case (2 E L r n ns c)
  then have "lru_bounded cap m (evictor (shards c ! n))" by (auto simp: cache_ok_def intro: shard_ok_inv)
  note s = saved_eq(1,2) [OF this "2.prems"(2)]
  from 2 show ?case
    by (auto simp: entry_fits_def kept_ok [OF s(1)] kept_limits [OF s(2)] orders_ok_def)
qed simp

text \<open>Of every shard, what was restored and what was there agree on the items alive at \<open>t\<close>.\<close>

definition clocks_before :: "save_env \<Rightarrow> load_env \<Rightarrow> int \<Rightarrow> bool" where
  "clocks_before E L t \<longleftrightarrow> (\<forall>n. sv_now E n \<le> t) \<and> (\<forall>r i. ld_now L r i \<le> t)"

lemma restored_live:
  assumes "list_all (\<lambda>n. n < length (shards c)) ns" and "orders_ok E L"
    and "cache_ok (lru_bounded cap m) c" and "clocks_before E L t" and "distinct ns" and "n \<in> set ns"
  shows "live t (case map_of (restored E L r ns c) (int n) of None \<Rightarrow> None | Some (it, its) \<Rightarrow> map_of its k)
    = live t (shard_contents c n k)"
  using assms
proof (induction E L r ns c rule: restored.induct)
  case (2 E L r n' ns c)
  have b: "lru_bounded cap m (evictor (shards c ! n'))"
    using 2 by (auto simp: cache_ok_def intro: shard_ok_inv)
  note s = saved_eq [OF b "2.prems"(2)]
  have clk: "sv_now E n' \<le> t" "\<And>i. ld_now L r i \<le> t"
    using "2.prems"(4) by (simp_all add: clocks_before_def)
  show ?case
  proof (cases "n = n'")
    case True
    have "int n' \<notin> fst ` set (restored E L r' ns c)" for r'
      using "2.prems"(5) arg_cong [OF restored_map, of set E L r' ns c] by (auto simp: image_iff)
    then have none: "map_of (restored E L r' ns c) (int n') = None" for r'
      by (simp only: map_of_eq_None_iff not_False_eq_True)
    show ?thesis
      using True none s(4) [OF clk(1), of k] kept_live [where now = "ld_now L r", OF s(1) clk(2), of 0 k]
      by auto
  qed (use 2 in auto)
qed simp

lemma read_full_taken: "read_full n s = Some (x, s') \<Longrightarrow> 0 \<le> n \<Longrightarrow> int (length x) \<le> n"
  by (auto simp: read_full_def split: if_splits)

lemma rdb_bytes_returns:
  assumes "cache_ok I c"
  shows "\<exists>bytes. rdb_bytes E c = Ret bytes"
proof -
  have "list_all (\<lambda>n. n < length (shards c)) [0..<length (shards c)]" by (simp add: list_all_iff)
  from save_shards_eq [OF this, of E] cache_okD [OF assms] show ?thesis
    by (simp add: rdb_bytes_def Cache_NumShards_def cache_size_ok_def)
qed

lemma rdb_parse_saved:
  "rdb_parse L (RDBMagic @ [char_of RDBVersion] @ le_bytes 2 n @ out) c0 = load_shards L 0 out c0"
proof -
  have "(of_char (char_of RDBVersion :: char) :: int) = RDBVersion"
    by (simp add: RDBVersion_def of_char_of)
  moreover have "read_full (int (length RDBMagic)) (RDBMagic @ s) = Some (RDBMagic, s)" for s by simp
  ultimately show ?thesis
    using read_le_append [of 2 n out]
    by (simp add: rdb_parse_def del: read_full_append le_bytes.simps)
qed

lemma rdb_parse_bytes:
  assumes "rdb_bytes E c = Ret bytes" and "rdb_fits c" and "orders_ok E L" and "cache_ok (lru_bounded cap m) c"
  shows "rdb_parse L bytes c0 =
    (case restore_all (restored E L 0 [0..<length (shards c)] c) c0 of Panic \<Rightarrow> Panic | Ret c' \<Rightarrow> Ret (None, c'))"
proof -
  have n: "Cache_NumShards c = int (length (shards c))"
    using cache_okD [OF assms(4)] by (simp add: cache_size_ok_def Cache_NumShards_def)
  have all: "list_all (\<lambda>n. n < length (shards c)) [0..<length (shards c)]" by (simp add: list_all_iff)
  have "bytes = RDBMagic @ [char_of RDBVersion] @ le_bytes 2 (Cache_NumShards c) @
      concat (map (\<lambda>n. save_shard E n (shards c ! n)) [0..<length (shards c)])"
    using assms(1) save_shards_eq [OF all, of E] n by (simp add: rdb_bytes_def)
  then show ?thesis
    using load_saved_shards [OF all assms(2,3,4)] by (simp only: rdb_parse_saved)
qed

subsection \<open>Properties\<close>

text \<open>The round trip of the file format.  Take any cache that arose from a new one by Set, Get,
  Delete, TTL and clean-up passes, whose keys, values and item counts fit the format's fields.
  Its RDB file loads without an error into a new cache with the same configuration, and from
  then on (at any time after the two clock readings) GET gives the same result for every key.
  Evictions during the load lose nothing, although the items arrive in another order.\<close>

lemma rdb_roundtrip:
  assumes "list_all op_ok ops" and "c = fold (cache_step lru_evictor) ops (NewCache cfg)"
    and "rdb_fits c" and "orders_ok E L" and "clocks_before E L t"
  shows "\<exists>bytes c'. rdb_bytes E c = Ret bytes \<and> rdb_parse L bytes (NewCache cfg) = Ret (None, c')
    \<and> (\<forall>k. fst (Cache_Get lru_evictor t k c') = fst (Cache_Get lru_evictor t k c))"
proof -
  let ?cap = "EvictorCapacity cfg" and ?m = "MaxMemory cfg" and ?ns = "[0..<length (shards c)]"
  have ok: "cache_ok (lru_bounded ?cap ?m) c" unfolding assms(2) by (rule run_bounded [OF assms(1)])
  have all: "list_all (\<lambda>n. n < length (shards c)) ?ns" by (simp add: list_all_iff)
  let ?rs = "restored E L 0 ?ns c"
  have keys: "map fst ?rs = map int (filter (\<lambda>n. saved E n c \<noteq> []) ?ns)" by (rule restored_map)
  have "distinct (map fst ?rs)" unfolding keys by (simp add: distinct_map)
  moreover have "fst e < int (length (shards c))" if "e \<in> set ?rs" for e
    using imageI [OF that, of fst] arg_cong [OF keys, of set] by auto
  moreover have "agrees_at t c ?rs"
    unfolding agrees_at_def using restored_live [OF all assms(4) ok assms(5)] by simp
  ultimately obtain c' where c': "restore_all ?rs (NewCache cfg) = Ret c'"
      "\<forall>k. fst (Cache_Get lru_evictor t k c') = fst (Cache_Get lru_evictor t k c)"
    using restore_run [OF assms(1,2) restored_fits [OF all assms(4) ok, of 0]] by blast
  obtain bytes where b: "rdb_bytes E c = Ret bytes" using rdb_bytes_returns [OF ok] by blast
  have "rdb_parse L bytes (NewCache cfg) = Ret (None, c')"
    using rdb_parse_bytes [OF b assms(3,4) ok, of "NewCache cfg"] c'(1) by simp
  with b c'(2) show ?thesis by blast
qed

definition witness_save :: save_env where
  "witness_save = \<lparr>sv_now = \<lambda>_. 5, sv_tick = \<lambda>_ _. 6, sv_iter = \<lambda>_. rev, sv_range = \<lambda>_. id, sv_secs = \<lambda>d. d div 1000000000\<rparr>"

definition witness_load :: load_env where
  "witness_load = \<lparr>ld_now = \<lambda>_ _. 8, ld_range = \<lambda>_. rev\<rparr>"

lemma witness_envs: "orders_ok witness_save witness_load" "clocks_before witness_save witness_load 9"
  by (simp_all add: orders_ok_def clocks_before_def witness_save_def witness_load_def order_ok_rev)

lemma rdb_roundtrip_witness:
  "\<exists>bytes c'. rdb_bytes witness_save (fold (cache_step lru_evictor)
         [OSet 1 ''a'' ''x'' 0, OSet 3 ''b'' ''y'' 20] (NewCache witness_cfg)) = Ret bytes
     \<and> rdb_parse witness_load bytes (NewCache witness_cfg) = Ret (None, c')
     \<and> fst (Cache_Get lru_evictor 9 ''a'' c') = fst (Cache_Get lru_evictor 9 ''a''
          (fold (cache_step lru_evictor) [OSet 1 ''a'' ''x'' 0, OSet 3 ''b'' ''y'' 20] (NewCache witness_cfg)))"
proof -
  let ?ops = "[OSet 1 ''a'' ''x'' 0, OSet 3 ''b'' ''y'' 20]"
  have "rdb_fits (fold (cache_step lru_evictor) ?ops (NewCache witness_cfg))" by code_simp
  from rdb_roundtrip [OF _ refl this witness_envs] show ?thesis by auto
qed

text \<open>C29: A save is atomic: wherever a crash or an error cuts off the file operations of Save, the
  file under the configured path is the old one, unless all of them were done, and then it holds
  exactly the bytes of the new snapshot; no other file but the temporary one is touched.\<close>

theorem rdb_save_atomic:
  assumes "concat chunks = bytes"
  shows "fs_run (take n (RDB_Save_ops cfg chunks)) f (RDB_Path cfg) \<in> {f (RDB_Path cfg), Some bytes}
    \<and> fs_run (RDB_Save_ops cfg chunks) f (RDB_Path cfg) = Some bytes
    \<and> (\<forall>p. p \<notin> {RDB_Path cfg, RDB_Path cfg @ ''.tmp''} \<longrightarrow>
          fs_run (take n (RDB_Save_ops cfg chunks)) f p = f p)"
proof -
  have ne: "RDB_Path cfg @ ''.tmp'' \<noteq> RDB_Path cfg" by simp
  note all = write_and_rename_all [OF ne, of chunks f]
  show ?thesis
    using assms ne write_and_rename_prefix [of n "RDB_Path cfg @ ''.tmp''" "RDB_Path cfg" chunks _ f]
    by (cases "take n (RDB_Save_ops cfg chunks) = RDB_Save_ops cfg chunks")
      (auto simp: RDB_Save_ops_def all)
qed

lemma rdb_save_atomic_witness:
  "fs_run (take 3 (RDB_Save_ops (RDB (Persistence DefaultConfig)) [''PEN'', ''DEM''])) (\<lambda>_. Some ''old'') ''pendem.rdb''
     \<in> {Some ''old'', Some ''PENDEM''}"
proof -
  have "concat [''PEN'', ''DEM''] = ''PENDEM''" by simp
  from rdb_save_atomic [OF this, of 3 "RDB (Persistence DefaultConfig)" "\<lambda>_. Some ''old''"]
  show ?thesis by (simp add: DefaultConfig_def)
qed

lemma restore_all_panics:
  "(\<exists>e \<in> set rs. fst e \<ge> int (length (shards c))) \<Longrightarrow> restore_all rs c = Panic"
proof (induction rs c rule: restore_all.induct)
  case (2 sid it its rs c)
  show ?case
  proof (cases "Cache_Restore it sid its c")
    case (Ret c1)
    then have "sid < int (length (shards c))" and "length (shards c1) = length (shards c)"
      by (auto simp: Cache_Restore_def Cache_GetShard_def split: if_splits)
    with 2 Ret show ?thesis by auto
  qed simp
qed simp

text \<open>A snapshot ties the server to its number of shards: when a shard beyond those of the
  loading server had a live string at the time of the save, loading the file panics, so the
  server with fewer shards does not start.\<close>

theorem rdb_fewer_shards_panics:
  assumes "list_all op_ok ops" and "c = fold (cache_step lru_evictor) ops (NewCache cfg)"
    and "rdb_fits c" and "orders_ok E L" and "rdb_bytes E c = Ret bytes"
    and "n < length (shards c)" and "length (shards c0) \<le> n"
    and "Shard_GetItems lru_evictor (sv_now E n) (sv_iter E n) (shards c ! n) \<noteq> []"
  shows "rdb_parse L bytes c0 = Panic"
proof -
  let ?ns = "[0..<length (shards c)]"
  have ok: "cache_ok (lru_bounded (EvictorCapacity cfg) (MaxMemory cfg)) c"
    unfolding assms(2) by (rule run_bounded [OF assms(1)])
  have "length (saved E n c) = length (Shard_GetItems lru_evictor (sv_now E n) (sv_iter E n) (shards c ! n))"
    using assms(4) by (simp add: saved_def length_range_map orders_ok_def)
  with assms(8) have "saved E n c \<noteq> []" by auto
  with assms(6) have "int n \<in> fst ` set (restored E L 0 ?ns c)"
    using arg_cong [OF restored_map [of E L 0 ?ns c], of set] by simp
  then obtain e where e: "e \<in> set (restored E L 0 ?ns c)" "fst e = int n" by force
  with assms(7) have "restore_all (restored E L 0 ?ns c) c0 = Panic"
    by (intro restore_all_panics bexI [of _ e]) simp_all
  then show ?thesis by (simp add: rdb_parse_bytes [OF assms(5,3,4) ok])
qed

definition two_shards :: EngineConfig where
  "two_shards = witness_cfg\<lparr>ShardCount := 2\<rparr>"

definition one_shard :: EngineConfig where
  "one_shard = witness_cfg\<lparr>ShardCount := 1\<rparr>"

lemma rdb_fewer_shards_panics_witness:
  "\<exists>bytes. rdb_bytes witness_save (fold (cache_step lru_evictor)
         [OSet 1 ''a'' ''x'' 0, OSet 1 ''b'' ''y'' 0] (NewCache two_shards)) = Ret bytes
     \<and> rdb_parse witness_load bytes (NewCache one_shard) = Panic"
proof -
  let ?ops = "[OSet 1 ''a'' ''x'' 0, OSet 1 ''b'' ''y'' 0]"
  let ?c = "fold (cache_step lru_evictor) ?ops (NewCache two_shards)"
  have fits: "rdb_fits ?c" by code_simp
  have some: "Shard_GetItems lru_evictor (sv_now witness_save 1) (sv_iter witness_save 1) (shards ?c ! 1) \<noteq> []"
    by code_simp
  have len: "1 < length (shards ?c)" "length (shards (NewCache one_shard)) \<le> 1" by code_simp+
  obtain bytes where b: "rdb_bytes witness_save ?c = Ret bytes"
    using rdb_bytes_returns [OF run_bounded [of ?ops two_shards]] by auto
  have "rdb_parse witness_load bytes (NewCache one_shard) = Panic"
    by (rule rdb_fewer_shards_panics [OF _ refl fits witness_envs(1) b len some]) simp
  with b show ?thesis by blast
qed

text \<open>The key length field has 16 bits, the length is not checked: what comes back for a key of
  \<open>2 ^ 16\<close> bytes or more is not that key, whatever follows in the file.\<close>

theorem rdb_long_key_lost:
  assumes "2 ^ 16 \<le> int (length k)"
    and "load_item (save_item secs now (k, i) @ rest) = Inr (k', v', e', rest')"
  shows "k' \<noteq> k"
proof -
  let ?s = "k @ le_bytes 4 (int (length (Value i))) @ Value i @ le_bytes 8 (secs (if Item_TTL now i < 0 then 0 else Item_TTL now i))
      @ le_bytes 8 (Expiration i) @ rest"
  have "read_le 2 (save_item secs now (k, i) @ rest) = Some (int (length k) mod 65536, ?s)"
    using read_le_append [of 2 "int (length k)" ?s] by (simp add: save_item_def Let_def del: le_bytes.simps)
  with assms(2) obtain s2 where "read_full (int (length k) mod 65536) ?s = Some (k', s2)"
    by (auto simp: load_item_def split: option.splits)
  then have "int (length k') \<le> int (length k) mod 65536"
    using read_full_taken by fastforce
  moreover have "int (length k) mod 65536 < 65536" by simp
  moreover have "65536 \<le> int (length k)" using assms(1) by simp
  ultimately have "int (length k') < int (length k)" by linarith
  then show ?thesis by auto
qed

lemma rdb_long_key_lost_witness:
  "\<exists>i rest. load_item (save_item (\<lambda>_. 0) 0 (replicate 65556 (CHR 0x00), i) @ []) = Inr (replicate 20 (CHR 0x00), [], 0, rest)
     \<and> replicate 20 (CHR 0x00) \<noteq> replicate 65556 (CHR 0x00)"
proof -
  let ?i = "NewItem 0 ''v'' 0" and ?k = "replicate 65556 (CHR 0x00)"
  have "le_bytes 2 65556 = [CHR 0x14, CHR 0x00]" by code_simp
  moreover have "le_val [CHR 0x14, CHR 0x00] = 20" "le_val (replicate 4 (CHR 0x00)) = 0"
    "le_val (replicate 8 (CHR 0x00)) = 0" by code_simp+
  ultimately have eq: "\<exists>rest. load_item (save_item (\<lambda>_. 0) 0 (?k, ?i) @ []) = Inr (replicate 20 (CHR 0x00), [], 0, rest)"
    by (simp add: load_item_def save_item_def Let_def read_le_def read_full_def wrap64_def
        del: le_bytes.simps le_val.simps)
  then obtain rest where "load_item (save_item (\<lambda>_. 0) 0 (?k, ?i) @ []) = Inr (replicate 20 (CHR 0x00), [], 0, rest)" ..
  from rdb_long_key_lost [OF _ this] this show ?thesis by auto
qed

end
