(* ===== verification/Json.thy ===== *)
theory Json
  imports RdbProps GoStrings
begin

section \<open>JSON snapshots\<close>

text \<open>
  Models \<^verbatim>\<open>internal/persistence/json.go\<close>: what is collected and restored, the file operations,
  the rotation of old files and the size formatter.  \<open>json.MarshalIndent\<close> and
  \<open>json.Unmarshal\<close> are the parameters \<open>marshal\<close> and \<open>unmarshal\<close>; \<open>glob\<close> is
  \<open>filepath.Glob\<close> and \<open>mtime\<close> the modification time that \<open>os.Stat\<close> reports.
\<close>

record json_data =
  Version :: string
  Timestamp :: int
  NumShards :: int
  TotalItems :: int
  Shards :: "(int \<times> item gomap) list"

datatype json_error = FailedMarshal | FailedParse | UnsupportedVersion string

subsection \<open>Saving\<close>

fun collect_shards :: "save_env \<Rightarrow> nat list \<Rightarrow> lru cache \<Rightarrow> json_data \<Rightarrow> json_data outcome" where
  "collect_shards E [] c d = Ret d"
| "collect_shards E (n # ns) c d =
     (case Cache_GetShard (int n) c of
        Panic \<Rightarrow> Panic
      | Ret shard \<Rightarrow>
          let its = Shard_GetItems lru_evictor (sv_now E n) (sv_iter E n) shard in
          collect_shards E ns c
            (d\<lparr>Shards := Shards d @ [(int n, its)], TotalItems := TotalItems d + int (length its)\<rparr>))"

definition collectData :: "save_env \<Rightarrow> int \<Rightarrow> lru cache \<Rightarrow> json_data outcome" where
  "collectData E unix c =
     collect_shards E [0..<nat (Cache_NumShards c)] c
       \<lparr>Version = ''1.0'', Timestamp = unix, NumShards = Cache_NumShards c, TotalItems = 0, Shards = []\<rparr>"

text \<open>
  The rotation: of the files that match \<open>path.*\<close> and the snapshot itself, the oldest ones
  beyond \<open>MaxSnapshots\<close> are removed.  \<open>sort.Slice\<close> is the insertion sort it is for at most
  twelve files; a file that is gone when it is compared is not before anything.
\<close>

definition older :: "(string \<Rightarrow> int option) \<Rightarrow> string \<Rightarrow> string \<Rightarrow> bool" where
  "older mtime p q = (case (mtime p, mtime q) of (Some a, Some b) \<Rightarrow> a < b | _ \<Rightarrow> False)"

definition rotateSnapshots ::
  "(string \<Rightarrow> string list option) \<Rightarrow> (string \<Rightarrow> int option) \<Rightarrow> JSONConfig \<Rightarrow> files \<Rightarrow> files" where
  "rotateSnapshots glob mtime cfg f =
     (case glob (JSON_Path cfg @ ''.*'') of
        None \<Rightarrow> f
      | Some matches \<Rightarrow>
          (let fl = sort_Slice (older mtime) (matches @ [JSON_Path cfg]) in
           if int (length fl) > MaxSnapshots cfg
           then fold (\<lambda>p f. f(p := None)) (take (nat (int (length fl) - MaxSnapshots cfg)) fl) f
           else f))"

definition JSON_Save ::
  "save_env \<Rightarrow> int \<Rightarrow> (json_data \<Rightarrow> string option) \<Rightarrow> (string \<Rightarrow> string list option) \<Rightarrow>
     (string \<Rightarrow> int option) \<Rightarrow> JSONConfig \<Rightarrow> lru cache \<Rightarrow> files \<Rightarrow> (json_error option \<times> files) outcome" where
  "JSON_Save E unix marshal glob mtime cfg c f =
     (case collectData E unix c of
        Panic \<Rightarrow> Panic
      | Ret d \<Rightarrow>
          (case marshal d of
             None \<Rightarrow> Ret (Some FailedMarshal, f)
           | Some bytes \<Rightarrow>
               (let f1 = fs_run (write_and_rename (JSON_Path cfg @ ''.tmp'') (JSON_Path cfg) [bytes]) f
                in Ret (None, if MaxSnapshots cfg > 0 then rotateSnapshots glob mtime cfg f1 else f1))))"

subsection \<open>Loading\<close>

fun restore_shards :: "load_env \<Rightarrow> nat \<Rightarrow> (int \<times> item gomap) list \<Rightarrow> lru cache \<Rightarrow> lru cache outcome" where
  "restore_shards E r [] c = Ret c"
| "restore_shards E r ((sid, its) # rest) c =
     (case Cache_Restore (ld_range E r) sid its c of
        Panic \<Rightarrow> Panic
      | Ret c1 \<Rightarrow> restore_shards E (r + 1) rest c1)"

definition restoreData :: "load_env \<Rightarrow> json_data \<Rightarrow> lru cache \<Rightarrow> (json_error option \<times> lru cache) outcome" where
  "restoreData E d c =
     (if Version d \<noteq> ''1.0'' then Ret (Some (UnsupportedVersion (Version d)), c)
      else case restore_shards E 0 (Shards d) c of Panic \<Rightarrow> Panic | Ret c1 \<Rightarrow> Ret (None, c1))"

definition JSON_Load ::
  "load_env \<Rightarrow> (string \<Rightarrow> json_data option) \<Rightarrow> JSONConfig \<Rightarrow> files \<Rightarrow> lru cache \<Rightarrow>
     (json_error option \<times> lru cache) outcome" where
  "JSON_Load E unmarshal cfg f c =
     (case f (JSON_Path cfg) of
        None \<Rightarrow> Ret (None, c)
      | Some bytes \<Rightarrow>
          (case unmarshal bytes of
             None \<Rightarrow> Ret (Some FailedParse, c)
           | Some d \<Rightarrow> restoreData E d c))"

subsection \<open>Sizes for people\<close>

text \<open>The loop finds the unit; \<open>fmt_1f a b\<close> is \<open>fmt.Sprintf("%.1f", float64(a)/float64(b))\<close>.\<close>

function size_loop :: "int \<Rightarrow> int \<Rightarrow> int \<Rightarrow> int \<times> int" where
  "size_loop n d e = (if n \<ge> 1024 then size_loop (n div 1024) (wrap64 (d * 1024)) (e + 1) else (d, e))"
  by pat_completeness auto
termination
  by (relation "measure (\<lambda>(n, d, e). nat n)") auto

declare size_loop.simps [simp del]

definition formatSize :: "(int \<Rightarrow> int \<Rightarrow> string) \<Rightarrow> int \<Rightarrow> string outcome" where
  "formatSize fmt_1f bytes =
     (if bytes < 1024 then Ret (Itoa bytes @ '' B'')
      else case size_loop (bytes div 1024) 1024 0 of (d, e) \<Rightarrow>
        if 0 \<le> e \<and> e < int (length ''KMGTPE'')
        then Ret (fmt_1f bytes d @ '' '' @ [''KMGTPE'' ! nat e] @ ''B'')
        else Panic)"

subsection \<open>Correctness\<close>

lemma collect_shards_eq:
  "list_all (\<lambda>n. n < length (shards c)) ns \<Longrightarrow> \<exists>t. collect_shards E ns c d = Ret (d\<lparr>TotalItems := t,
     Shards := Shards d @ map (\<lambda>n. (int n, Shard_GetItems lru_evictor (sv_now E n) (sv_iter E n) (shards c ! n))) ns\<rparr>)"
proof (induction E ns c d rule: collect_shards.induct)
  case (1 E c d)
  then show ?case by (intro exI [of _ "TotalItems d"]) simp
next
  case (2 E n ns c d)
  then show ?case by (auto simp: Cache_GetShard_def Let_def)
qed

lemma collectData_eq:
  assumes "cache_ok I c"
  shows "\<exists>d. collectData E unix c = Ret d \<and> Version d = ''1.0'' \<and> Shards d =
    map (\<lambda>n. (int n, Shard_GetItems lru_evictor (sv_now E n) (sv_iter E n) (shards c ! n))) [0..<length (shards c)]"
proof -
  have n: "nat (Cache_NumShards c) = length (shards c)"
    using cache_okD [OF assms] by (simp add: cache_size_ok_def Cache_NumShards_def)
  have "list_all (\<lambda>n. n < length (shards c)) [0..<length (shards c)]" by (simp add: list_all_iff)
  from collect_shards_eq [OF this, of E "\<lparr>Version = ''1.0'', Timestamp = unix, NumShards = Cache_NumShards c,
      TotalItems = 0, Shards = []\<rparr>"]
  show ?thesis unfolding collectData_def n by auto
qed

lemma restore_shards_all:
  "restore_shards L r xs c = restore_all (map (\<lambda>(j, sid, its). (sid, ld_range L (r + j), its)) (enumerate 0 xs)) c"
proof -
  have "restore_shards L (r + i) xs c
      = restore_all (map (\<lambda>(j, sid, its). (sid, ld_range L (r + j), its)) (enumerate i xs)) c" for i
    by (induction xs arbitrary: i c) (auto split: outcome.split, metis add_Suc_right)
  from this [of 0] show ?thesis by simp
qed

text \<open>Which files a JSON save touches: the snapshot, its temporary file, and those of the rotation.\<close>

lemma remove_files: "fold (\<lambda>p f. f(p := None)) ps g p = (if p \<in> set ps then None else g p)"
  by (induction ps arbitrary: g) auto

definition json_files :: "(string \<Rightarrow> string list option) \<Rightarrow> JSONConfig \<Rightarrow> string set" where
  "json_files glob cfg = {JSON_Path cfg, JSON_Path cfg @ ''.tmp''}
     \<union> (case glob (JSON_Path cfg @ ''.*'') of None \<Rightarrow> {} | Some matches \<Rightarrow> set matches)"

lemma rotate_frame:
  assumes "p \<notin> json_files glob cfg"
  shows "rotateSnapshots glob mtime cfg f p = f p"
proof (cases "glob (JSON_Path cfg @ ''.*'')")
  case (Some matches)
  let ?s = "sort_Slice (older mtime) (matches @ [JSON_Path cfg])"
  have "set ?s = set (matches @ [JSON_Path cfg])" by (metis mset_sort_Slice set_mset_mset)
  then have "p \<notin> set ?s" using assms Some by (simp add: json_files_def)
  then have "p \<notin> set (take n ?s)" for n by (blast dest: in_set_takeD)
  with Some show ?thesis by (simp add: rotateSnapshots_def Let_def remove_files)
qed (simp add: rotateSnapshots_def)

lemma JSON_Save_frame:
  assumes "JSON_Save E unix marshal glob mtime cfg c f = Ret (e, f')" and "p \<notin> json_files glob cfg"
  shows "f' p = f p"
proof -
  have "p \<noteq> JSON_Path cfg" "p \<noteq> JSON_Path cfg @ ''.tmp''" using assms(2) by (auto simp: json_files_def)
  then have "fs_run (write_and_rename (JSON_Path cfg @ ''.tmp'') (JSON_Path cfg) [bytes]) f p = f p" for bytes
    by (simp add: write_and_rename_all)
  with assms show ?thesis
    by (auto simp: JSON_Save_def Let_def rotate_frame split: outcome.splits option.splits if_splits)
qed

subsection \<open>Properties\<close>

text \<open>The round trip of a JSON snapshot.  For any cache that arose from a new one by Set, Get,
  Delete, TTL and clean-up passes: when the JSON decoder gives back the data that was collected,
  restoring it into a new cache with the same configuration reports no error, and from then on
  GET gives the same result for every key.\<close>

theorem json_roundtrip:
  assumes "list_all op_ok ops" and "c = fold (cache_step lru_evictor) ops (NewCache cfg)"
    and "orders_ok E L" and "\<And>n. sv_now E n \<le> t"
    and "collectData E unix c = Ret d" and "marshal d = Some bytes" and "unmarshal bytes = Some d"
    and "f (JSON_Path jcfg) = Some bytes"
  shows "\<exists>c'. JSON_Load L unmarshal jcfg f (NewCache cfg) = Ret (None, c')
    \<and> (\<forall>k. fst (Cache_Get lru_evictor t k c') = fst (Cache_Get lru_evictor t k c))"
proof -
  let ?cap = "EvictorCapacity cfg" and ?m = "MaxMemory cfg" and ?ns = "[0..<length (shards c)]"
  let ?its = "\<lambda>n. Shard_GetItems lru_evictor (sv_now E n) (sv_iter E n) (shards c ! n)"
  let ?rs = "map (\<lambda>n. (int n, ld_range L n, ?its n)) ?ns"
  have ok: "cache_ok (lru_bounded ?cap ?m) c" unfolding assms(2) by (rule run_bounded [OF assms(1)])
  have d: "Version d = ''1.0''" "Shards d = map (\<lambda>n. (int n, ?its n)) ?ns"
    using collectData_eq [OF ok, of E unix] assms(5) by auto
  have orders: "order_ok (sv_iter E n)" "order_ok (ld_range L n)" for n
    using assms(3) by (simp_all add: orders_ok_def)
  have sh: "lru_bounded ?cap ?m (evictor (shards c ! n))" if "n < length (shards c)" for n
    by (rule shard_bounded [OF ok that])
  then have lru: "lru_ok (evictor (shards c ! n))" if "n < length (shards c)" for n
    using that by (simp add: lru_bounded_def)
  have fits: "entry_fits ?cap ?m e" if "e \<in> set ?rs" for e
  proof -
    from that obtain n where n: "e = (int n, ld_range L n, ?its n)" "n < length (shards c)" by auto
    note g = Shard_GetItems_eq [OF lru [OF n(2)] orders(1) [of n], of "sv_now E n"]
    have "limits_ok ?cap ?m (?its n)"
      using limits_ok_mset [OF g(2)] limits_ok_filter [OF lru_bounded_limits [OF sh [OF n(2)]]] by blast
    with n(1) g(3) orders(2) show ?thesis by (simp add: entry_fits_def)
  qed
  have lookup: "map_of ?rs (int n) = Some (ld_range L n, ?its n)" if "n < length (shards c)" for n
    using that by (intro map_of_is_SomeI) (auto simp: distinct_map comp_def)
  have "agrees_at t c ?rs"
    unfolding agrees_at_def
    using lookup GetItems_live [OF lru orders(1) assms(4)] by (simp add: shard_contents_def)
  moreover have "distinct (map fst ?rs)" by (simp add: distinct_map comp_def)
  moreover have "\<forall>e \<in> set ?rs. fst e < int (length (shards c))" by auto
  ultimately obtain c' where c': "restore_all ?rs (NewCache cfg) = Ret c'"
      "\<forall>k. fst (Cache_Get lru_evictor t k c') = fst (Cache_Get lru_evictor t k c)"
    using restore_run [OF assms(1,2)] fits by blast
  have "map (\<lambda>(j, sid, its). (sid, ld_range L (0 + j), its)) (enumerate 0 (map (\<lambda>n. (int n, ?its n)) ?ns)) = ?rs"
    by (rule nth_equalityI) (simp_all add: nth_enumerate_eq)
  then have "restore_shards L 0 (Shards d) (NewCache cfg) = Ret c'"
    using c'(1) by (simp only: d restore_shards_all)
  then show ?thesis using c'(2) d(1) assms(7,8) by (simp add: JSON_Load_def restoreData_def)
qed

lemma json_roundtrip_witness:
  "\<exists>d c'. collectData witness_save 7 (fold (cache_step lru_evictor) [OSet 1 ''a'' ''x'' 0] (NewCache witness_cfg)) = Ret d
     \<and> JSON_Load witness_load (\<lambda>_. Some d) (JSON (Persistence DefaultConfig)) (\<lambda>_. Some ''json'') (NewCache witness_cfg)
         = Ret (None, c')
     \<and> fst (Cache_Get lru_evictor 9 ''a'' c') = fst (Cache_Get lru_evictor 9 ''a''
          (fold (cache_step lru_evictor) [OSet 1 ''a'' ''x'' 0] (NewCache witness_cfg)))"
proof -
  let ?c = "fold (cache_step lru_evictor) [OSet 1 ''a'' ''x'' 0] (NewCache witness_cfg)"
  have "cache_ok (lru_bounded (EvictorCapacity witness_cfg) (MaxMemory witness_cfg)) ?c"
    by (rule run_bounded) simp
  then obtain d where d: "collectData witness_save 7 ?c = Ret d" using collectData_eq by blast
  have "sv_now witness_save n \<le> 9" for n by (simp add: witness_save_def)
  from json_roundtrip [OF _ refl witness_envs(1) this d, of "\<lambda>_. Some ''json''" "''json''" "\<lambda>_. Some d"
      "\<lambda>_. Some ''json''" "JSON (Persistence DefaultConfig)"]
  show ?thesis using d by auto
qed

text \<open>Rotation keeps the newest files: of the snapshot and the files that match its pattern,
  all existing, exactly the smaller of their number and \<open>MaxSnapshots\<close> remain, none that was
  removed is newer than one that was kept, and no other file changes.\<close>

theorem rotate_keeps_newest:
  assumes "glob (JSON_Path cfg @ ''.*'') = Some matches" and "distinct (matches @ [JSON_Path cfg])"
    and "0 < MaxSnapshots cfg"
    and "\<And>p. p \<in> set (matches @ [JSON_Path cfg]) \<Longrightarrow> mtime p = Some (age p) \<and> f p \<noteq> None"
    and "fl = matches @ [JSON_Path cfg]" and "f' = rotateSnapshots glob mtime cfg f"
  shows "int (card {p \<in> set fl. f' p \<noteq> None}) = min (int (length fl)) (MaxSnapshots cfg)
    \<and> (\<forall>p \<in> set fl. \<forall>q \<in> set fl. f' p = None \<longrightarrow> f' q \<noteq> None \<longrightarrow> age p \<le> (age q :: int))
    \<and> (\<forall>p. p \<notin> set fl \<longrightarrow> f' p = f p)"
proof -
  let ?s = "sort_Slice (older mtime) fl" and ?k = "nat (int (length fl) - MaxSnapshots cfg)"
  have ms: "mset ?s = mset fl" by simp
  have len: "length ?s = length fl" and set_s: "set ?s = set fl" using ms by (metis size_mset, metis set_mset_mset)
  have dist: "distinct ?s" using assms(2,5) mset_eq_imp_distinct_iff [OF ms] by simp
  have "sorted (map age ?s)"
    using assms(4,5) by (intro sort_Slice_sorted) (auto simp: older_def)
  then have "sorted (map age (take ?k ?s) @ map age (drop ?k ?s))"
    by (simp only: map_append [symmetric] append_take_drop_id)
  then have order: "age p \<le> age q" if "p \<in> set (take ?k ?s)" "q \<in> set (drop ?k ?s)" for p q
    using that by (auto simp: sorted_append)
  have f': "f' p = (if p \<in> set (take ?k ?s) then None else f p)" for p
    unfolding assms(6) rotateSnapshots_def assms(1) option.case Let_def assms(5) [symmetric] len
    by (simp add: remove_files)
  have split_s: "set fl = set (take ?k ?s) \<union> set (drop ?k ?s)" "set (take ?k ?s) \<inter> set (drop ?k ?s) = {}"
    using set_s dist append_take_drop_id [of ?k ?s] by (metis set_append, metis distinct_append)
  have "{p \<in> set fl. f' p \<noteq> None} = set (drop ?k ?s)"
    using split_s assms(4,5) by (auto simp: f')
  moreover have "card (set (drop ?k ?s)) = length fl - ?k"
    using dist len by (simp add: distinct_card)
  ultimately have "int (card {p \<in> set fl. f' p \<noteq> None}) = min (int (length fl)) (MaxSnapshots cfg)"
    using assms(3) by (simp add: min_def)
  moreover have "age p \<le> age q" if "p \<in> set fl" "q \<in> set fl" "f' p = None" "f' q \<noteq> None" for p q
  proof (rule order)
    have "f p \<noteq> None" using assms(4) that(1) unfolding assms(5) by blast
    with that(3) show "p \<in> set (take ?k ?s)" by (auto simp: f' split: if_splits)
    from that(4) have "q \<notin> set (take ?k ?s)" by (auto simp: f')
    with that(2) split_s(1) show "q \<in> set (drop ?k ?s)" by blast
  qed
  moreover have "f' p = f p" if "p \<notin> set fl" for p using that split_s(1) by (auto simp: f')
  ultimately show ?thesis by blast
qed

lemma rotate_keeps_newest_witness:
  "int (card {p \<in> set [''s.1'', ''s.2'', ''s'']. rotateSnapshots (\<lambda>_. Some [''s.1'', ''s.2''])
       (\<lambda>p. Some (int (length p) mod 3)) \<lparr>JSON_Enabled = True, JSON_Path = ''s'', JSON_Interval = 1, MaxSnapshots = 2\<rparr>
       (\<lambda>_. Some []) p \<noteq> None}) = 2"
  using rotate_keeps_newest [of "\<lambda>_. Some [''s.1'', ''s.2'']"
      "\<lparr>JSON_Enabled = True, JSON_Path = ''s'', JSON_Interval = 1, MaxSnapshots = 2\<rparr>" "[''s.1'', ''s.2'']"
      "\<lambda>p. Some (int (length p) mod 3)" "\<lambda>p. int (length p) mod 3" "\<lambda>_. Some []", OF _ _ _ _ refl refl]
  by simp

lemma size_loop_unit:
  assumes "0 < n" and "n < 1024 ^ (6 - i)" and "i < 6"
  shows "\<exists>j. size_loop n (1024 ^ (i + 1)) (int i) = (1024 ^ (j + 1), int j) \<and> j < 6
    \<and> 1024 ^ (j - i) \<le> n \<and> n < 1024 ^ (j - i + 1) \<and> i \<le> j"
  using assms
proof (induction "nat n" arbitrary: n i rule: less_induct)
  case less
  show ?case
  proof (cases "n \<ge> 1024")
    case True
    have i: "Suc i < 6"
    proof (rule ccontr)
      assume "\<not> Suc i < 6"
      with less.prems(3) have "6 - i = 1" by simp
      with less.prems(2) True show False by simp
    qed
    then have "i \<in> {0, 1, 2, 3, 4}" by auto
    then have w: "wrap64 (1024 ^ (i + 1) * 1024) = 1024 ^ (Suc i + 1)"
      by (auto simp: wrap64_def)
    have "6 - i = Suc (6 - Suc i)" using i by simp
    with less.prems(2) have "n div 1024 < 1024 ^ (6 - Suc i)" by (simp add: div_less_iff_less_mult mult.commute)
    moreover have "0 < n div 1024" "nat (n div 1024) < nat n"
      using True by (simp_all add: pos_imp_zdiv_pos_iff)
    ultimately obtain j where j: "size_loop (n div 1024) (1024 ^ (Suc i + 1)) (int (Suc i)) = (1024 ^ (j + 1), int j)" "j < 6"
        "1024 ^ (j - Suc i) \<le> n div 1024" "n div 1024 < 1024 ^ (j - Suc i + 1)" "Suc i \<le> j"
      using less.hyps [of "n div 1024" "Suc i"] i by blast
    have "j - i = Suc (j - Suc i)" using j(5) by simp
    with j(3,4) have "1024 ^ (j - i) \<le> n" "n < 1024 ^ (j - i + 1)"
      by (simp_all add: less_eq_div_iff_mult_less_eq div_less_iff_less_mult mult.commute)
    with j w True show ?thesis by (intro exI [of _ j]) (subst size_loop.simps, simp add: add.commute)
  next
    case False
    with less.prems show ?thesis by (intro exI [of _ i]) (subst size_loop.simps, simp)
  qed
qed

text \<open>The formatter of file sizes never indexes past its unit letters for an int64, and the
  unit it finds is the largest power of 1024 that is not above the size.\<close>

theorem formatSize_unit:
  assumes "in_int64 bytes" and "1024 \<le> bytes"
  shows "\<exists>e < 6. formatSize fmt_1f bytes = Ret (fmt_1f bytes (1024 ^ (e + 1)) @ '' '' @ [''KMGTPE'' ! e] @ ''B'')
    \<and> 1024 ^ (e + 1) \<le> bytes \<and> bytes < 1024 ^ (e + 2)"
proof -
  have "bytes div 1024 < 1024 ^ (6 - 0)" using assms by (simp add: in_int64_def div_less_iff_less_mult)
  moreover have "0 < bytes div 1024" using assms(2) by (simp add: pos_imp_zdiv_pos_iff)
  ultimately obtain j where j: "size_loop (bytes div 1024) 1024 0 = (1024 ^ (j + 1), int j)" "j < 6"
      "1024 ^ j \<le> bytes div 1024" "bytes div 1024 < 1024 ^ (j + 1)"
    using size_loop_unit [of "bytes div 1024" 0] by auto
  have "1024 ^ (j + 1) \<le> bytes" "bytes < 1024 ^ (j + 2)"
    using j(3,4) by (simp_all add: less_eq_div_iff_mult_less_eq div_less_iff_less_mult mult.commute)
  with j assms(2) show ?thesis by (intro exI [of _ j]) (simp add: formatSize_def)
qed

lemma formatSize_unit_witness:
  "\<exists>e < 6. formatSize (\<lambda>a b. Itoa (a div b)) 5000000 = Ret (Itoa (5000000 div 1024 ^ (e + 1)) @ '' '' @ [''KMGTPE'' ! e] @ ''B'')"
  using formatSize_unit [of 5000000 "\<lambda>a b. Itoa (a div b)"] by (auto simp: in_int64_def)

end
