(* ===== verification/AutoSave.thy ===== *)
theory AutoSave
  imports Prelude
begin

section \<open>Snapshots in the background\<close>

text \<open>
  Models \<open>Start\<close> and \<open>Stop\<close> of the two snapshot writers, the same code in
  \<^verbatim>\<open>internal/persistence/rdb.go\<close> and \<^verbatim>\<open>json.go\<close>: a flag, a stop channel, a goroutine that waits for
  the ticker, and a goroutine of its own for every save.  \<open>loops\<close> counts the goroutines that wait
  for the ticker (the wait group counts the same ones), \<open>saving\<close> those that run \<open>Save\<close>.

  \<open>Stop\<close> closes the channel and waits for the goroutine to end: it is one step, since a tick
  that the goroutine still takes while it is awaited is one it could have taken before.
\<close>

record saver =
  isRunning :: bool
  stopChan_closed :: bool
  loops :: nat
  saving :: nat

definition NewSaver :: saver where
  "NewSaver = \<lparr>isRunning = False, stopChan_closed = False, loops = 0, saving = 0\<rparr>"

definition Saver_Start :: "int \<Rightarrow> saver \<Rightarrow> saver" where
  "Saver_Start interval s =
     (if isRunning s then s
      else if interval \<le> 0 then s
      else s\<lparr>isRunning := True, loops := loops s + 1\<rparr>)"

definition Saver_Stop :: "saver \<Rightarrow> saver outcome" where
  "Saver_Stop s =
     (if \<not> isRunning s then Ret s
      else if stopChan_closed s then Panic
      else Ret (s\<lparr>isRunning := False, stopChan_closed := True, loops := 0\<rparr>))"

text \<open>The snapshot manager of \<^verbatim>\<open>json.go\<close> has the same methods.\<close>

definition NewJSONManager :: saver where
  "NewJSONManager = \<lparr>isRunning = False, stopChan_closed = False, loops = 0, saving = 0\<rparr>"

definition JSON_Start :: "int \<Rightarrow> saver \<Rightarrow> saver" where
  "JSON_Start interval s =
     (if isRunning s then s
      else if interval \<le> 0 then s
      else s\<lparr>isRunning := True, loops := loops s + 1\<rparr>)"

definition JSON_Stop :: "saver \<Rightarrow> saver outcome" where
  "JSON_Stop s =
     (if \<not> isRunning s then Ret s
      else if stopChan_closed s then Panic
      else Ret (s\<lparr>isRunning := False, stopChan_closed := True, loops := 0\<rparr>))"

lemma JSON_saver: "NewJSONManager = NewSaver" "JSON_Start = Saver_Start" "JSON_Stop = Saver_Stop"
  by (simp_all add: NewJSONManager_def NewSaver_def JSON_Start_def Saver_Start_def JSON_Stop_def
      Saver_Stop_def fun_eq_iff)

datatype saver_event = SaverStart | SaverStop | SaverTick | LoopEnds | SaveEnds

fun saver_step :: "int \<Rightarrow> saver_event \<Rightarrow> saver \<Rightarrow> saver outcome option" where
  "saver_step interval SaverStart s = Some (Ret (Saver_Start interval s))"
| "saver_step interval SaverStop s = Some (Saver_Stop s)"
| "saver_step interval SaverTick s =
     (if 0 < loops s then Some (Ret (s\<lparr>saving := saving s + 1\<rparr>)) else None)"
| "saver_step interval LoopEnds s =
     (if 0 < loops s \<and> stopChan_closed s then Some (Ret (s\<lparr>loops := loops s - 1\<rparr>)) else None)"
| "saver_step interval SaveEnds s =
     (if 0 < saving s then Some (Ret (s\<lparr>saving := saving s - 1\<rparr>)) else None)"

fun saver_run :: "int \<Rightarrow> saver_event list \<Rightarrow> saver \<Rightarrow> saver outcome option" where
  "saver_run interval [] s = Some (Ret s)"
| "saver_run interval (ev # evs) s =
     (case saver_step interval ev s of
        None \<Rightarrow> None
      | Some Panic \<Rightarrow> (if evs = [] then Some Panic else None)
      | Some (Ret s') \<Rightarrow> saver_run interval evs s')"

subsection \<open>One loop at most\<close>

definition saver_ok :: "int \<Rightarrow> saver \<Rightarrow> bool" where
  "saver_ok interval s \<longleftrightarrow>
     loops s \<le> 1 \<and> (isRunning s \<or> loops s = 0)
     \<and> (stopChan_closed s \<or> (isRunning s \<longleftrightarrow> loops s = 1))
     \<and> (interval \<le> 0 \<longrightarrow> s = NewSaver)"

lemma saver_ok_step: "saver_ok interval s \<Longrightarrow> saver_step interval ev s = Some (Ret s') \<Longrightarrow> saver_ok interval s'"
  by (cases ev) (auto simp: saver_ok_def Saver_Start_def Saver_Stop_def NewSaver_def split: if_splits)

lemma saver_ok_run: "saver_ok interval s \<Longrightarrow> saver_run interval evs s = Some (Ret s') \<Longrightarrow> saver_ok interval s'"
  by (induction evs arbitrary: s) (auto split: option.splits outcome.splits if_splits dest: saver_ok_step)

text \<open>Once the loop has ended nothing but a new start lets another save begin.\<close>

lemma stopped_run:
  "saver_run interval evs s = Some (Ret s') \<Longrightarrow> loops s = 0 \<Longrightarrow> SaverStart \<notin> set evs \<Longrightarrow>
     loops s' = 0 \<and> saving s' \<le> saving s"
proof (induction evs arbitrary: s)
  case (Cons ev evs)
  then obtain s1 where s1: "saver_step interval ev s = Some (Ret s1)" "saver_run interval evs s1 = Some (Ret s')"
    by (auto split: option.splits outcome.splits if_splits)
  have "loops s1 = 0" "saving s1 \<le> saving s"
    using s1(1) Cons.prems(2,3) by (cases ev; auto simp: Saver_Stop_def split: if_splits)+
  with Cons.IH [OF s1(2)] Cons.prems(3) show ?case by auto
qed simp

subsection \<open>Properties\<close>

text \<open>A snapshot writer never has two ticker goroutines, however often it is started and stopped;
  one whose interval is not positive never changes; and after a \<open>Stop\<close> no save begins until the
  next \<open>Start\<close>.\<close>

theorem saver_single_loop:
  assumes "saver_run interval evs NewSaver = Some (Ret s)"
  shows "loops s \<le> 1 \<and> (interval \<le> 0 \<longrightarrow> s = NewSaver)
    \<and> (\<forall>s1 evs' s2. Saver_Stop s = Ret s1 \<longrightarrow> saver_run interval evs' s1 = Some (Ret s2) \<longrightarrow>
         SaverStart \<notin> set evs' \<longrightarrow> saving s2 \<le> saving s)"
proof -
  have "saver_ok interval NewSaver" by (simp add: saver_ok_def NewSaver_def)
  from saver_ok_run [OF this assms] have ok: "saver_ok interval s" .
  have "saving s2 \<le> saving s"
    if stop: "Saver_Stop s = Ret s1" and run: "saver_run interval evs' s1 = Some (Ret s2)"
      and no: "SaverStart \<notin> set evs'" for s1 evs' s2
  proof -
    have "loops s1 = 0" "saving s1 = saving s"
      using ok stop by (auto simp: saver_ok_def Saver_Stop_def split: if_splits)
    with stopped_run [OF run _ no] show ?thesis by auto
  qed
  with ok show ?thesis by (auto simp: saver_ok_def)
qed

lemma saver_single_loop_witness:
  "\<exists>s. saver_run 5 [SaverStart, SaverStart, SaverTick] NewSaver = Some (Ret s) \<and> saving s = 1
     \<and> loops s \<le> 1 \<and> isRunning s"
proof -
  obtain s where s: "saver_run 5 [SaverStart, SaverStart, SaverTick] NewSaver = Some (Ret s)"
      "saving s = 1" "isRunning s"
    by (simp add: Saver_Start_def NewSaver_def)
  from saver_single_loop [OF s(1)] s show ?thesis by blast
qed

text \<open>\<open>Stop\<close> does not wait for a save that is running: the wait group holds only the ticker
  goroutine, so \<open>Stop\<close> can return with a save in progress.  And the stop channel is made once:
  a writer that is started again after a \<open>Stop\<close> panics at the next one.\<close>

theorem save_outlives_stop:
  assumes "0 < interval"
  shows "(\<exists>s. saver_run interval [SaverStart, SaverTick, SaverStop] NewSaver = Some (Ret s)
       \<and> \<not> isRunning s \<and> loops s = 0 \<and> saving s = 1)
    \<and> saver_run interval [SaverStart, SaverStop, SaverStart, SaverStop] NewSaver = Some Panic"
  using assms by (simp add: Saver_Start_def Saver_Stop_def NewSaver_def)

lemma save_outlives_stop_witness:
  "saver_run 3600 [SaverStart, SaverStop, SaverStart, SaverStop] NewSaver = Some Panic"
  using save_outlives_stop [of 3600] by simp

end
