(* ===== verification/Handler.thy ===== *)
theory Handler
  imports Cache Resp
begin

section \<open>The command handlers: general, string and batch commands\<close>

text \<open>
  Models \<^verbatim>\<open>internal/handler/common.go\<close>, \<^verbatim>\<open>string.go\<close> and \<^verbatim>\<open>batch.go\<close>.  A handler
  takes the arguments of its command and the state, and returns the reply and the new state.

  What a handler reads from outside is the record \<open>env\<close>: the clock readings \<open>clk 0\<close>,
  \<open>clk 1\<close>, \<dots> in the order the command makes them, the order in which maps are ranged over,
  the Unicode part of \<open>ToUpper\<close>, \<open>strconv.ParseFloat\<close> and \<open>FormatFloat\<close>, and the text of
  \<open>PrintMemoryUsage\<close> (run-time statistics).

  \<open>h_mgr\<close> says whether the handler has a persistence manager; \<open>go LogCommand(...)\<close> starts a
  goroutine, which \<open>h_spawned\<close> records in the order of starting.
\<close>

record env =
  clk :: "nat \<Rightarrow> int"
  iter :: map_order
  uni_upper :: "string \<Rightarrow> string"
  parse_float :: "string \<Rightarrow> f64 option"
  format_float :: "f64 \<Rightarrow> string"
  mem_stats :: string

record handler =
  h_cache :: "lru cache"
  h_mgr :: bool
  h_spawned :: "(string \<times> string list) list"

definition NewHandler :: "lru cache \<Rightarrow> bool \<Rightarrow> handler" where
  "NewHandler c mgr = \<lparr>h_cache = c, h_mgr = mgr, h_spawned = []\<rparr>"

definition go_log :: "string \<Rightarrow> string list \<Rightarrow> handler \<Rightarrow> handler" where
  "go_log cmd args h = (if h_mgr h then h\<lparr>h_spawned := h_spawned h @ [(cmd, args)]\<rparr> else h)"

definition quoted :: "string \<Rightarrow> string" where
  "quoted s = [CHR 0x27] @ s @ [CHR 0x27]"

definition wrong_args :: "string \<Rightarrow> RESPValue" where
  "wrong_args cmd = err (''ERR wrong number of arguments for '' @ quoted cmd @ '' command'')"

definition not_an_integer :: RESPValue where
  "not_an_integer = err ''ERR value is not an integer or out of range''"

subsection \<open>General commands\<close>

definition h_Ping :: "env \<Rightarrow> string list \<Rightarrow> handler \<Rightarrow> RESPValue \<times> handler" where
  "h_Ping env args h = (if length args > 0 then (bulk (args ! 0), h) else (simple ''PONG'', h))"

definition h_Echo :: "env \<Rightarrow> string list \<Rightarrow> handler \<Rightarrow> RESPValue \<times> handler" where
  "h_Echo env args h =
     (if length args < 1 then (wrong_args ''echo'', h) else (bulk (args ! 0), h))"

definition h_Policy :: "env \<Rightarrow> string list \<Rightarrow> handler \<Rightarrow> RESPValue \<times> handler" where
  "h_Policy env args h =
     (if length args > 0
      then (simple (''Policy for key '' @ quoted (args ! 0) @ '' not implemented yet''), h)
      else (simple (''Eviction policy: '' @ Cache_Policy (h_cache h)
              @ '' (items: '' @ Itoa (Cache_Size lru_evictor (h_cache h))
              @ '', max: '' @ Itoa (Cache_MaxCapacity lru_evictor (h_cache h)) @ '')''), h))"

text \<open>
  \<open>fmt.Sprintf("%.2f", x)\<close> of the quotient \<open>x = num / den\<close>, exact in a float64 when \<open>den\<close> is
  a power of two and \<open>num < 2 ^ 53\<close>: hundredths, rounded to nearest, ties to even.
\<close>

definition format_2f :: "int \<Rightarrow> int \<Rightarrow> string" where
  "format_2f num den =
     (let q = num * 100 div den; r = num * 100 mod den;
          n = (if 2 * r < den \<or> (2 * r = den \<and> even q) then q else q + 1)
      in Itoa (n div 100) @ ''.'' @ Itoa (n mod 100 div 10) @ Itoa (n mod 10))"

definition h_MemoryUsage :: "env \<Rightarrow> string list \<Rightarrow> handler \<Rightarrow> RESPValue \<times> handler" where
  "h_MemoryUsage env args h =
     (if length args > 0
      then (simple (''Memory usage for key '' @ quoted (args ! 0) @ '' not implemented yet''), h)
      else let memBytes = Cache_MemoryUsage lru_evictor (h_cache h) in
        (simple (if memBytes > 1024 * 1024 then format_2f memBytes (1024 * 1024) @ '' MB''
                 else if memBytes > 1024 then format_2f memBytes 1024 @ '' KB''
                 else Itoa memBytes @ '' bytes''), h))"

definition h_Memory :: "env \<Rightarrow> string list \<Rightarrow> handler \<Rightarrow> RESPValue \<times> handler" where
  "h_Memory env args h =
     (if length args > 0 \<and> ToUpper (uni_upper env) (args ! 0) = ''USAGE''
      then h_MemoryUsage env (drop 1 args) h
      else if length args > 0 then (bulk (args ! 0), h)
      else (simple (mem_stats env), h))"

text \<open>The options of SCAN, from the second argument on; a last one without a value is ignored.\<close>

fun scan_options :: "env \<Rightarrow> string list \<Rightarrow> string \<times> int \<Rightarrow> string \<times> int" where
  "scan_options env (opt # val # rest) (pattern, cnt) =
     scan_options env rest
       (if ToUpper (uni_upper env) opt = ''MATCH'' then (val, cnt)
        else if ToUpper (uni_upper env) opt = ''COUNT'' then
          (case Atoi val of Some c \<Rightarrow> (pattern, c) | None \<Rightarrow> (pattern, cnt))
        else (pattern, cnt))"
| "scan_options env _ (pattern, cnt) = (pattern, cnt)"

definition h_Scan :: "env \<Rightarrow> string list \<Rightarrow> handler \<Rightarrow> (RESPValue \<times> handler) outcome" where
  "h_Scan env args h =
     (if length args < 1 then Ret (wrong_args ''scan'', h)
      else case Atoi (args ! 0) of
        None \<Rightarrow> Ret (not_an_integer, h)
      | Some cursor \<Rightarrow>
          (case scan_options env (drop 1 args) (''*'', 10) of (pattern, cnt) \<Rightarrow>
            case Cache_Scan lru_evictor (clk env 0) (iter env) cursor pattern cnt (h_cache h) of
              Panic \<Rightarrow> Panic
            | Ret (keys, nextCursor) \<Rightarrow>
                Ret (array [bulk (Itoa nextCursor), array (map bulk keys)], h)))"

subsection \<open>String commands\<close>

definition bulk_or_null :: "string option \<Rightarrow> RESPValue" where
  "bulk_or_null r = (case r of None \<Rightarrow> null_bulk | Some v \<Rightarrow> bulk v)"

definition h_Get :: "env \<Rightarrow> string list \<Rightarrow> handler \<Rightarrow> RESPValue \<times> handler" where
  "h_Get env args h =
     (if length args < 1 then (wrong_args ''get'', h)
      else case Cache_Get lru_evictor (clk env 0) (args ! 0) (h_cache h) of (found, c) \<Rightarrow>
        (bulk_or_null found, h\<lparr>h_cache := c\<rparr>))"

definition h_Exists :: "env \<Rightarrow> string list \<Rightarrow> handler \<Rightarrow> RESPValue \<times> handler" where
  "h_Exists env args h =
     (if length args < 1 then (wrong_args ''exists'', h)
      else (integer (foldl (\<lambda>n key. if Cache_HasKey lru_evictor key (h_cache h) then n + 1 else n) 0 args), h))"

text \<open>The time to live of SET: seconds and milliseconds are multiplied in 64 bits.\<close>

definition set_ttl :: "env \<Rightarrow> string list \<Rightarrow> int" where
  "set_ttl env args =
     (if length args \<ge> 4 then
        if ToUpper (uni_upper env) (args ! 2) = ''EX'' then
          (case Atoi (args ! 3) of Some secs \<Rightarrow> wrap64 (secs * 1000000000) | None \<Rightarrow> 0)
        else if ToUpper (uni_upper env) (args ! 2) = ''PX'' then
          (case Atoi (args ! 3) of Some ms \<Rightarrow> wrap64 (ms * 1000000) | None \<Rightarrow> 0)
        else 0
      else 0)"

definition h_Set :: "env \<Rightarrow> string list \<Rightarrow> handler \<Rightarrow> RESPValue \<times> handler" where
  "h_Set env args h =
     (if length args < 2 then (wrong_args ''set'', h)
      else (simple ''OK'', go_log ''SET'' args
        (h\<lparr>h_cache := Cache_Set lru_evictor (clk env 0) (args ! 0) (args ! 1) (set_ttl env args) (h_cache h)\<rparr>)))"

definition h_Delete :: "env \<Rightarrow> string list \<Rightarrow> handler \<Rightarrow> RESPValue \<times> handler" where
  "h_Delete env args h =
     (if length args < 1 then (wrong_args ''del'', h)
      else case count_loop (Cache_Delete lru_evictor) args (h_cache h) of (n, c) \<Rightarrow>
        (integer n, go_log ''DEL'' args (h\<lparr>h_cache := c\<rparr>)))"

definition h_TTL :: "env \<Rightarrow> string list \<Rightarrow> handler \<Rightarrow> RESPValue \<times> handler" where
  "h_TTL env args h =
     (if length args < 1 then (wrong_args ''ttl'', h)
      else case Cache_TTL lru_evictor (clk env 0) (clk env 1) (args ! 0) (h_cache h) of (ttl, c) \<Rightarrow>
        (integer ttl, h\<lparr>h_cache := c\<rparr>))"

definition h_Append :: "env \<Rightarrow> string list \<Rightarrow> handler \<Rightarrow> RESPValue \<times> handler" where
  "h_Append env args h =
     (if length args < 2 then (wrong_args ''append'', h)
      else case Cache_Get lru_evictor (clk env 0) (args ! 0) (h_cache h) of (old, c) \<Rightarrow>
        let newVal = (case old of Some v \<Rightarrow> v @ args ! 1 | None \<Rightarrow> args ! 1) in
        (integer (int (length newVal)), go_log ''APPEND'' args
          (h\<lparr>h_cache := Cache_Set lru_evictor (clk env 1) (args ! 0) newVal 0 c\<rparr>)))"

definition h_Strlen :: "env \<Rightarrow> string list \<Rightarrow> handler \<Rightarrow> RESPValue \<times> handler" where
  "h_Strlen env args h =
     (if length args < 1 then (wrong_args ''strlen'', h)
      else case Cache_Get lru_evictor (clk env 0) (args ! 0) (h_cache h) of (found, c) \<Rightarrow>
        (case found of None \<Rightarrow> integer 0 | Some v \<Rightarrow> integer (int (length v)), h\<lparr>h_cache := c\<rparr>))"

subsection \<open>Batch commands\<close>

text \<open>The loop of MGET; \<open>i\<close> counts the clock readings.\<close>

fun mget_loop :: "env \<Rightarrow> nat \<Rightarrow> string list \<Rightarrow> lru cache \<Rightarrow> RESPValue list \<times> lru cache" where
  "mget_loop env i [] c = ([], c)"
| "mget_loop env i (key # keys) c =
     (case Cache_Get lru_evictor (clk env i) key c of (found, c1) \<Rightarrow>
       case mget_loop env (i + 1) keys c1 of (rs, c2) \<Rightarrow> (bulk_or_null found # rs, c2))"

definition h_MGet :: "env \<Rightarrow> string list \<Rightarrow> handler \<Rightarrow> RESPValue \<times> handler" where
  "h_MGet env args h =
     (if length args < 1 then (wrong_args ''mget'', h)
      else case mget_loop env 0 args (h_cache h) of (rs, c) \<Rightarrow> (array rs, h\<lparr>h_cache := c\<rparr>))"

text \<open>The loop \<open>for i := 0; i < len(args); i += 2\<close> over an even number of arguments.\<close>

fun arg_pairs :: "string list \<Rightarrow> (string \<times> string) list" where
  "arg_pairs (k # v # rest) = (k, v) # arg_pairs rest"
| "arg_pairs _ = []"

fun mset_loop :: "env \<Rightarrow> nat \<Rightarrow> (string \<times> string) list \<Rightarrow> lru cache \<Rightarrow> lru cache" where
  "mset_loop env i [] c = c"
| "mset_loop env i ((k, v) # kvs) c =
     mset_loop env (i + 1) kvs (Cache_Set lru_evictor (clk env i) k v 0 c)"

definition h_MSet :: "env \<Rightarrow> string list \<Rightarrow> handler \<Rightarrow> RESPValue \<times> handler" where
  "h_MSet env args h =
     (if length args < 2 then (wrong_args ''mset'', h)
      else if length args mod 2 \<noteq> 0 then (wrong_args ''mset'', h)
      else (simple ''OK'', go_log ''MSET'' args
        (h\<lparr>h_cache := mset_loop env 0 (arg_pairs args) (h_cache h)\<rparr>)))"

definition h_MSetNX :: "env \<Rightarrow> string list \<Rightarrow> handler \<Rightarrow> RESPValue \<times> handler" where
  "h_MSetNX env args h =
     (if length args < 2 then (wrong_args ''msetnx'', h)
      else if length args mod 2 \<noteq> 0 then (wrong_args ''msetnx'', h)
      else if list_ex (\<lambda>(key, _). Cache_HasKey lru_evictor key (h_cache h)) (arg_pairs args)
        then (integer 0, h)
      else (integer 1, go_log ''MSETNX'' args
        (h\<lparr>h_cache := mset_loop env 0 (arg_pairs args) (h_cache h)\<rparr>)))"

end
