(* ===== verification/HandlerData.thy ===== *)
theory HandlerData
  imports Handler
begin

section \<open>The command handlers: hashes, lists, sets and sorted sets\<close>

text \<open>
  Models \<^verbatim>\<open>internal/handler/hash.go\<close>, \<^verbatim>\<open>list.go\<close>, \<^verbatim>\<open>set.go\<close> and \<^verbatim>\<open>sortedset.go\<close>.  The
  cache hands out a pointer to the container and the handler calls its methods; each method
  locks the container for itself.  In the model the handler takes the container out of the
  cache, applies the methods and stores the result back under the key.
\<close>

subsection \<open>Hashes\<close>

definition h_HSet :: "env \<Rightarrow> string list \<Rightarrow> handler \<Rightarrow> RESPValue \<times> handler" where
  "h_HSet env args h =
     (if length args < 3 then (wrong_args ''hset'', h)
      else let key = args ! 0; fields = drop 1 args in
        if length fields mod 2 \<noteq> 0 then (wrong_args ''hset'', h)
        else case Cache_GetOrCreateHash key (h_cache h) of (hash, _, c) \<Rightarrow>
          case count_loop (\<lambda>(f, v). Hash_Put f v) (arg_pairs fields) hash of (n, hash') \<Rightarrow>
            (integer n, go_log ''HSET'' args (h\<lparr>h_cache := Cache_put_hash key hash' c\<rparr>)))"

definition h_HGet :: "env \<Rightarrow> string list \<Rightarrow> handler \<Rightarrow> RESPValue \<times> handler" where
  "h_HGet env args h =
     (if length args < 2 then (wrong_args ''hget'', h)
      else case Cache_GetHash (args ! 0) (h_cache h) of
        None \<Rightarrow> (null_bulk, h)
      | Some hash \<Rightarrow> (bulk_or_null (Hash_Get (args ! 1) hash), h))"

definition h_HGetAll :: "env \<Rightarrow> string list \<Rightarrow> handler \<Rightarrow> RESPValue \<times> handler" where
  "h_HGetAll env args h =
     (if length args < 1 then (wrong_args ''hgetall'', h)
      else case Cache_GetHash (args ! 0) (h_cache h) of
        None \<Rightarrow> (array [], h)
      | Some hash \<Rightarrow>
          (array (foldl (\<lambda>result (field, value). result @ [bulk field, bulk value]) []
             (range_map (iter env) (Hash_GetAll (iter env) hash))), h))"

definition h_HDel :: "env \<Rightarrow> string list \<Rightarrow> handler \<Rightarrow> RESPValue \<times> handler" where
  "h_HDel env args h =
     (if length args < 2 then (wrong_args ''hdel'', h)
      else let key = args ! 0; fields = drop 1 args in
        case Cache_GetHash key (h_cache h) of
          None \<Rightarrow> (integer 0, h)
        | Some hash \<Rightarrow>
            (case count_loop Hash_Delete fields hash of (n, hash') \<Rightarrow>
              (integer n, go_log ''HDEL'' args (h\<lparr>h_cache := Cache_put_hash key hash' (h_cache h)\<rparr>))))"

definition h_HLen :: "env \<Rightarrow> string list \<Rightarrow> handler \<Rightarrow> RESPValue \<times> handler" where
  "h_HLen env args h =
     (if length args < 1 then (wrong_args ''hlen'', h)
      else case Cache_GetHash (args ! 0) (h_cache h) of
        None \<Rightarrow> (integer 0, h)
      | Some hash \<Rightarrow> (integer (Hash_Len hash), h))"

definition h_HExists :: "env \<Rightarrow> string list \<Rightarrow> handler \<Rightarrow> RESPValue \<times> handler" where
  "h_HExists env args h =
     (if length args < 2 then (wrong_args ''hexists'', h)
      else case Cache_GetHash (args ! 0) (h_cache h) of
        None \<Rightarrow> (integer 0, h)
      | Some hash \<Rightarrow> (if Hash_Get (args ! 1) hash \<noteq> None then (integer 1, h) else (integer 0, h)))"

definition h_HKeys :: "env \<Rightarrow> string list \<Rightarrow> handler \<Rightarrow> RESPValue \<times> handler" where
  "h_HKeys env args h =
     (if length args < 1 then (wrong_args ''hkeys'', h)
      else case Cache_GetHash (args ! 0) (h_cache h) of
        None \<Rightarrow> (array [], h)
      | Some hash \<Rightarrow> (array (map bulk (Hash_Keys (iter env) hash)), h))"

definition h_HVals :: "env \<Rightarrow> string list \<Rightarrow> handler \<Rightarrow> RESPValue \<times> handler" where
  "h_HVals env args h =
     (if length args < 1 then (wrong_args ''hvals'', h)
      else case Cache_GetHash (args ! 0) (h_cache h) of
        None \<Rightarrow> (array [], h)
      | Some hash \<Rightarrow> (array (map bulk (Hash_Values (iter env) hash)), h))"

subsection \<open>Lists\<close>

definition h_LPush :: "env \<Rightarrow> string list \<Rightarrow> handler \<Rightarrow> RESPValue \<times> handler" where
  "h_LPush env args h =
     (if length args < 2 then (wrong_args ''lpush'', h)
      else let key = args ! 0; values = drop 1 args in
        case Cache_GetOrCreateList key (h_cache h) of (l, _, c) \<Rightarrow>
          case List_LPush values l of (n, l') \<Rightarrow>
            (integer n, go_log ''LPUSH'' args (h\<lparr>h_cache := Cache_put_list key l' c\<rparr>)))"

definition h_RPush :: "env \<Rightarrow> string list \<Rightarrow> handler \<Rightarrow> RESPValue \<times> handler" where
  "h_RPush env args h =
     (if length args < 2 then (wrong_args ''rpush'', h)
      else let key = args ! 0; values = drop 1 args in
        case Cache_GetOrCreateList key (h_cache h) of (l, _, c) \<Rightarrow>
          case List_RPush values l of (n, l') \<Rightarrow>
            (integer n, go_log ''RPUSH'' args (h\<lparr>h_cache := Cache_put_list key l' c\<rparr>)))"

definition h_LPop :: "env \<Rightarrow> string list \<Rightarrow> handler \<Rightarrow> RESPValue \<times> handler" where
  "h_LPop env args h =
     (if length args < 1 then (wrong_args ''lpop'', h)
      else case Cache_GetList (args ! 0) (h_cache h) of
        None \<Rightarrow> (null_bulk, h)
      | Some l \<Rightarrow>
          (case List_LPop l of (found, l') \<Rightarrow>
            (case found of
               None \<Rightarrow> (null_bulk, h)
             | Some v \<Rightarrow> (bulk v, go_log ''LPOP'' args
                 (h\<lparr>h_cache := Cache_put_list (args ! 0) l' (h_cache h)\<rparr>)))))"

definition h_RPop :: "env \<Rightarrow> string list \<Rightarrow> handler \<Rightarrow> RESPValue \<times> handler" where
  "h_RPop env args h =
     (if length args < 1 then (wrong_args ''rpop'', h)
      else case Cache_GetList (args ! 0) (h_cache h) of
        None \<Rightarrow> (null_bulk, h)
      | Some l \<Rightarrow>
          (case List_RPop l of (found, l') \<Rightarrow>
            (case found of
               None \<Rightarrow> (null_bulk, h)
             | Some v \<Rightarrow> (bulk v, go_log ''RPOP'' args
                 (h\<lparr>h_cache := Cache_put_list (args ! 0) l' (h_cache h)\<rparr>)))))"

definition h_LRange :: "env \<Rightarrow> string list \<Rightarrow> handler \<Rightarrow> RESPValue \<times> handler" where
  "h_LRange env args h =
     (if length args < 3 then (wrong_args ''lrange'', h)
      else case (Atoi (args ! 1), Atoi (args ! 2)) of
        (Some start, Some stop) \<Rightarrow>
          (case Cache_GetList (args ! 0) (h_cache h) of
             None \<Rightarrow> (array [], h)
           | Some l \<Rightarrow> (array (map bulk (List_LRange start stop l)), h))
      | _ \<Rightarrow> (not_an_integer, h))"

definition h_LLen :: "env \<Rightarrow> string list \<Rightarrow> handler \<Rightarrow> RESPValue \<times> handler" where
  "h_LLen env args h =
     (if length args < 1 then (wrong_args ''llen'', h)
      else case Cache_GetList (args ! 0) (h_cache h) of
        None \<Rightarrow> (integer 0, h)
      | Some l \<Rightarrow> (integer (List_LLen l), h))"

subsection \<open>Sets\<close>

definition h_SAdd :: "env \<Rightarrow> string list \<Rightarrow> handler \<Rightarrow> RESPValue \<times> handler" where
  "h_SAdd env args h =
     (if length args < 2 then (wrong_args ''sadd'', h)
      else let key = args ! 0; members = drop 1 args in
        case Cache_GetOrCreateSet key (h_cache h) of (s, _, c) \<Rightarrow>
          case Set_Add members s of (n, s') \<Rightarrow>
            (integer n, go_log ''SADD'' args (h\<lparr>h_cache := Cache_put_set key s' c\<rparr>)))"

definition h_SRem :: "env \<Rightarrow> string list \<Rightarrow> handler \<Rightarrow> RESPValue \<times> handler" where
  "h_SRem env args h =
     (if length args < 2 then (wrong_args ''srem'', h)
      else let key = args ! 0; members = drop 1 args in
        case Cache_GetSet key (h_cache h) of
          None \<Rightarrow> (integer 0, h)
        | Some s \<Rightarrow>
            (case Set_Remove members s of (n, s') \<Rightarrow>
              (integer n, go_log ''SREM'' args (h\<lparr>h_cache := Cache_put_set key s' (h_cache h)\<rparr>))))"

definition h_SMembers :: "env \<Rightarrow> string list \<Rightarrow> handler \<Rightarrow> RESPValue \<times> handler" where
  "h_SMembers env args h =
     (if length args < 1 then (wrong_args ''smembers'', h)
      else case Cache_GetSet (args ! 0) (h_cache h) of
        None \<Rightarrow> (array [], h)
      | Some s \<Rightarrow> (array (map bulk (Set_Members (iter env) s)), h))"

definition h_SIsMember :: "env \<Rightarrow> string list \<Rightarrow> handler \<Rightarrow> RESPValue \<times> handler" where
  "h_SIsMember env args h =
     (if length args < 2 then (wrong_args ''sismember'', h)
      else case Cache_GetSet (args ! 0) (h_cache h) of
        None \<Rightarrow> (integer 0, h)
      | Some s \<Rightarrow> (if Set_IsMember (args ! 1) s then (integer 1, h) else (integer 0, h)))"

definition h_SCard :: "env \<Rightarrow> string list \<Rightarrow> handler \<Rightarrow> RESPValue \<times> handler" where
  "h_SCard env args h =
     (if length args < 1 then (wrong_args ''scard'', h)
      else case Cache_GetSet (args ! 0) (h_cache h) of
        None \<Rightarrow> (integer 0, h)
      | Some s \<Rightarrow> (integer (Set_Len s), h))"

subsection \<open>Sorted sets\<close>

text \<open>
  The loop of ZADD stops at the first score that does not parse; the members added before it
  stay, and the command is not logged.
\<close>

fun zadd_loop :: "env \<Rightarrow> (string \<times> string) list \<Rightarrow> int \<Rightarrow> sorted_set \<Rightarrow> int option \<times> sorted_set" where
  "zadd_loop env [] n ss = (Some n, ss)"
| "zadd_loop env ((score, member) # rest) n ss =
     (case parse_float env score of
        None \<Rightarrow> (None, ss)
      | Some x \<Rightarrow>
          (case SortedSet_Add x member ss of (b, ss') \<Rightarrow>
            zadd_loop env rest (if b then n + 1 else n) ss'))"

definition h_ZAdd :: "env \<Rightarrow> string list \<Rightarrow> handler \<Rightarrow> RESPValue \<times> handler" where
  "h_ZAdd env args h =
     (if length args < 3 then (wrong_args ''zadd'', h)
      else let key = args ! 0; pairs = drop 1 args in
        if length pairs mod 2 \<noteq> 0 then (wrong_args ''zadd'', h)
        else case Cache_GetOrCreateSortedSet key (h_cache h) of (ss, _, c) \<Rightarrow>
          case zadd_loop env (arg_pairs pairs) 0 ss of (r, ss') \<Rightarrow>
            let h' = h\<lparr>h_cache := Cache_put_sorted_set key ss' c\<rparr> in
            (case r of
               None \<Rightarrow> (err ''ERR value is not a valid float'', h')
             | Some n \<Rightarrow> (integer n, go_log ''ZADD'' args h')))"

definition h_ZRange :: "env \<Rightarrow> string list \<Rightarrow> handler \<Rightarrow> RESPValue \<times> handler" where
  "h_ZRange env args h =
     (if length args < 3 then (wrong_args ''zrange'', h)
      else case (Atoi (args ! 1), Atoi (args ! 2)) of
        (Some start, Some stop) \<Rightarrow>
          (let withScores = (length args \<ge> 4 \<and> args ! 3 = ''WITHSCORES'') in
           case Cache_GetSortedSet (args ! 0) (h_cache h) of
             None \<Rightarrow> (array [], h)
           | Some ss \<Rightarrow>
               (array (foldl (\<lambda>result m.
                  result @ [bulk (Member m)]
                    @ (if withScores then [bulk (format_float env (Score m))] else []))
                  [] (SortedSet_Range (iter env) start stop ss)), h))
      | _ \<Rightarrow> (not_an_integer, h))"

definition h_ZRem :: "env \<Rightarrow> string list \<Rightarrow> handler \<Rightarrow> RESPValue \<times> handler" where
  "h_ZRem env args h =
     (if length args < 2 then (wrong_args ''zrem'', h)
      else let key = args ! 0; members = drop 1 args in
        case Cache_GetSortedSet key (h_cache h) of
          None \<Rightarrow> (integer 0, h)
        | Some ss \<Rightarrow>
            (case count_loop SortedSet_Remove members ss of (n, ss') \<Rightarrow>
              (integer n, go_log ''ZREM'' args
                (h\<lparr>h_cache := Cache_put_sorted_set key ss' (h_cache h)\<rparr>))))"

definition h_ZCard :: "env \<Rightarrow> string list \<Rightarrow> handler \<Rightarrow> RESPValue \<times> handler" where
  "h_ZCard env args h =
     (if length args < 1 then (wrong_args ''zcard'', h)
      else case Cache_GetSortedSet (args ! 0) (h_cache h) of
        None \<Rightarrow> (integer 0, h)
      | Some ss \<Rightarrow> (integer (SortedSet_Len ss), h))"

definition h_ZScore :: "env \<Rightarrow> string list \<Rightarrow> handler \<Rightarrow> RESPValue \<times> handler" where
  "h_ZScore env args h =
     (if length args < 2 then (wrong_args ''zscore'', h)
      else case Cache_GetSortedSet (args ! 0) (h_cache h) of
        None \<Rightarrow> (null_bulk, h)
      | Some ss \<Rightarrow> (bulk_or_null (map_option (format_float env) (SortedSet_Score (args ! 1) ss)), h))"

end
