(* ===== verification/Commands.thy ===== *)
theory Commands
  imports HandlerData
begin

section \<open>The command table and what the commands do to the cache\<close>

text \<open>
  The handlers that \<open>main\<close> registers (\<^verbatim>\<open>cmd/main.go\<close>) and the classification of
  commands into writes and reads that the transactions rely on (\<open>isWriteCommand\<close> of
  \<^verbatim>\<open>internal/server/transaction.go\<close>).  The lemmas show that every command keeps the
  cache's invariant, that only SCAN can panic, and that a command that is not classified as a
  write changes nothing but dropping expired strings.
\<close>

type_synonym command = "env \<Rightarrow> string list \<Rightarrow> handler \<Rightarrow> (RESPValue \<times> handler) outcome"

definition total :: "(env \<Rightarrow> string list \<Rightarrow> handler \<Rightarrow> RESPValue \<times> handler) \<Rightarrow> command" where
  "total f env args h = Ret (f env args h)"

definition commands :: "(string \<times> command) list" where
  "commands =
    [(''PING'', total h_Ping), (''ECHO'', total h_Echo), (''MEMORY'', total h_Memory),
     (''POLICY'', total h_Policy), (''SCAN'', h_Scan),
     (''GET'', total h_Get), (''EXISTS'', total h_Exists), (''SET'', total h_Set),
     (''DEL'', total h_Delete), (''TTL'', total h_TTL), (''APPEND'', total h_Append),
     (''STRLEN'', total h_Strlen),
     (''HSET'', total h_HSet), (''HGET'', total h_HGet), (''HGETALL'', total h_HGetAll),
     (''HDEL'', total h_HDel), (''HLEN'', total h_HLen), (''HEXISTS'', total h_HExists),
     (''HKEYS'', total h_HKeys), (''HVALS'', total h_HVals),
     (''LPUSH'', total h_LPush), (''RPUSH'', total h_RPush), (''LPOP'', total h_LPop),
     (''RPOP'', total h_RPop), (''LRANGE'', total h_LRange), (''LLEN'', total h_LLen),
     (''SADD'', total h_SAdd), (''SREM'', total h_SRem), (''SMEMBERS'', total h_SMembers),
     (''SISMEMBER'', total h_SIsMember), (''SCARD'', total h_SCard),
     (''ZADD'', total h_ZAdd), (''ZRANGE'', total h_ZRange), (''ZREM'', total h_ZRem),
     (''ZCARD'', total h_ZCard), (''ZSCORE'', total h_ZScore),
     (''MGET'', total h_MGet), (''MSET'', total h_MSet), (''MSETNX'', total h_MSetNX)]"

definition GetHandler :: "string \<Rightarrow> command option" where
  "GetHandler cmd = map_of commands cmd"

definition isWriteCommand :: "string \<Rightarrow> bool" where
  "isWriteCommand cmd \<longleftrightarrow> cmd \<in> set
     [''SET'', ''DEL'', ''HSET'', ''HDEL'', ''LPUSH'', ''RPUSH'', ''LPOP'', ''RPOP'',
      ''SADD'', ''SREM'', ''ZADD'', ''ZREM'', ''MSET'', ''MSETNX'', ''APPEND'']"

subsection \<open>Commands that leave the state alone\<close>

lemma Let_simp: "Let x f = f x"
  by (simp add: Let_def)

lemma snd_reads [simp]:
  "snd (h_Ping env args h) = h" "snd (h_Echo env args h) = h" "snd (h_MemoryUsage env args h) = h"
  "snd (h_Memory env args h) = h" "snd (h_Policy env args h) = h" "snd (h_Exists env args h) = h"
  "snd (h_HGet env args h) = h" "snd (h_HGetAll env args h) = h" "snd (h_HLen env args h) = h"
  "snd (h_HExists env args h) = h" "snd (h_HKeys env args h) = h" "snd (h_HVals env args h) = h"
  "snd (h_LRange env args h) = h" "snd (h_LLen env args h) = h" "snd (h_SMembers env args h) = h"
  "snd (h_SIsMember env args h) = h" "snd (h_SCard env args h) = h" "snd (h_ZRange env args h) = h"
  "snd (h_ZCard env args h) = h" "snd (h_ZScore env args h) = h"
  by (simp_all add: h_Ping_def h_Echo_def h_MemoryUsage_def h_Memory_def h_Policy_def h_Exists_def
      h_HGet_def h_HGetAll_def h_HLen_def h_HExists_def h_HKeys_def h_HVals_def h_LRange_def
      h_LLen_def h_SMembers_def h_SIsMember_def h_SCard_def h_ZRange_def h_ZCard_def h_ZScore_def
      Let_simp split: option.split)

lemma h_Scan_state: "h_Scan env args h = Ret (r, h') \<Longrightarrow> h' = h"
  by (auto simp: h_Scan_def split: if_splits option.splits prod.splits outcome.splits)

lemma go_log_cache [simp]: "h_cache (go_log cmd args h) = h_cache h"
  by (simp add: go_log_def)

subsection \<open>The invariant\<close>

lemma mget_loop_ok: "cache_ok lru_ok c \<Longrightarrow> cache_ok lru_ok (snd (mget_loop env i keys c))"
  by (induction env i keys c rule: mget_loop.induct)
    (auto simp: lru.Cache_Get_eq(2) split: prod.splits, metis lru.Cache_Get_eq(2) snd_conv)

lemma mset_loop_ok: "cache_ok lru_ok c \<Longrightarrow> cache_ok lru_ok (mset_loop env i kvs c)"
  by (induction env i kvs c rule: mset_loop.induct) (simp_all add: lru.Cache_Set_ok)

lemma count_delete_ok:
  "cache_ok lru_ok c \<Longrightarrow> cache_ok lru_ok (snd (count_loop (Cache_Delete lru_evictor) keys c))"
  by (rule count_loop_invariant) (simp_all add: lru.Cache_Delete_eq(2))

lemma Cache_or_empty_ok:
  "cache_ok I c \<Longrightarrow> map_ok (or_empty (Cache_GetHash k c))"
  "cache_ok I c \<Longrightarrow> map_ok (or_empty (Cache_GetSet k c))"
  "cache_ok I c \<Longrightarrow> map_ok (or_empty (Cache_GetSortedSet k c))"
  using Cache_get_ok [of I c k] by (auto simp: or_empty_def split: option.split)

lemma zadd_loop_ok: "map_ok ss \<Longrightarrow> map_ok (snd (zadd_loop env ps n ss))"
  by (induction env ps n ss rule: zadd_loop.induct) (simp_all add: SortedSet_Add_def split: option.split)

lemma h_cache_strings:
  "h_cache (snd (h_Get env args h)) = (if length args < 1 then h_cache h
     else snd (Cache_Get lru_evictor (clk env 0) (args ! 0) (h_cache h)))"
  "h_cache (snd (h_Set env args h)) = (if length args < 2 then h_cache h
     else Cache_Set lru_evictor (clk env 0) (args ! 0) (args ! 1) (set_ttl env args) (h_cache h))"
  "h_cache (snd (h_Delete env args h)) = (if length args < 1 then h_cache h
     else snd (count_loop (Cache_Delete lru_evictor) args (h_cache h)))"
  "h_cache (snd (h_TTL env args h)) = (if length args < 1 then h_cache h
     else snd (Cache_TTL lru_evictor (clk env 0) (clk env 1) (args ! 0) (h_cache h)))"
  "h_cache (snd (h_Append env args h)) = (if length args < 2 then h_cache h
     else Cache_Set lru_evictor (clk env 1) (args ! 0)
       (case fst (Cache_Get lru_evictor (clk env 0) (args ! 0) (h_cache h)) of
          Some v \<Rightarrow> v @ args ! 1 | None \<Rightarrow> args ! 1) 0
       (snd (Cache_Get lru_evictor (clk env 0) (args ! 0) (h_cache h))))"
  "h_cache (snd (h_Strlen env args h)) = (if length args < 1 then h_cache h
     else snd (Cache_Get lru_evictor (clk env 0) (args ! 0) (h_cache h)))"
  "h_cache (snd (h_MGet env args h)) = (if length args < 1 then h_cache h
     else snd (mget_loop env 0 args (h_cache h)))"
  "h_cache (snd (h_MSet env args h)) = (if length args < 2 \<or> length args mod 2 \<noteq> 0 then h_cache h
     else mset_loop env 0 (arg_pairs args) (h_cache h))"
  "h_cache (snd (h_MSetNX env args h)) = (if length args < 2 \<or> length args mod 2 \<noteq> 0
       \<or> list_ex (\<lambda>(key, _). Cache_HasKey lru_evictor key (h_cache h)) (arg_pairs args) then h_cache h
     else mset_loop env 0 (arg_pairs args) (h_cache h))"
  by (simp_all add: h_Get_def h_Set_def h_Delete_def h_TTL_def h_Append_def h_Strlen_def h_MGet_def
      h_MSet_def h_MSetNX_def case_prod_unfold Let_simp)

lemma h_cache_containers:
  "h_cache (snd (h_HSet env args h)) = (if length args < 3 \<or> length (drop 1 args) mod 2 \<noteq> 0 then h_cache h
     else case Cache_GetOrCreateHash (args ! 0) (h_cache h) of (hash, _, c) \<Rightarrow>
       Cache_put_hash (args ! 0) (snd (count_loop (\<lambda>(f, v). Hash_Put f v) (arg_pairs (drop 1 args)) hash)) c)"
  "h_cache (snd (h_HDel env args h)) = (if length args < 2 then h_cache h
     else case Cache_GetHash (args ! 0) (h_cache h) of None \<Rightarrow> h_cache h
       | Some hash \<Rightarrow> Cache_put_hash (args ! 0) (snd (count_loop Hash_Delete (drop 1 args) hash)) (h_cache h))"
  "h_cache (snd (h_LPush env args h)) = (if length args < 2 then h_cache h
     else case Cache_GetOrCreateList (args ! 0) (h_cache h) of (l, _, c) \<Rightarrow>
       Cache_put_list (args ! 0) (snd (List_LPush (drop 1 args) l)) c)"
  "h_cache (snd (h_RPush env args h)) = (if length args < 2 then h_cache h
     else case Cache_GetOrCreateList (args ! 0) (h_cache h) of (l, _, c) \<Rightarrow>
       Cache_put_list (args ! 0) (snd (List_RPush (drop 1 args) l)) c)"
  "h_cache (snd (h_LPop env args h)) = (if length args < 1 then h_cache h
     else case Cache_GetList (args ! 0) (h_cache h) of None \<Rightarrow> h_cache h
       | Some l \<Rightarrow> if fst (List_LPop l) = None then h_cache h
           else Cache_put_list (args ! 0) (snd (List_LPop l)) (h_cache h))"
  "h_cache (snd (h_RPop env args h)) = (if length args < 1 then h_cache h
     else case Cache_GetList (args ! 0) (h_cache h) of None \<Rightarrow> h_cache h
       | Some l \<Rightarrow> if fst (List_RPop l) = None then h_cache h
           else Cache_put_list (args ! 0) (snd (List_RPop l)) (h_cache h))"
  "h_cache (snd (h_SAdd env args h)) = (if length args < 2 then h_cache h
     else case Cache_GetOrCreateSet (args ! 0) (h_cache h) of (x, _, c) \<Rightarrow>
       Cache_put_set (args ! 0) (snd (Set_Add (drop 1 args) x)) c)"
  "h_cache (snd (h_SRem env args h)) = (if length args < 2 then h_cache h
     else case Cache_GetSet (args ! 0) (h_cache h) of None \<Rightarrow> h_cache h
       | Some x \<Rightarrow> Cache_put_set (args ! 0) (snd (Set_Remove (drop 1 args) x)) (h_cache h))"
  "h_cache (snd (h_ZAdd env args h)) = (if length args < 3 \<or> length (drop 1 args) mod 2 \<noteq> 0 then h_cache h
     else case Cache_GetOrCreateSortedSet (args ! 0) (h_cache h) of (ss, _, c) \<Rightarrow>
       Cache_put_sorted_set (args ! 0) (snd (zadd_loop env (arg_pairs (drop 1 args)) 0 ss)) c)"
  "h_cache (snd (h_ZRem env args h)) = (if length args < 2 then h_cache h
     else case Cache_GetSortedSet (args ! 0) (h_cache h) of None \<Rightarrow> h_cache h
       | Some ss \<Rightarrow> Cache_put_sorted_set (args ! 0) (snd (count_loop SortedSet_Remove (drop 1 args) ss)) (h_cache h))"
  by (auto simp: h_HSet_def h_HDel_def h_LPush_def h_RPush_def h_LPop_def h_RPop_def h_SAdd_def
      h_SRem_def h_ZAdd_def h_ZRem_def case_prod_unfold Let_simp split: option.split)

lemma string_commands_ok:
  assumes "cache_ok lru_ok (h_cache h)"
  shows "cache_ok lru_ok (h_cache (snd (h_Get env args h)))"
    and "cache_ok lru_ok (h_cache (snd (h_Set env args h)))"
    and "cache_ok lru_ok (h_cache (snd (h_Delete env args h)))"
    and "cache_ok lru_ok (h_cache (snd (h_TTL env args h)))"
    and "cache_ok lru_ok (h_cache (snd (h_Append env args h)))"
    and "cache_ok lru_ok (h_cache (snd (h_Strlen env args h)))"
    and "cache_ok lru_ok (h_cache (snd (h_MGet env args h)))"
    and "cache_ok lru_ok (h_cache (snd (h_MSet env args h)))"
    and "cache_ok lru_ok (h_cache (snd (h_MSetNX env args h)))"
  using assms
  by (simp_all add: h_cache_strings lru.Cache_Set_ok lru.Cache_Get_eq(2) lru.Cache_TTL_eq(2)
      count_delete_ok mget_loop_ok mset_loop_ok)

lemma container_commands_ok:
  assumes ok: "cache_ok lru_ok (h_cache h)"
  shows "cache_ok lru_ok (h_cache (snd (h_HSet env args h)))"
    and "cache_ok lru_ok (h_cache (snd (h_HDel env args h)))"
    and "cache_ok lru_ok (h_cache (snd (h_LPush env args h)))"
    and "cache_ok lru_ok (h_cache (snd (h_RPush env args h)))"
    and "cache_ok lru_ok (h_cache (snd (h_LPop env args h)))"
    and "cache_ok lru_ok (h_cache (snd (h_RPop env args h)))"
    and "cache_ok lru_ok (h_cache (snd (h_SAdd env args h)))"
    and "cache_ok lru_ok (h_cache (snd (h_SRem env args h)))"
    and "cache_ok lru_ok (h_cache (snd (h_ZAdd env args h)))"
    and "cache_ok lru_ok (h_cache (snd (h_ZRem env args h)))"
  using ok Cache_or_empty_ok [OF ok] Cache_get_ok [OF ok]
  by (auto simp: h_cache_containers Cache_GetOrCreate_eqs Cache_put_containers_ok hash.put_all_ok
      hash.del_all_ok zset.del_all_ok zadd_loop_ok NewHash_def NewSet_def NewSortedSet_def
      Set_Add_put_all Set_Remove_def goset.put_all_ok goset.del_all_ok split: option.split)

text \<open>Every command keeps the invariant of the cache: checked entry by entry over the table.\<close>

definition keeps_ok :: "command \<Rightarrow> bool" where
  "keeps_ok f \<longleftrightarrow> (\<forall>env args h r h'. cache_ok lru_ok (h_cache h) \<longrightarrow> f env args h = Ret (r, h')
     \<longrightarrow> cache_ok lru_ok (h_cache h'))"

lemma keeps_total:
  "(\<And>env args h. cache_ok lru_ok (h_cache h) \<Longrightarrow> cache_ok lru_ok (h_cache (snd (g env args h)))) \<Longrightarrow>
     keeps_ok (total g)"
  by (simp add: keeps_ok_def total_def) (metis snd_conv)

lemma keeps_Scan: "keeps_ok h_Scan"
  by (auto simp: keeps_ok_def dest: h_Scan_state)

lemma GetHandler_all:
  "list_all (\<lambda>(n, f). P n f) commands \<Longrightarrow> GetHandler cmd = Some f \<Longrightarrow> P cmd f"
  by (auto simp: GetHandler_def list_all_iff dest!: map_of_SomeD)

lemma commands_keep_ok: "list_all (\<lambda>(n, f). keeps_ok f) commands"
  unfolding commands_def
  by (simp add: keeps_Scan keeps_total string_commands_ok container_commands_ok)

lemma command_keeps_ok:
  "GetHandler cmd = Some f \<Longrightarrow> f env args h = Ret (r, h') \<Longrightarrow> cache_ok lru_ok (h_cache h) \<Longrightarrow>
     cache_ok lru_ok (h_cache h')"
  using GetHandler_all [OF commands_keep_ok] unfolding keeps_ok_def by blast

subsection \<open>Only SCAN can panic\<close>

lemma commands_return: "list_all (\<lambda>(n, f). n \<noteq> ''SCAN'' \<longrightarrow> (\<forall>env args h. f env args h \<noteq> Panic)) commands"
  unfolding commands_def by (simp add: total_def)

lemma command_returns:
  "GetHandler cmd = Some f \<Longrightarrow> cmd \<noteq> ''SCAN'' \<Longrightarrow> f env args h \<noteq> Panic"
  using GetHandler_all [OF commands_return] by blast

subsection \<open>Reads change nothing\<close>

definition same_containers :: "'e cache \<Rightarrow> 'e cache \<Rightarrow> bool" where
  "same_containers c c' \<longleftrightarrow> (\<forall>k. Cache_GetHash k c' = Cache_GetHash k c
     \<and> Cache_GetList k c' = Cache_GetList k c \<and> Cache_GetSet k c' = Cache_GetSet k c
     \<and> Cache_GetSortedSet k c' = Cache_GetSortedSet k c)"

text \<open>Every string is as before, or was dropped because it had expired at one of the clock
  readings of the command.\<close>

definition only_expired :: "env \<Rightarrow> lru cache \<Rightarrow> lru cache \<Rightarrow> bool" where
  "only_expired env c c' \<longleftrightarrow> (\<forall>k. lru_item c' k = lru_item c k
     \<or> (lru_item c' k = None \<and> (\<exists>i n. lru_item c k = Some i \<and> IsExpired (clk env n) i)))"

lemma only_expired_refl [simp]: "only_expired env c c" "same_containers c c"
  by (simp_all add: only_expired_def same_containers_def)

lemma only_expired_trans:
  "only_expired env c1 c2 \<Longrightarrow> only_expired env c2 c3 \<Longrightarrow> only_expired env c1 c3"
  unfolding only_expired_def by metis

lemma same_containers_trans: "same_containers c1 c2 \<Longrightarrow> same_containers c2 c3 \<Longrightarrow> same_containers c1 c3"
  by (simp add: same_containers_def)

lemma only_expired_dropped:
  assumes "lru_item c' = (lru_item c)(k := drop_expired (clk env n) (lru_item c k))"
  shows "only_expired env c c'"
  using assms by (auto simp: only_expired_def drop_expired_def split: option.split if_splits)

lemma Cache_evictor_frames:
  assumes "cache_size_ok c"
  shows "same_containers c (snd (Cache_Get E now k c))"
    and "same_containers c (snd (Cache_TTL E t1 t2 k c))"
    and "same_containers c (snd (Cache_Delete E k c))"
    and "same_containers c (Cache_Set E now k v ttl c)"
proof -
  obtain e1 e2 e3 where
    "snd (Shard_Get E now k (Cache_shard k c)) = (Cache_shard k c)\<lparr>evictor := e1\<rparr>"
    "snd (Shard_TTL E t1 t2 k (Cache_shard k c)) = (Cache_shard k c)\<lparr>evictor := e2\<rparr>"
    "snd (Shard_Delete E k (Cache_shard k c)) = (Cache_shard k c)\<lparr>evictor := e3\<rparr>"
    using Shard_Get_evictor Shard_TTL_evictor Shard_Delete_evictor by metis
  then show "same_containers c (snd (Cache_Get E now k c))"
    "same_containers c (snd (Cache_TTL E t1 t2 k c))"
    "same_containers c (snd (Cache_Delete E k c))"
    "same_containers c (Cache_Set E now k v ttl c)"
    using assms by (simp_all add: same_containers_def Cache_Get_def Cache_TTL_def Cache_Delete_def
        Cache_Set_def Shard_Set_def case_prod_unfold)
qed

lemma mget_loop_reads:
  "cache_ok lru_ok c \<Longrightarrow> only_expired env c (snd (mget_loop env i keys c))
     \<and> same_containers c (snd (mget_loop env i keys c))"
proof (induction keys arbitrary: i c)
  case (Cons key keys)
  let ?c = "snd (Cache_Get lru_evictor (clk env i) key c)"
  note get = lru.Cache_Get_eq [OF Cons.prems, of "clk env i" key]
  have "only_expired env c ?c" by (rule only_expired_dropped [OF get(3)])
  moreover have "same_containers c ?c" by (rule Cache_evictor_frames(1) [OF cache_okD [OF Cons.prems]])
  ultimately show ?case
    using Cons.IH [OF get(2), of "i + 1"]
    by (auto simp: case_prod_unfold intro: only_expired_trans same_containers_trans)
qed simp

definition reads_only :: "command \<Rightarrow> bool" where
  "reads_only f \<longleftrightarrow> (\<forall>env args h r h'. cache_ok lru_ok (h_cache h) \<longrightarrow> f env args h = Ret (r, h')
     \<longrightarrow> only_expired env (h_cache h) (h_cache h') \<and> same_containers (h_cache h) (h_cache h')
       \<and> h_spawned h' = h_spawned h)"

lemma reads_total:
  "(\<And>env args h. cache_ok lru_ok (h_cache h) \<Longrightarrow>
      only_expired env (h_cache h) (h_cache (snd (g env args h)))
      \<and> same_containers (h_cache h) (h_cache (snd (g env args h)))
      \<and> h_spawned (snd (g env args h)) = h_spawned h) \<Longrightarrow> reads_only (total g)"
  by (simp add: reads_only_def total_def) (metis snd_conv)

lemma reads_Scan: "reads_only h_Scan"
  by (auto simp: reads_only_def dest: h_Scan_state)

lemma spawned_reads [simp]:
  "h_spawned (snd (h_Get env args h)) = h_spawned h" "h_spawned (snd (h_TTL env args h)) = h_spawned h"
  "h_spawned (snd (h_Strlen env args h)) = h_spawned h" "h_spawned (snd (h_MGet env args h)) = h_spawned h"
  by (simp_all add: h_Get_def h_TTL_def h_Strlen_def h_MGet_def case_prod_unfold)

lemma string_reads:
  "reads_only (total h_Get)" "reads_only (total h_TTL)" "reads_only (total h_Strlen)" "reads_only (total h_MGet)"
  by (rule reads_total, simp add: h_cache_strings mget_loop_reads Cache_evictor_frames cache_okD
      only_expired_dropped [OF lru.Cache_Get_eq(3)] only_expired_dropped [OF lru.Cache_TTL_eq(3)])+

lemma commands_read: "list_all (\<lambda>(n, f). \<not> isWriteCommand n \<longrightarrow> reads_only f) commands"
  unfolding commands_def
  by (simp add: isWriteCommand_def reads_Scan string_reads reads_total)

subsection \<open>Properties\<close>

text \<open>C30: A command that the server does not classify as a write changes no data: every hash,
  list, set and sorted set is as before, every string too unless it had expired, and nothing is
  sent to the log.  So a transaction that watches a key misses no change for lack of a
  classification.\<close>

theorem reads_change_nothing:
  assumes "GetHandler cmd = Some f" and "\<not> isWriteCommand cmd"
    and "cache_ok lru_ok (h_cache h)" and "f env args h = Ret (r, h')"
  shows "same_containers (h_cache h) (h_cache h') \<and> only_expired env (h_cache h) (h_cache h')
    \<and> h_spawned h' = h_spawned h"
  using GetHandler_all [OF commands_read assms(1)] assms(2-4) unfolding reads_only_def by blast

definition witness_env :: env where
  "witness_env = \<lparr>clk = (\<lambda>_. 100), iter = id, uni_upper = id, parse_float = (\<lambda>_. None),
     format_float = (\<lambda>_. []), mem_stats = []\<rparr>"

lemma reads_change_nothing_witness:
  "h_spawned (snd (h_Get witness_env [''a''] (NewHandler (NewCache (Engine DefaultConfig)) True))) = []"
  using reads_change_nothing [of "''GET''" "total h_Get" "NewHandler (NewCache (Engine DefaultConfig)) True"
      witness_env "[''a'']" "fst (h_Get witness_env [''a''] (NewHandler (NewCache (Engine DefaultConfig)) True))"
      "snd (h_Get witness_env [''a''] (NewHandler (NewCache (Engine DefaultConfig)) True))"]
    NewCache_ok
  by (simp add: GetHandler_def commands_def isWriteCommand_def NewHandler_def total_def)

end
