(* ===== verification/Replies.thy ===== *)
theory Replies
  imports Commands
begin

section \<open>The replies of the commands\<close>

text \<open>
  The type of a reply (\<^verbatim>\<open>internal/server/resp.go\<close>): a value uses only the fields of its type, and
  a simple string or an error fits on one line, which the encoder relies on.  All handlers of
  \<^verbatim>\<open>internal/handler\<close> return such values, but for POLICY and MEMORY, which copy an argument into a
  simple string.
\<close>

fun well_typed :: "RESPValue \<Rightarrow> bool" where
  "well_typed (RESPValue t s i vs n) \<longleftrightarrow>
     (t \<in> {SimpleString, Error} \<longrightarrow> CR \<notin> set s \<and> LF \<notin> set s \<and> \<not> n)
     \<and> (t \<noteq> Integer \<longrightarrow> i = 0) \<and> (t \<in> {Integer, Array} \<longrightarrow> s = []) \<and> (t \<noteq> Array \<longrightarrow> vs = [])
     \<and> (n \<longrightarrow> s = [] \<and> vs = []) \<and> list_all well_typed vs"

definition typed_command :: "command \<Rightarrow> bool" where
  "typed_command f \<longleftrightarrow> (\<forall>env args h r h'. f env args h = Ret (r, h') \<longrightarrow> well_typed r)"

lemma typed_total: "(\<And>env args h. well_typed (fst (g env args h))) \<Longrightarrow> typed_command (total g)"
  by (simp add: typed_command_def total_def) (metis fst_conv)

lemma typed_constants [simp]:
  "well_typed (integer i)" "well_typed (bulk s)" "well_typed null_bulk" "well_typed (bulk_or_null r)"
  "well_typed (array vs) = list_all well_typed vs" "well_typed not_an_integer" "well_typed (simple ''OK'')"
  "well_typed (simple ''PONG'')" "well_typed (err ''ERR value is not a valid float'')"
  by (simp_all add: bulk_or_null_def not_an_integer_def split: option.split)

lemma typed_wrong_args [simp]:
  "CR \<notin> set cmd \<Longrightarrow> LF \<notin> set cmd \<Longrightarrow> well_typed (wrong_args cmd)"
  by (simp add: wrong_args_def quoted_def)

lemma typed_bulks [simp]: "list_all well_typed (map bulk xs)"
  by (simp add: list_all_iff)

lemma typed_fold:
  assumes "\<And>x. list_all well_typed (g x)"
  shows "list_all well_typed acc \<Longrightarrow> list_all well_typed (foldl (\<lambda>acc x. acc @ g x) acc xs)"
  using assms by (induction xs arbitrary: acc) simp_all

lemma typed_mget: "list_all well_typed (fst (mget_loop env i keys c))"
  by (induction env i keys c rule: mget_loop.induct) (auto split: prod.splits)

lemma typed_strings:
  "typed_command (total h_Ping)" "typed_command (total h_Echo)" "typed_command (total h_Get)"
  "typed_command (total h_Exists)" "typed_command (total h_Set)" "typed_command (total h_Delete)"
  "typed_command (total h_TTL)" "typed_command (total h_Append)" "typed_command (total h_Strlen)"
  "typed_command (total h_MGet)" "typed_command (total h_MSet)" "typed_command (total h_MSetNX)"
  by (rule typed_total;
      simp add: h_Ping_def h_Echo_def h_Get_def h_Exists_def h_Set_def h_Delete_def h_TTL_def h_Append_def
        h_Strlen_def h_MGet_def h_MSet_def h_MSetNX_def typed_mget case_prod_unfold Let_def
        del: well_typed.simps split: option.split)+

lemma typed_pairs: "list_all well_typed (foldl (\<lambda>result p. result @ [bulk (fst p), bulk (snd p)]) [] ps)"
  using typed_fold [of "\<lambda>p. [bulk (fst p), bulk (snd p)]" "[]" ps] by simp

lemma typed_scores:
  "list_all well_typed (foldl (\<lambda>result m. result @ bulk (f m) # (if b then [bulk (g m)] else [])) [] ms)"
  using typed_fold [of "\<lambda>m. [bulk (f m)] @ (if b then [bulk (g m)] else [])" "[]" ms] by simp

lemma typed_containers:
  "typed_command (total h_HSet)" "typed_command (total h_HGet)" "typed_command (total h_HGetAll)"
  "typed_command (total h_HDel)" "typed_command (total h_HLen)" "typed_command (total h_HExists)"
  "typed_command (total h_HKeys)" "typed_command (total h_HVals)" "typed_command (total h_LPush)"
  "typed_command (total h_RPush)" "typed_command (total h_LPop)" "typed_command (total h_RPop)"
  "typed_command (total h_LRange)" "typed_command (total h_LLen)" "typed_command (total h_SAdd)"
  "typed_command (total h_SRem)" "typed_command (total h_SMembers)" "typed_command (total h_SIsMember)"
  "typed_command (total h_SCard)" "typed_command (total h_ZAdd)" "typed_command (total h_ZRange)"
  "typed_command (total h_ZRem)" "typed_command (total h_ZCard)" "typed_command (total h_ZScore)"
  by (rule typed_total;
      simp add: h_HSet_def h_HGet_def h_HGetAll_def h_HDel_def h_HLen_def h_HExists_def h_HKeys_def
        h_HVals_def h_LPush_def h_RPush_def h_LPop_def h_RPop_def h_LRange_def h_LLen_def h_SAdd_def
        h_SRem_def h_SMembers_def h_SIsMember_def h_SCard_def h_ZAdd_def h_ZRange_def h_ZRem_def
        h_ZCard_def h_ZScore_def typed_pairs typed_scores case_prod_unfold Let_def
        del: well_typed.simps split: option.split)+

lemma typed_scan: "typed_command h_Scan"
  by (auto simp: typed_command_def h_Scan_def simp del: well_typed.simps
      split: if_splits option.splits prod.splits outcome.splits)

lemma commands_typed:
  "list_all (\<lambda>(n, f). n \<notin> {''POLICY'', ''MEMORY''} \<longrightarrow> typed_command f) commands"
  unfolding commands_def by (simp add: typed_strings typed_containers typed_scan)

text \<open>C26: Every reply has the type it says: whatever its arguments and the data, a command other than
  POLICY and MEMORY answers with a value that uses only the fields of its type, and whose simple
  strings and errors contain no line break, so that it goes out as exactly one RESP value.\<close>

theorem replies_well_typed:
  assumes "GetHandler cmd = Some f" and "cmd \<notin> {''POLICY'', ''MEMORY''}"
    and "f env args h = Ret (r, h')"
  shows "well_typed r"
  using GetHandler_all [OF commands_typed assms(1)] assms(2,3) unfolding typed_command_def by blast

lemma replies_well_typed_witness:
  "well_typed (fst (h_HGetAll witness_env [''k''] (NewHandler (NewCache (Engine DefaultConfig)) True)))"
  using replies_well_typed [of "''HGETALL''" "total h_HGetAll" witness_env "[''k'']" "NewHandler (NewCache (Engine DefaultConfig)) True"]
  by (simp add: GetHandler_def commands_def total_def prod_eq_iff)

end
