(* ===== verification/HandlerProps.thy ===== *)
theory HandlerProps
  imports Commands
begin

section \<open>What the commands do: replies and effects\<close>

text \<open>
  The contract of the data commands: the reply, the effect on the container at the key, and
  that nothing else changes (\<open>frame\<close>).  The facts about the loops come from the interpretations
  of \<open>keyed_store\<close>.
\<close>

abbreviation hash_at :: "string \<Rightarrow> handler \<Rightarrow> string \<Rightarrow> string option" where
  "hash_at key h \<equiv> map_of (or_empty (Cache_GetHash key (h_cache h)))"

abbreviation list_at :: "string \<Rightarrow> handler \<Rightarrow> string list" where
  "list_at key h \<equiv> or_empty (Cache_GetList key (h_cache h))"

abbreviation set_at :: "string \<Rightarrow> handler \<Rightarrow> string set" where
  "set_at key h \<equiv> dom (map_of (or_empty (Cache_GetSet key (h_cache h))))"

abbreviation zset_at :: "string \<Rightarrow> handler \<Rightarrow> string \<Rightarrow> f64 option" where
  "zset_at key h \<equiv> map_of (or_empty (Cache_GetSortedSet key (h_cache h)))"

text \<open>Equal except for the hash (list, set, sorted set) at the key.\<close>

definition frame :: "string \<Rightarrow> handler \<Rightarrow> handler \<Rightarrow> bool" where
  "frame key h h' \<longleftrightarrow> lru_item (h_cache h') = lru_item (h_cache h) \<and>
     (\<forall>k. k \<noteq> key \<longrightarrow> Cache_GetHash k (h_cache h') = Cache_GetHash k (h_cache h)
        \<and> Cache_GetList k (h_cache h') = Cache_GetList k (h_cache h)
        \<and> Cache_GetSet k (h_cache h') = Cache_GetSet k (h_cache h)
        \<and> Cache_GetSortedSet k (h_cache h') = Cache_GetSortedSet k (h_cache h))"

lemma frame_refl [simp]: "frame key h h"
  by (simp add: frame_def)

lemma frame_puts:
  assumes "cache_size_ok (h_cache h)"
  shows "h_cache h' = Cache_put_hash key x (h_cache h) \<Longrightarrow> frame key h h'"
    and "h_cache h' = Cache_put_list key l (h_cache h) \<Longrightarrow> frame key h h'"
    and "h_cache h' = Cache_put_set key s (h_cache h) \<Longrightarrow> frame key h h'"
    and "h_cache h' = Cache_put_sorted_set key z (h_cache h) \<Longrightarrow> frame key h h'"
  using assms by (simp_all add: frame_def)

lemma Cache_put_twice [simp]:
  assumes "cache_size_ok c"
  shows "Cache_put_hash k x (Cache_put_hash k y c) = Cache_put_hash k x c"
    and "Cache_put_list k l (Cache_put_list k l' c) = Cache_put_list k l c"
    and "Cache_put_set k s (Cache_put_set k s' c) = Cache_put_set k s c"
    and "Cache_put_sorted_set k z (Cache_put_sorted_set k z' c) = Cache_put_sorted_set k z c"
  unfolding Cache_put_hash_def Cache_put_list_def Cache_put_set_def Cache_put_sorted_set_def
    Cache_shard_put [OF assms]
  by (simp_all add: Cache_put_def getShard_def Shard_put_hash_def Shard_put_list_def Shard_put_set_def
      Shard_put_sorted_set_def)

text \<open>The state after each storing and deleting command.\<close>

lemma h_cache_HSet:
  assumes "cache_size_ok (h_cache h)" and "fs \<noteq> []" and "even (length fs)"
  shows "h_HSet env (key # fs) h =
    (let r = hash.put_all (arg_pairs fs) (or_empty (Cache_GetHash key (h_cache h)))
     in (integer (fst r), go_log ''HSET'' (key # fs)
          (h\<lparr>h_cache := Cache_put_hash key (snd r) (h_cache h)\<rparr>)))"
proof -
  have "\<not> length (key # fs) < 3" using assms(2,3) by (cases fs; cases "tl fs") auto
  then show ?thesis
    using assms by (simp add: h_HSet_def Cache_GetOrCreate_eqs case_prod_unfold Let_def odd_iff_mod_2_eq_one)
qed

lemma h_cache_push:
  assumes "cache_size_ok (h_cache h)" and "values \<noteq> []"
  shows "h_LPush env (key # values) h =
    (integer (int (length (list_at key h) + length values)), go_log ''LPUSH'' (key # values)
       (h\<lparr>h_cache := Cache_put_list key (rev values @ list_at key h) (h_cache h)\<rparr>))"
    and "h_RPush env (key # values) h =
    (integer (int (length (list_at key h) + length values)), go_log ''RPUSH'' (key # values)
       (h\<lparr>h_cache := Cache_put_list key (list_at key h @ values) (h_cache h)\<rparr>))"
  using assms by (auto simp: h_LPush_def h_RPush_def Cache_GetOrCreate_eqs List_LPush_eq List_RPush_eq
      Let_def)

lemma h_cache_SAdd:
  assumes "cache_size_ok (h_cache h)" and "members \<noteq> []"
  shows "h_SAdd env (key # members) h =
    (let r = Set_Add members (or_empty (Cache_GetSet key (h_cache h)))
     in (integer (fst r), go_log ''SADD'' (key # members)
          (h\<lparr>h_cache := Cache_put_set key (snd r) (h_cache h)\<rparr>)))"
  using assms by (auto simp: h_SAdd_def Cache_GetOrCreate_eqs case_prod_unfold Let_def)

subsection \<open>Properties of the hash commands\<close>

text \<open>HSET key field value \<dots> replies with the number of fields that the hash did not have,
  stores every pair (the last one where a field is repeated), keeps the other fields, and
  changes no other key of any type; HGET then replies with the stored value.\<close>

theorem hset_spec:
  assumes "cache_ok lru_ok (h_cache h)" and "fs \<noteq> []" and "even (length fs)"
    and "h_HSet env (key # fs) h = (r, h')"
  shows "r = integer (int (card (fst ` set (arg_pairs fs) - dom (hash_at key h))))
    \<and> hash_at key h' = hash_at key h ++ map_of (rev (arg_pairs fs))
    \<and> frame key h h'
    \<and> fst (h_HGet env [key, f] h') = bulk_or_null ((hash_at key h ++ map_of (rev (arg_pairs fs))) f)"
proof -
  note size = cache_okD [OF assms(1)]
  note ok = Cache_or_empty_ok(1) [OF assms(1), of key]
  let ?p = "hash.put_all (arg_pairs fs) (or_empty (Cache_GetHash key (h_cache h)))"
  have r: "r = integer (fst ?p)" and c: "h_cache h' = Cache_put_hash key (snd ?p) (h_cache h)"
    using h_cache_HSet [OF size assms(2,3), of env key] assms(4) by (auto simp: Let_def)
  have "hash_at key h' = map_of (snd ?p)" using size by (simp add: c)
  then show ?thesis
    using hash.put_all_count [OF ok] hash.put_all_lookup [OF ok] frame_puts(1) [OF size c] size
    by (simp add: r h_HGet_def c Hash_Get_def)
qed

lemma hset_spec_witness:
  "fst (h_HGet witness_env [''k'', ''f'']
     (snd (h_HSet witness_env [''k'', ''f'', ''1'', ''f'', ''2''] (NewHandler (NewCache witness_cfg) False)))) = bulk ''2''"
  using hset_spec [of "NewHandler (NewCache witness_cfg) False" "[''f'', ''1'', ''f'', ''2'']" witness_env "''k''"
      "fst (h_HSet witness_env [''k'', ''f'', ''1'', ''f'', ''2''] (NewHandler (NewCache witness_cfg) False))"
      "snd (h_HSet witness_env [''k'', ''f'', ''1'', ''f'', ''2''] (NewHandler (NewCache witness_cfg) False))" "''f''"]
    NewCache_ok
  by (simp add: NewHandler_def bulk_or_null_def)

text \<open>HDEL key field \<dots> replies with the number of distinct given fields that were in the
  hash, removes exactly these, and changes no other key.\<close>

theorem hdel_spec:
  assumes "cache_ok lru_ok (h_cache h)" and "fs \<noteq> []"
    and "h_HDel env (key # fs) h = (r, h')"
  shows "r = integer (int (card (set fs \<inter> dom (hash_at key h))))
    \<and> hash_at key h' = hash_at key h |` (- set fs)
    \<and> frame key h h'"
proof (cases "Cache_GetHash key (h_cache h)")
  case None
  then show ?thesis using assms by (auto simp: h_HDel_def restrict_map_def)
next
  case (Some x)
  note size = cache_okD [OF assms(1)]
  have ok: "map_ok x" using Cache_get_ok(1) [OF assms(1) Some] .
  have r: "r = integer (fst (hash.del_all fs x))"
    and c: "h_cache h' = Cache_put_hash key (snd (hash.del_all fs x)) (h_cache h)"
    using assms(2,3) Some by (auto simp: h_HDel_def case_prod_unfold)
  show ?thesis
    using hash.del_all_count [OF ok] hash.del_all_lookup [OF ok] frame_puts(1) [OF size c] size Some
    by (simp add: r c)
qed

lemma hdel_spec_witness:
  "fst (h_HDel witness_env [''k'', ''f''] (NewHandler (NewCache witness_cfg) False)) = integer 0"
proof -
  have "hash_at ''k'' (NewHandler (NewCache witness_cfg) False) ''f'' = None"
  proof -
    have "Cache_GetHash ''k'' (NewCache witness_cfg) = None"
      using Cache_shard_in [OF NewCache_size, of "''k''" witness_cfg]
        NewShard_empty [of "EvictionPolicy witness_cfg" "EvictorCapacity witness_cfg" "MaxMemory witness_cfg"]
      by (auto simp: Cache_GetHash_def Shard_GetHash_def NewCache_def Let_def empty_shard_def split: if_splits)
    then show ?thesis by (simp add: NewHandler_def)
  qed
  then show ?thesis
    using hdel_spec [of "NewHandler (NewCache witness_cfg) False" "[''f'']" witness_env "''k''"
        "fst (h_HDel witness_env [''k'', ''f''] (NewHandler (NewCache witness_cfg) False))"
        "snd (h_HDel witness_env [''k'', ''f''] (NewHandler (NewCache witness_cfg) False))"] NewCache_ok
    by (simp add: NewHandler_def domIff)
qed

subsection \<open>Properties of the list commands\<close>

text \<open>LPUSH puts the values in front of the list one after the other (so in reverse), RPUSH
  appends them in order; both reply with the new length, create the list when there is none,
  and change no other key.\<close>

theorem push_spec:
  assumes "cache_ok lru_ok (h_cache h)" and "vs \<noteq> []"
  shows "fst (h_LPush env (key # vs) h) = integer (int (length (list_at key h) + length vs))
    \<and> list_at key (snd (h_LPush env (key # vs) h)) = rev vs @ list_at key h
    \<and> frame key h (snd (h_LPush env (key # vs) h))
    \<and> fst (h_RPush env (key # vs) h) = integer (int (length (list_at key h) + length vs))
    \<and> list_at key (snd (h_RPush env (key # vs) h)) = list_at key h @ vs
    \<and> frame key h (snd (h_RPush env (key # vs) h))"
  using cache_okD [OF assms(1)] by (simp add: h_cache_push assms(2) frame_puts(2))

lemma NewCache_containers:
  "Cache_GetHash k (NewCache cfg) = None" "Cache_GetList k (NewCache cfg) = None"
  "Cache_GetSet k (NewCache cfg) = None" "Cache_GetSortedSet k (NewCache cfg) = None"
  using Cache_shard_in [OF NewCache_size, of k cfg]
    NewShard_empty [of "EvictionPolicy cfg" "EvictorCapacity cfg" "MaxMemory cfg"]
  by (auto simp: Cache_GetHash_def Cache_GetList_def Cache_GetSet_def Cache_GetSortedSet_def
      Shard_GetHash_def Shard_GetList_def Shard_GetSet_def Shard_GetSortedSet_def
      NewCache_def Let_def empty_shard_def split: if_splits)

lemma push_spec_witness:
  "list_at ''k'' (snd (h_LPush witness_env [''k'', ''a'', ''b''] (NewHandler (NewCache witness_cfg) True)))
     = [''b'', ''a'']"
  using push_spec [of "NewHandler (NewCache witness_cfg) True" "[''a'', ''b'']" witness_env "''k''"] NewCache_ok
  by (simp add: NewHandler_def NewCache_containers)

text \<open>LPOP and RPOP remove and return the first and the last element of the list, and the
  rest stays in order; on a missing or empty list they return null and change nothing.\<close>

theorem pop_spec:
  assumes "cache_ok lru_ok (h_cache h)"
  shows "fst (h_LPop env [key] h) = (if list_at key h = [] then null_bulk else bulk (hd (list_at key h)))
    \<and> list_at key (snd (h_LPop env [key] h)) = tl (list_at key h)
    \<and> fst (h_RPop env [key] h) = (if list_at key h = [] then null_bulk else bulk (last (list_at key h)))
    \<and> list_at key (snd (h_RPop env [key] h)) = butlast (list_at key h)
    \<and> (list_at key h = [] \<longrightarrow> snd (h_LPop env [key] h) = h \<and> snd (h_RPop env [key] h) = h)"
  using cache_okD [OF assms]
  by (cases "list_at key h"; cases "Cache_GetList key (h_cache h)")
    (simp_all add: h_LPop_def h_RPop_def List_LPop_def List_RPop_def)

lemma pop_spec_witness:
  "fst (h_RPop witness_env [''k''] (snd (h_RPush witness_env [''k'', ''a'', ''b'']
      (NewHandler (NewCache witness_cfg) True)))) = bulk ''b''"
proof -
  let ?new = "NewHandler (NewCache witness_cfg) True"
  let ?h = "snd (h_RPush witness_env [''k'', ''a'', ''b''] ?new)"
  have ok0: "cache_ok lru_ok (h_cache ?new)" using NewCache_ok by (simp add: NewHandler_def)
  then have ok: "cache_ok lru_ok (h_cache ?h)" by (rule container_commands_ok)
  have "list_at ''k'' ?h = [''a'', ''b'']"
    using h_cache_push(2) [OF cache_okD [OF ok0], of "[''a'', ''b'']" witness_env "''k''"] cache_okD [OF ok0]
    by (simp add: NewHandler_def NewCache_containers)
  then show ?thesis using pop_spec [OF ok, of witness_env "''k''"] by simp
qed

text \<open>LRANGE replies with the elements from the start to the stop index, both inclusive,
  negative indices counting from the end and both cut to the list's bounds; \<open>LRANGE key 0 -1\<close>
  is the whole list.\<close>

theorem lrange_spec:
  assumes "Atoi a = Some start" and "Atoi b = Some stop"
  shows "h_LRange env [key, a, b] h = (array (map bulk (go_slice start stop (list_at key h))), h)
    \<and> h_LRange env [key, ''0'', ''-1''] h = (array (map bulk (list_at key h)), h)"
proof -
  have "Atoi ''0'' = Some 0" "Atoi ''-1'' = Some (-1)" by code_simp+
  moreover have "go_slice i j [] = []" for i j by (simp add: go_slice_def)
  ultimately show ?thesis
    using assms by (auto simp: h_LRange_def LRange_slice slice_all split: option.split)
qed

lemma lrange_spec_witness:
  "h_LRange witness_env [''k'', ''1'', ''2''] (NewHandler (NewCache witness_cfg) True) = (array (map bulk (go_slice 1 2 (list_at ''k'' (NewHandler (NewCache witness_cfg) True)))), NewHandler (NewCache witness_cfg) True)"
proof -
  have "Atoi ''1'' = Some 1" "Atoi ''2'' = Some 2" by code_simp+
  then show ?thesis using lrange_spec by blast
qed

subsection \<open>Properties of the set commands\<close>

text \<open>SADD adds the given members and replies with how many were new (a repeated member
  counts once), SREM removes them and replies with how many were there; both leave every other
  key alone.\<close>

theorem sadd_srem_spec:
  assumes "cache_ok lru_ok (h_cache h)" and "ms \<noteq> []"
  shows "fst (h_SAdd env (key # ms) h) = integer (int (card (set ms - set_at key h)))
    \<and> set_at key (snd (h_SAdd env (key # ms) h)) = set_at key h \<union> set ms
    \<and> frame key h (snd (h_SAdd env (key # ms) h))
    \<and> fst (h_SRem env (key # ms) h) = integer (int (card (set ms \<inter> set_at key h)))
    \<and> set_at key (snd (h_SRem env (key # ms) h)) = set_at key h - set ms
    \<and> frame key h (snd (h_SRem env (key # ms) h))"
proof -
  note size = cache_okD [OF assms(1)]
  note add = Set_Add_spec [OF Cache_or_empty_ok(2) [OF assms(1), of key], of ms]
  note rem = Set_Remove_spec [OF Cache_or_empty_ok(2) [OF assms(1), of key], of ms]
  have "fst (h_SAdd env (key # ms) h) = integer (int (card (set ms - set_at key h)))
    \<and> set_at key (snd (h_SAdd env (key # ms) h)) = set_at key h \<union> set ms
    \<and> frame key h (snd (h_SAdd env (key # ms) h))"
    using size add by (simp add: h_cache_SAdd [OF size assms(2)] Let_def frame_puts(3))
  moreover have "fst (h_SRem env (key # ms) h) = integer (int (card (set ms \<inter> set_at key h)))
    \<and> set_at key (snd (h_SRem env (key # ms) h)) = set_at key h - set ms
    \<and> frame key h (snd (h_SRem env (key # ms) h))"
  proof (cases "Cache_GetSet key (h_cache h)")
    case None
    then show ?thesis using assms(2) by (auto simp: h_SRem_def)
  next
    case (Some x)
    with size rem show ?thesis using assms(2)
      by (auto simp: h_SRem_def case_prod_unfold frame_puts(3))
  qed
  ultimately show ?thesis by blast
qed

lemma sadd_srem_spec_witness:
  "fst (h_SAdd witness_env [''k'', ''a'', ''b'', ''a''] (NewHandler (NewCache witness_cfg) True)) = integer 2"
  using sadd_srem_spec [of "NewHandler (NewCache witness_cfg) True" "[''a'', ''b'', ''a'']" witness_env "''k''"] NewCache_ok
  by (simp add: NewHandler_def NewCache_containers card_insert_if)

subsection \<open>Properties of the sorted set commands\<close>

text \<open>What ZADD stores: the pairs before the first score that does not parse.\<close>

definition zadd_pairs :: "env \<Rightarrow> string list \<Rightarrow> (string \<times> f64) list" where
  "zadd_pairs env ps = map (\<lambda>(s, m). (m, the (parse_float env s)))
     (takeWhile (\<lambda>(s, m). parse_float env s \<noteq> None) (arg_pairs ps))"

lemma zadd_loop_put_all:
  "zadd_loop env ps n ss =
    (let r = zset.put_all (map (\<lambda>(s, m). (m, the (parse_float env s)))
        (takeWhile (\<lambda>(s, m). parse_float env s \<noteq> None) ps)) ss
     in (if \<forall>(s, m) \<in> set ps. parse_float env s \<noteq> None then Some (n + fst r) else None, snd r))"
proof (induction env ps n ss rule: zadd_loop.induct)
  case (2 env score member rest n ss)
  then show ?case by (cases "parse_float env score") (auto simp: Let_def case_prod_unfold)
qed (simp add: Let_def)

lemma h_cache_ZAdd:
  assumes "cache_size_ok (h_cache h)" and "ps \<noteq> []" and "even (length ps)"
  shows "h_ZAdd env (key # ps) h =
    (let r = zset.put_all (zadd_pairs env ps) (or_empty (Cache_GetSortedSet key (h_cache h)));
         h' = h\<lparr>h_cache := Cache_put_sorted_set key (snd r) (h_cache h)\<rparr>
     in if \<forall>(s, m) \<in> set (arg_pairs ps). parse_float env s \<noteq> None
        then (integer (fst r), go_log ''ZADD'' (key # ps) h')
        else (err ''ERR value is not a valid float'', h'))"
proof -
  have "\<not> length (key # ps) < 3" using assms(2,3) by (cases ps; cases "tl ps") auto
  moreover have "length ps mod 2 = 0" using assms(3) by presburger
  ultimately show ?thesis
    using assms(1) by (simp add: h_ZAdd_def zadd_loop_put_all zadd_pairs_def
        Cache_GetOrCreate_eqs case_prod_unfold Let_def)
qed

text \<open>C32: ZADD key score member \<dots> stores the members with their scores (the last score of a
  repeated member), replies with the number of new members, and changes no other key.  If a
  score does not parse, the reply is an error, but the pairs before it have been stored all
  the same, and nothing is sent to the log.\<close>

theorem zadd_spec:
  assumes "cache_ok lru_ok (h_cache h)" and "ps \<noteq> []" and "even (length ps)"
    and "h_ZAdd env (key # ps) h = (r, h')"
  shows "zset_at key h' = zset_at key h ++ map_of (rev (zadd_pairs env ps))
    \<and> frame key h h'
    \<and> (if \<forall>(s, m) \<in> set (arg_pairs ps). parse_float env s \<noteq> None
       then r = integer (int (card (fst ` set (zadd_pairs env ps) - dom (zset_at key h))))
       else r = err ''ERR value is not a valid float'' \<and> h_spawned h' = h_spawned h)"
proof -
  note size = cache_okD [OF assms(1)]
  note ok = Cache_or_empty_ok(3) [OF assms(1), of key]
  let ?p = "zset.put_all (zadd_pairs env ps) (or_empty (Cache_GetSortedSet key (h_cache h)))"
  have c: "h_cache h' = Cache_put_sorted_set key (snd ?p) (h_cache h)"
    using h_cache_ZAdd [OF size assms(2,3), of env key] assms(4) by (auto simp: Let_def split: if_splits)
  have r: "if \<forall>(s, m) \<in> set (arg_pairs ps). parse_float env s \<noteq> None then r = integer (fst ?p)
      else r = err ''ERR value is not a valid float'' \<and> h_spawned h' = h_spawned h"
    using h_cache_ZAdd [OF size assms(2,3), of env key] assms(4) by (auto simp: Let_def split: if_splits)
  have "zset_at key h' = zset_at key h ++ map_of (rev (zadd_pairs env ps))"
    using zset.put_all_lookup [OF ok] size by (simp add: c)
  then show ?thesis
    using r frame_puts(4) [OF size c] by (simp add: zset.put_all_count [OF ok])
qed

lemma zadd_spec_witness:
  "zset_at ''k'' (snd (h_ZAdd (witness_env\<lparr>parse_float := (\<lambda>s. if s = ''1'' then Some 1 else None)\<rparr>)
      [''k'', ''1'', ''a'', ''x'', ''b''] (NewHandler (NewCache witness_cfg) True))) = [''a'' \<mapsto> 1]"
  using zadd_spec [of "NewHandler (NewCache witness_cfg) True" "[''1'', ''a'', ''x'', ''b'']"
      "witness_env\<lparr>parse_float := (\<lambda>s. if s = ''1'' then Some 1 else None)\<rparr>" "''k''", OF _ _ _ surjective_pairing]
    NewCache_ok
  by (simp add: NewHandler_def NewCache_containers zadd_pairs_def)

text \<open>ZRANGE orders the members by score: when no score is NaN, the reply lists the slice
  from start to stop of an arrangement of all members of the set in which the scores do not
  decrease.\<close>

theorem zrange_sorted:
  assumes "cache_ok lru_ok (h_cache h)" and "order_ok (iter env)"
    and "Cache_GetSortedSet key (h_cache h) = Some ss" and "\<forall>x \<in> snd ` set ss. \<not> is_nan x"
    and "Atoi a = Some start" and "Atoi b = Some stop"
  shows "\<exists>ms. sorted (map (f64_rank \<circ> snd) ms) \<and> mset ms = mset ss
    \<and> h_ZRange env [key, a, b] h = (array (map (bulk \<circ> fst) (go_slice start stop ms)), h)"
proof -
  let ?lt = "\<lambda>a b. f64_less (Score a) (Score b)"
  let ?ms = "sort_Slice ?lt (collect_members (iter env) ss)"
  let ?un = "\<lambda>m. (Member m, Score m)"
  have ok: "map_ok ss" by (rule Cache_get_ok(3) [OF assms(1,3)])
  have mem: "map ?un (collect_members (iter env) ss) = range_map (iter env) ss"
    by (simp add: collect_members_map comp_def case_prod_unfold)
  have "mset (map ?un ?ms) = image_mset ?un (mset (collect_members (iter env) ss))" by simp
  also have "\<dots> = mset (map ?un (collect_members (iter env) ss))" by (simp only: mset_map)
  also have "\<dots> = mset ss" by (simp only: mem mset_range_map [OF assms(2) ok])
  finally have perm: "mset (map ?un ?ms) = mset ss" .
  have nan: "\<not> is_nan (Score m)" if "m \<in> set (collect_members (iter env) ss)" for m
  proof -
    have "?un m \<in> set (map ?un (collect_members (iter env) ss))" using that by force
    then have "?un m \<in> set ss" by (simp only: mem set_range_map [OF assms(2) ok])
    with assms(4) show ?thesis by force
  qed
  have "sorted (map (\<lambda>m. f64_rank (Score m)) ?ms)"
    by (rule sort_Slice_sorted) (simp add: f64_less_def nan)
  then have srt: "sorted (map (f64_rank \<circ> snd) (map ?un ?ms))" by (simp add: comp_def)
  have slice2: "map (bulk \<circ> fst) (go_slice start stop (map ?un xs)) = map (bulk \<circ> Member) (go_slice start stop xs)"
    for xs
    by (simp add: go_slice_def take_map drop_map Let_def comp_def)
  have "h_ZRange env [key, a, b] h = (array (map (bulk \<circ> Member) (go_slice start stop ?ms)), h)"
    using assms(3,5,6) foldl_snoc [of "\<lambda>m. bulk (Member m)" "[]" "go_slice start stop ?ms"]
    by (simp add: h_ZRange_def Let_def SortedSet_Range_slice comp_def)
  then have "h_ZRange env [key, a, b] h = (array (map (bulk \<circ> fst) (go_slice start stop (map ?un ?ms))), h)"
    by (simp only: slice2)
  with perm srt show ?thesis by blast
qed

lemma zrange_sorted_witness:
  "\<exists>ms. sorted (map (f64_rank \<circ> snd) ms) \<and> mset ms = mset [(''a'', 2), (''b'', 1)]
    \<and> h_ZRange witness_env [''k'', ''0'', ''-1'']
        (NewHandler (Cache_put_sorted_set ''k'' [(''a'', 2), (''b'', 1)] (NewCache witness_cfg)) True)
      = (array (map (bulk \<circ> fst) (go_slice 0 (-1) ms)),
         NewHandler (Cache_put_sorted_set ''k'' [(''a'', 2), (''b'', 1)] (NewCache witness_cfg)) True)"
proof (rule zrange_sorted)
  show "cache_ok lru_ok (h_cache (NewHandler (Cache_put_sorted_set ''k'' [(''a'', 2), (''b'', 1)] (NewCache witness_cfg)) True))"
    using Cache_put_containers_ok(4) [OF NewCache_ok, of "[(''a'', 2), (''b'', 1)]"]
    by (simp add: NewHandler_def map_ok_def)
  show "Cache_GetSortedSet ''k'' (h_cache (NewHandler (Cache_put_sorted_set ''k'' [(''a'', 2), (''b'', 1)]
      (NewCache witness_cfg)) True)) = Some [(''a'', 2), (''b'', 1)]"
    by (simp add: NewHandler_def NewCache_size)
  show "\<forall>x \<in> snd ` set [(''a'', 2 :: f64), (''b'', 1)]. \<not> is_nan x"
    by (simp add: is_nan_def f64_magnitude_def)
  show "Atoi ''0'' = Some 0" by code_simp
  show "Atoi ''-1'' = Some (-1)" by code_simp
qed (simp add: witness_env_def)

subsection \<open>Properties of the string commands\<close>

lemma h_Get_reply:
  assumes "cache_ok lru_ok (h_cache h)"
  shows "fst (h_Get env [key] h) = bulk_or_null (live (clk env 0) (lru_item (h_cache h) key))"
  using lru.Cache_Get_eq(1) [OF assms, of "clk env 0" key] by (simp add: h_Get_def case_prod_unfold)

lemma h_Set_item:
  assumes "cache_ok lru_ok (h_cache h)"
  shows "lru_item (h_cache (snd (h_Set env (key # val # opts) h))) key
    = Some (NewItem (clk env 0) val (set_ttl env (key # val # opts)))"
  using lru.Cache_Set_hit [OF assms] by (simp add: h_cache_strings)

lemma Get_after_Set:
  assumes "cache_ok lru_ok (h_cache h)"
  shows "fst (h_Get env' [key] (snd (h_Set env (key # val # opts) h)))
    = bulk_or_null (live (clk env' 0) (Some (NewItem (clk env 0) val (set_ttl env (key # val # opts)))))"
  using h_Get_reply [OF string_commands_ok(2) [OF assms]] by (simp add: h_Set_item [OF assms])

lemma ToUpper_options [simp]:
  "ToUpper uni ''EX'' = ''EX''" "ToUpper uni ''PX'' = ''PX''"
  by (simp_all add: ToUpper_def is_ascii_def upper_char_def)

text \<open>After SET key value, GET replies with the value at any later time; after SET key value
  EX n (or PX n) with a positive n it does so for n seconds (milliseconds), the last instant
  included, and with null afterwards, as long as the expiry fits in 64 bits.\<close>

theorem set_get_reply:
  assumes "cache_ok lru_ok (h_cache h)" and "Atoi n = Some x" and "0 < x"
    and "0 \<le> clk env 0" and "clk env 0 + x * 1000000000 < 2 ^ 63"
  shows "fst (h_Get env' [key] (snd (h_Set env [key, val] h))) = bulk val
    \<and> fst (h_Get env' [key] (snd (h_Set env [key, val, ''EX'', n] h)))
      = (if clk env' 0 \<le> clk env 0 + x * 1000000000 then bulk val else null_bulk)
    \<and> fst (h_Get env' [key] (snd (h_Set env [key, val, ''PX'', n] h)))
      = (if clk env' 0 \<le> clk env 0 + x * 1000000 then bulk val else null_bulk)"
proof -
  have w: "wrap64 (x * 1000000000) = x * 1000000000" "wrap64 (x * 1000000) = x * 1000000"
    using assms(3-5) by (auto simp: in_int64_def intro!: wrap64_id)
  have ex: "in_int64 (clk env 0 + x * 1000000000)" "in_int64 (clk env 0 + x * 1000000)"
    using assms(3-5) by (auto simp: in_int64_def)
  show ?thesis
    using assms(2-4) IsExpired_NewItem [OF _ ex(1), of "clk env' 0" val]
      IsExpired_NewItem [OF _ ex(2), of "clk env' 0" val]
    by (auto simp: Get_after_Set [OF assms(1)] set_ttl_def w live_def bulk_or_null_def)
qed

lemma set_get_reply_witness:
  "fst (h_Get (witness_env\<lparr>clk := (\<lambda>_. 3000000101)\<rparr>) [''k'']
     (snd (h_Set witness_env [''k'', ''v'', ''EX'', ''3''] (NewHandler (NewCache witness_cfg) True)))) = null_bulk"
proof -
  have "Atoi ''3'' = Some 3" by code_simp
  then show ?thesis
    using set_get_reply [of "NewHandler (NewCache witness_cfg) True" "''3''" 3 witness_env
        "witness_env\<lparr>clk := (\<lambda>_. 3000000101)\<rparr>" "''k''" "''v''"] NewCache_ok
    by (simp add: NewHandler_def witness_env_def)
qed

text \<open>The expiry of SET \<dots> EX n overflows for a large n, although the reply is OK: when the
  expiry time passes \<open>2 ^ 63\<close> nanoseconds the value is gone at once, and when n seconds
  themselves pass it (up to \<open>2 ^ 64\<close>) the value never expires.\<close>

theorem set_ex_overflow:
  assumes "cache_ok lru_ok (h_cache h)" and "Atoi n = Some x"
    and "0 \<le> clk env 0" and "clk env 0 < 2 ^ 63" and "0 \<le> clk env' 0"
    and "2 ^ 63 \<le> clk env 0 + x * 1000000000" and "x * 1000000000 < 2 ^ 64"
  shows "fst (h_Set env [key, val, ''EX'', n] h) = simple ''OK''
    \<and> fst (h_Get env' [key] (snd (h_Set env [key, val, ''EX'', n] h)))
      = (if x * 1000000000 < 2 ^ 63 then null_bulk else bulk val)"
proof -
  let ?ttl = "set_ttl env [key, val, ''EX'', n]"
  have ttl: "?ttl = wrap64 (x * 1000000000)" using assms(2) by (simp add: set_ttl_def)
  have pos: "0 < x * 1000000000" using assms(4,6) by linarith
  have "live (clk env' 0) (Some (NewItem (clk env 0) val ?ttl))
      = (if x * 1000000000 < 2 ^ 63 then None else Some val)"
  proof (cases "x * 1000000000 < 2 ^ 63")
    case True
    then have t: "?ttl = x * 1000000000" using pos by (simp add: ttl wrap64_id in_int64_def)
    have e: "wrap64 (clk env 0 + x * 1000000000) = clk env 0 + x * 1000000000 - 2 ^ 64"
      using assms(3,4,6) True by (intro wrap64_over) simp_all
    have "IsExpired (clk env' 0) (NewItem (clk env 0) val ?ttl)"
      using True assms(4,5) pos by (simp add: IsExpired_def NewItem_def t e)
    with True show ?thesis by simp
  next
    case False
    then have "?ttl = x * 1000000000 - 2 ^ 64"
      using assms(7) by (simp add: ttl wrap64_over)
    then have "?ttl < 0" using assms(7) by simp
    with False show ?thesis by simp
  qed
  then show ?thesis
    using Get_after_Set [OF assms(1), of env' key env val "[''EX'', n]"]
    by (simp add: bulk_or_null_def h_Set_def)
qed

lemma set_ex_overflow_witness:
  "fst (h_Get witness_env [''k'']
     (snd (h_Set witness_env [''k'', ''v'', ''EX'', ''9223372037''] (NewHandler (NewCache witness_cfg) True)))) = bulk ''v''
   \<and> fst (h_Get witness_env [''k'']
     (snd (h_Set (witness_env\<lparr>clk := (\<lambda>_. 1700000000000000000)\<rparr>) [''k'', ''v'', ''EX'', ''9223372036'']
        (NewHandler (NewCache witness_cfg) True)))) = null_bulk"
proof -
  have n: "Atoi ''9223372037'' = Some 9223372037" "Atoi ''9223372036'' = Some 9223372036"
    by (simp_all add: ParseInt_def read_nat_def is_digit_def digit_val_def in_int64_def)
  have ok: "cache_ok lru_ok (h_cache (NewHandler (NewCache witness_cfg) True))"
    using NewCache_ok by (simp add: NewHandler_def)
  let ?e = "witness_env\<lparr>clk := (\<lambda>_. 1700000000000000000)\<rparr>"
  have clk: "clk witness_env 0 = 100" "clk ?e 0 = 1700000000000000000" by (simp_all add: witness_env_def)
  show ?thesis
    using set_ex_overflow [OF ok n(1), where env = witness_env and env' = witness_env and key = "''k''" and val = "''v''"]
      set_ex_overflow [OF ok n(2), where env = ?e and env' = witness_env and key = "''k''" and val = "''v''"]
    unfolding clk by simp
qed

lemma mset_loop_item:
  "cache_ok lru_ok c \<Longrightarrow>
     lru_item (mset_loop env i kvs c) k = None
     \<or> (case map_of (rev kvs) k of
          None \<Rightarrow> lru_item (mset_loop env i kvs c) k = lru_item c k
        | Some v \<Rightarrow> \<exists>n. lru_item (mset_loop env i kvs c) k = Some (NewItem (clk env n) v 0))"
proof (induction env i kvs c rule: mset_loop.induct)
  case (2 env i k1 v1 kvs c)
  let ?c = "Cache_Set lru_evictor (clk env i) k1 v1 0 c"
  note IH = "2.IH" [OF lru.Cache_Set_ok [OF "2.prems"]]
  show ?case
  proof (cases "map_of (rev kvs) k")
    case None
    then show ?thesis
      using IH lru.Cache_Set_hit [OF "2.prems", of "clk env i" k1 v1 0]
        lru.Cache_Set_other [OF "2.prems", of k k1 "clk env i" v1 0]
      by (cases "k = k1") (auto simp: map_add_def)
  next
    case (Some v)
    with IH show ?thesis by (auto simp: map_add_def)
  qed
qed simp

text \<open>MSETNX stores all of its pairs or none: when one of its keys is held by the cache it
  replies 0 and changes nothing; otherwise it replies 1, and then each of its keys holds the
  last value given for it unless it was evicted, and every other key its old value unless it
  was evicted.\<close>

theorem msetnx_all_or_nothing:
  assumes "cache_ok lru_ok (h_cache h)" and "args \<noteq> []" and "even (length args)"
    and "h_MSetNX env args h = (r, h')"
  shows "(if \<exists>k \<in> fst ` set (arg_pairs args). lru_item (h_cache h) k \<noteq> None
      then r = integer 0 \<and> h' = h
      else r = integer 1 \<and> (\<forall>k. lru_item (h_cache h') k = None
        \<or> (case map_of (rev (arg_pairs args)) k of
             None \<Rightarrow> lru_item (h_cache h') k = lru_item (h_cache h) k
           | Some v \<Rightarrow> \<exists>n. lru_item (h_cache h') k = Some (NewItem (clk env n) v 0))))"
proof -
  have len: "\<not> length args < 2" "\<not> length args mod 2 \<noteq> 0"
    using assms(2,3) by (cases args; cases "tl args"; simp)+
  have ex: "list_ex (\<lambda>(key, _). Cache_HasKey lru_evictor key (h_cache h)) (arg_pairs args)
      \<longleftrightarrow> (\<exists>k \<in> fst ` set (arg_pairs args). lru_item (h_cache h) k \<noteq> None)"
    by (force simp: list_ex_iff lru.Cache_HasKey_eq [OF assms(1)])
  show ?thesis
  proof (cases "\<exists>k \<in> fst ` set (arg_pairs args). lru_item (h_cache h) k \<noteq> None")
    case True
    then show ?thesis using assms(4) len by (simp only: h_MSetNX_def ex if_False if_True) simp
  next
    case False
    then have "r = integer 1" and c: "h_cache h' = mset_loop env 0 (arg_pairs args) (h_cache h)"
      using assms(4) len by (simp_all only: h_MSetNX_def ex if_False if_True) auto
    then show ?thesis using False mset_loop_item [OF assms(1), of env 0 "arg_pairs args"]
      by (simp only: c if_False) simp
  qed
qed

lemma msetnx_all_or_nothing_witness:
  "fst (h_MSetNX witness_env [''a'', ''1''] (NewHandler (NewCache witness_cfg) True)) = integer 1
   \<and> h_MSetNX witness_env [''a'', ''1''] (snd (h_Set witness_env [''a'', ''0''] (NewHandler (NewCache witness_cfg) True)))
     = (integer 0, snd (h_Set witness_env [''a'', ''0''] (NewHandler (NewCache witness_cfg) True)))"
proof -
  let ?new = "NewHandler (NewCache witness_cfg) True"
  have ok: "cache_ok lru_ok (h_cache ?new)" using NewCache_ok by (simp add: NewHandler_def)
  have "lru_item (h_cache ?new) ''a'' = None" using NewCache_item by (simp add: NewHandler_def)
  then show ?thesis
    using msetnx_all_or_nothing [OF ok, of "[''a'', ''1'']", OF _ _ surjective_pairing]
      msetnx_all_or_nothing [OF string_commands_ok(2) [OF ok], of "[''a'', ''1'']" witness_env, OF _ _ surjective_pairing]
      h_Set_item [OF ok, of witness_env "''a''" "''0''" "[]"]
    by (simp add: prod_eq_iff)
qed

text \<open>EXISTS and MSETNX do not look at the expiry: a key that has expired but was not
  touched since still counts for EXISTS and blocks MSETNX, while GET already says that there is
  no such key.\<close>

theorem exists_counts_expired:
  assumes "cache_ok lru_ok (h_cache h)" and "lru_item (h_cache h) key = Some i"
    and "IsExpired (clk env 0) i"
  shows "fst (h_Exists env [key] h) = integer 1 \<and> h_MSetNX env [key, val] h = (integer 0, h)
    \<and> fst (h_Get env [key] h) = null_bulk"
  using assms h_Get_reply [OF assms(1), of env key]
  by (simp add: h_Exists_def h_MSetNX_def lru.Cache_HasKey_eq bulk_or_null_def)

lemma exists_counts_expired_witness:
  "fst (h_Exists (witness_env\<lparr>clk := (\<lambda>_. 2000000000)\<rparr>) [''a'']
     (snd (h_Set witness_env [''a'', ''0'', ''EX'', ''1''] (NewHandler (NewCache witness_cfg) True)))) = integer 1"
proof -
  let ?new = "NewHandler (NewCache witness_cfg) True"
  have ok: "cache_ok lru_ok (h_cache ?new)" using NewCache_ok by (simp add: NewHandler_def)
  have clk: "clk witness_env 0 = 100" by (simp add: witness_env_def)
  have "Atoi ''1'' = Some 1" by code_simp
  then have ttl: "set_ttl witness_env [''a'', ''0'', ''EX'', ''1''] = 1000000000"
    by (simp add: set_ttl_def wrap64_def)
  have "IsExpired 2000000000 (NewItem 100 ''0'' 1000000000)" by (simp add: IsExpired_def NewItem_def wrap64_def)
  then show ?thesis
    using exists_counts_expired [OF string_commands_ok(2) [OF ok]
        h_Set_item [OF ok, of witness_env "''a''" "''0''" "[''EX'', ''1'']"],
        where env = "witness_env\<lparr>clk := (\<lambda>_. 2000000000)\<rparr>"]
    unfolding ttl clk by simp
qed

end
