(* ===== verification/Server.thy ===== *)
theory Server
  imports Commands
begin

section \<open>The server: connections, dispatch, transactions and watched keys\<close>

text \<open>
  Models \<^verbatim>\<open>internal/server/connection.go\<close>, \<^verbatim>\<open>transaction.go\<close> and the command
  processing of \<^verbatim>\<open>server.go\<close>.  The connections are objects that the server's watcher
  lists point to: here an object store \<open>conns\<close> from connection ids to records, and a watcher
  list is a list of ids.  Operations that can run a command return an \<open>outcome\<close>, because a
  panic in a handler kills the process.

  A request may run several commands (EXEC, a pipeline): its \<open>i\<close>-th command reads the outside
  world through \<open>envs i\<close>.

  The accept loop, the idle monitor, the connection counter and the shutdown are in the theory
  Lifecycle, whose steps run these definitions.  A goroutine that closes the connection 50 ms after a wrong password shows as the
  flag \<open>close_pending\<close>.
\<close>

record connection =
  closed :: bool
  close_pending :: bool
  authenticated :: bool
  inTransaction :: bool
  queuedCommands :: "RESPValue list"
  watchedKeys :: "bool gomap"
  dirty :: bool

definition NewConnection :: connection where
  "NewConnection = \<lparr>closed = False, close_pending = False, authenticated = False,
     inTransaction = False, queuedCommands = [], watchedKeys = [], dirty = False\<rparr>"

type_synonym conn_id = nat

record server =
  requirepass :: string
  watchers :: "conn_id list gomap"
  conns :: "conn_id \<Rightarrow> connection"
  s_handler :: handler

definition NewServer :: "string \<Rightarrow> handler \<Rightarrow> server" where
  "NewServer pass h = \<lparr>requirepass = pass, watchers = [], conns = (\<lambda>_. NewConnection), s_handler = h\<rparr>"

definition upd_conn :: "conn_id \<Rightarrow> (connection \<Rightarrow> connection) \<Rightarrow> server \<Rightarrow> server" where
  "upd_conn c f s = s\<lparr>conns := (conns s)(c := f (conns s c))\<rparr>"

subsection \<open>Connection methods\<close>

definition SetAuthenticated :: "bool \<Rightarrow> connection \<Rightarrow> connection" where
  "SetAuthenticated auth c = c\<lparr>authenticated := auth\<rparr>"

definition IsAuthenticated :: "connection \<Rightarrow> bool" where
  "IsAuthenticated c = authenticated c"

definition ResetTransaction :: "connection \<Rightarrow> connection" where
  "ResetTransaction c = c\<lparr>inTransaction := False, queuedCommands := [], watchedKeys := [], dirty := False\<rparr>"

definition WatchKey :: "string \<Rightarrow> connection \<Rightarrow> connection" where
  "WatchKey key c = c\<lparr>watchedKeys := map_put key True (watchedKeys c)\<rparr>"

definition IsWatched :: "string \<Rightarrow> connection \<Rightarrow> bool" where
  "IsWatched key c = (map_of (watchedKeys c) key = Some True)"

definition MarkDirty :: "connection \<Rightarrow> connection" where
  "MarkDirty c = c\<lparr>dirty := True\<rparr>"

definition IsDirty :: "connection \<Rightarrow> bool" where
  "IsDirty c = dirty c"

definition IsClosed :: "connection \<Rightarrow> bool" where
  "IsClosed c = closed c"

definition Close :: "connection \<Rightarrow> connection" where
  "Close c = (if \<not> closed c then c\<lparr>closed := True\<rparr> else c)"

subsection \<open>Keys of a command, and the watchers of a key\<close>

definition extractKeys :: "string \<Rightarrow> string list \<Rightarrow> string list" where
  "extractKeys cmd args =
     (if cmd \<in> set [''SET'', ''DEL'', ''GET'', ''TTL'', ''EXISTS'', ''APPEND'', ''STRLEN'',
          ''HSET'', ''HGET'', ''HDEL'', ''HLEN'', ''HEXISTS'', ''HKEYS'', ''HVALS'',
          ''LPUSH'', ''RPUSH'', ''LPOP'', ''RPOP'', ''LLEN'',
          ''SADD'', ''SREM'', ''SMEMBERS'', ''SISMEMBER'', ''SCARD'',
          ''ZADD'', ''ZRANGE'', ''ZREM'', ''ZCARD'', ''ZSCORE'']
      then (if length args > 0 then [args ! 0] else [])
      else if cmd \<in> set [''MGET'', ''MSET'', ''MSETNX'']
      then map (\<lambda>i. args ! (2 * i)) [0..<(length args + 1) div 2]
      else [])"

text \<open>The body of the loop over the keys: mark the watchers dirty and forget them.\<close>

definition mark_key :: "string \<Rightarrow> server \<Rightarrow> server" where
  "mark_key key s =
     (case map_of (watchers s) key of
        None \<Rightarrow> s
      | Some ws \<Rightarrow>
          (let s' = foldl (\<lambda>s c. upd_conn c MarkDirty s) s ws
           in s'\<lparr>watchers := map_del key (watchers s')\<rparr>))"

definition markWatchedKeysDirty :: "string list \<Rightarrow> server \<Rightarrow> server" where
  "markWatchedKeysDirty keys s = foldl (\<lambda>s key. mark_key key s) s keys"

definition removeWatcherUnsafe :: "string \<Rightarrow> conn_id \<Rightarrow> server \<Rightarrow> server" where
  "removeWatcherUnsafe key c s =
     (case map_of (watchers s) key of
        None \<Rightarrow> s
      | Some ws \<Rightarrow>
          (let newWatchers = filter (\<lambda>w. w \<noteq> c) ws in
           if newWatchers = [] then s\<lparr>watchers := map_del key (watchers s)\<rparr>
           else s\<lparr>watchers := map_put key newWatchers (watchers s)\<rparr>))"

definition removeWatcher :: "string \<Rightarrow> conn_id \<Rightarrow> server \<Rightarrow> server" where
  "removeWatcher key c s = removeWatcherUnsafe key c s"

definition removeWatcherByKeys :: "string list \<Rightarrow> conn_id \<Rightarrow> server \<Rightarrow> server" where
  "removeWatcherByKeys keys c s = foldl (\<lambda>s key. removeWatcher key c s) s keys"

definition addWatcher :: "string \<Rightarrow> conn_id \<Rightarrow> server \<Rightarrow> server" where
  "addWatcher key c s =
     (let s' = removeWatcherUnsafe key c s;
          ws = (case map_of (watchers s') key of None \<Rightarrow> [] | Some ws \<Rightarrow> ws)
      in s'\<lparr>watchers := map_put key (ws @ [c]) (watchers s')\<rparr>)"

definition cleanupWatchers :: "map_order \<Rightarrow> conn_id \<Rightarrow> server \<Rightarrow> server" where
  "cleanupWatchers it c s =
     foldl (\<lambda>s key. removeWatcher key c s) s (range_keys it (watchedKeys (conns s c)))"

subsection \<open>Running one command\<close>

definition parseCmd :: "env \<Rightarrow> RESPValue \<Rightarrow> string \<times> string list" where
  "parseCmd env v =
     (ToUpper (uni_upper env) (Str (Elems v ! 0)),
      map Str (filter (\<lambda>e. Type e = BulkString) (drop 1 (Elems v))))"

definition invalid_command :: RESPValue where
  "invalid_command = err ''ERR invalid command''"

definition processCommand ::
  "env \<Rightarrow> RESPValue \<Rightarrow> string \<Rightarrow> string list \<Rightarrow> server \<Rightarrow> (RESPValue \<times> server) outcome" where
  "processCommand env v cmd args s =
     (if Type v \<noteq> Array \<or> length (Elems v) < 1 then Ret (invalid_command, s)
      else case (if length cmd = 0 then parseCmd env v else (cmd, args)) of (cmd, args) \<Rightarrow>
        (case GetHandler cmd of
           None \<Rightarrow> Ret (err (''ERR unknown command '' @ quoted cmd), s)
         | Some handler \<Rightarrow>
             (let keys = extractKeys cmd args;
                  s' = (if isWriteCommand cmd \<and> length keys > 0 then markWatchedKeysDirty keys s else s)
              in case handler env args (s_handler s') of
                   Panic \<Rightarrow> Panic
                 | Ret (r, h) \<Rightarrow> Ret (r, s'\<lparr>s_handler := h\<rparr>))))"

subsection \<open>Transaction commands\<close>

definition handleMulti :: "conn_id \<Rightarrow> string list \<Rightarrow> server \<Rightarrow> RESPValue \<times> server" where
  "handleMulti c args s =
     (if length args > 0 then (wrong_args ''multi'', s)
      else if inTransaction (conns s c) then (simple ''OK'', s)
      else (simple ''OK'',
        upd_conn c (\<lambda>conn. conn\<lparr>inTransaction := True, queuedCommands := []\<rparr>) s))"

text \<open>The loop of EXEC over the queued commands; the \<open>i\<close>-th one runs in \<open>envs i\<close>.\<close>

fun exec_loop :: "(nat \<Rightarrow> env) \<Rightarrow> nat \<Rightarrow> RESPValue list \<Rightarrow> server \<Rightarrow> (RESPValue list \<times> server) outcome" where
  "exec_loop envs i [] s = Ret ([], s)"
| "exec_loop envs i (v # vs) s =
     (case processCommand (envs i) v [] [] s of
        Panic \<Rightarrow> Panic
      | Ret (r, s1) \<Rightarrow>
          (case exec_loop envs (i + 1) vs s1 of
             Panic \<Rightarrow> Panic
           | Ret (rs, s2) \<Rightarrow> Ret (r # rs, s2)))"

definition handleExec :: "(nat \<Rightarrow> env) \<Rightarrow> conn_id \<Rightarrow> string list \<Rightarrow> server \<Rightarrow> (RESPValue \<times> server) outcome" where
  "handleExec envs c args s =
     (if \<not> inTransaction (conns s c) then Ret (err ''ERR EXEC without MULTI'', s)
      else if IsDirty (conns s c) then Ret (null_bulk, upd_conn c ResetTransaction s)
      else let commands = queuedCommands (conns s c);
               s1 = upd_conn c (\<lambda>conn. conn\<lparr>queuedCommands := [], inTransaction := False\<rparr>) s
        in case exec_loop envs 0 commands s1 of
             Panic \<Rightarrow> Panic
           | Ret (results, s2) \<Rightarrow> Ret (array results, s2))"

definition handleDiscard :: "conn_id \<Rightarrow> string list \<Rightarrow> server \<Rightarrow> RESPValue \<times> server" where
  "handleDiscard c args s =
     (if \<not> inTransaction (conns s c) then (err ''ERR DISCARD without MULTI'', s)
      else (simple ''OK'', upd_conn c ResetTransaction s))"

definition handleWatch :: "conn_id \<Rightarrow> string list \<Rightarrow> server \<Rightarrow> RESPValue \<times> server" where
  "handleWatch c args s =
     (if length args < 1 then (wrong_args ''watch'', s)
      else if inTransaction (conns s c) then (simple ''OK'', s)
      else (simple ''OK'', foldl (\<lambda>s key. addWatcher key c (upd_conn c (WatchKey key) s)) s args))"

definition handleUnwatch :: "conn_id \<Rightarrow> string list \<Rightarrow> server \<Rightarrow> RESPValue \<times> server" where
  "handleUnwatch c args s = (simple ''OK'', upd_conn c (\<lambda>conn. conn\<lparr>watchedKeys := []\<rparr>) s)"

text \<open>
  \<open>handleTxCmd\<close> answers the transaction commands and queues everything else inside a
  transaction; \<open>None\<close> is the result with \<open>isTxCmd\<close> false, after which the caller goes on with
  an empty command name.
\<close>

definition handleTxCmd ::
  "(nat \<Rightarrow> env) \<Rightarrow> conn_id \<Rightarrow> RESPValue \<Rightarrow> server \<Rightarrow> (RESPValue option \<times> server) outcome" where
  "handleTxCmd envs c v s =
     (if length (Elems v) < 1 then Ret (None, s)
      else case parseCmd (envs 0) v of (cmd, args) \<Rightarrow>
        if cmd = ''MULTI'' then (case handleMulti c args s of (r, s') \<Rightarrow> Ret (Some r, s'))
        else if cmd = ''WATCH'' then (case handleWatch c args s of (r, s') \<Rightarrow> Ret (Some r, s'))
        else if cmd = ''UNWATCH'' then (case handleUnwatch c args s of (r, s') \<Rightarrow> Ret (Some r, s'))
        else if cmd = ''EXEC'' then
          (case handleExec envs c args (removeWatcherByKeys (extractKeys cmd args) c s) of
             Panic \<Rightarrow> Panic
           | Ret (r, s') \<Rightarrow> Ret (Some r, s'))
        else if cmd = ''DISCARD'' then
          (case handleDiscard c args (removeWatcherByKeys (extractKeys cmd args) c s) of
             (r, s') \<Rightarrow> Ret (Some r, s'))
        else if inTransaction (conns s c) then
          Ret (Some (simple ''QUEUED''),
            upd_conn c (\<lambda>conn. conn\<lparr>queuedCommands := queuedCommands conn @ [v]\<rparr>) s)
        else Ret (None, s))"

subsection \<open>A request\<close>

definition processCommandWithTx ::
  "(nat \<Rightarrow> env) \<Rightarrow> conn_id \<Rightarrow> RESPValue \<Rightarrow> server \<Rightarrow> (RESPValue \<times> server) outcome" where
  "processCommandWithTx envs c v s =
     (if Type v \<noteq> Array \<or> length (Elems v) < 1 then Ret (invalid_command, s)
      else case parseCmd (envs 0) v of (cmd, args) \<Rightarrow>
        if cmd = ''AUTH'' then
          (if requirepass s = [] then
             Ret (err ''ERR Client sent AUTH, but no password is set'', s)
           else if length args \<noteq> 1 then Ret (wrong_args ''auth'', s)
           else if args ! 0 = requirepass s then
             Ret (simple ''OK'', upd_conn c (SetAuthenticated True) s)
           else Ret (err ''ERR invalid password'', upd_conn c (\<lambda>conn. conn\<lparr>close_pending := True\<rparr>) s))
        else if requirepass s \<noteq> [] \<and> \<not> IsAuthenticated (conns s c) then
          Ret (err ''NOAUTH Authentication required.'', s)
        else
          (case handleTxCmd envs c v s of
             Panic \<Rightarrow> Panic
           | Ret (Some result, s') \<Rightarrow> Ret (result, s')
           | Ret (None, s') \<Rightarrow> processCommand (envs 0) v [] [] s'))"

text \<open>The commands of a pipeline run one after the other, the \<open>j\<close>-th in \<open>envss j\<close>.\<close>

fun processPipeline ::
  "(nat \<Rightarrow> nat \<Rightarrow> env) \<Rightarrow> nat \<Rightarrow> conn_id \<Rightarrow> RESPValue list \<Rightarrow> server \<Rightarrow> (RESPValue list \<times> server) outcome" where
  "processPipeline envss j c [] s = Ret ([], s)"
| "processPipeline envss j c (v # vs) s =
     (case processCommandWithTx (envss j) c v s of
        Panic \<Rightarrow> Panic
      | Ret (r, s1) \<Rightarrow>
          (case processPipeline envss (j + 1) c vs s1 of
             Panic \<Rightarrow> Panic
           | Ret (rs, s2) \<Rightarrow> Ret (r # rs, s2)))"

text \<open>What the read loop of \<open>handleConnection\<close> does with a value it has read: the bytes it
  writes and the new state.\<close>

definition handle_value ::
  "(nat \<Rightarrow> nat \<Rightarrow> env) \<Rightarrow> conn_id \<Rightarrow> RESPValue \<Rightarrow> server \<Rightarrow> (string \<times> server) outcome" where
  "handle_value envss c v s =
     (if Type v = Array \<and> length (Elems v) > 0 \<and> Type (Elems v ! 0) = Array then
        (case processPipeline envss 0 c (Elems v) s of
           Panic \<Rightarrow> Panic
         | Ret (rs, s') \<Rightarrow> Ret (concat (map EncodeRESP rs), s'))
      else
        (case processCommandWithTx (envss 0) c v s of
           Panic \<Rightarrow> Panic
         | Ret (r, s') \<Rightarrow> Ret (EncodeRESP r, s')))"

text \<open>The deferred calls at the end of \<open>handleConnection\<close>.\<close>

definition end_connection :: "map_order \<Rightarrow> conn_id \<Rightarrow> server \<Rightarrow> server" where
  "end_connection it c s = cleanupWatchers it c (upd_conn c Close s)"

text \<open>
  The read loop itself, for one connection that is alone with the server: it reads values from
  the bytes that arrive, until the stream ends or does not parse or the connection is closed,
  and returns the bytes written.  The \<open>n\<close>-th value runs in \<open>E n\<close>.  A panic of the parser's
  goroutine kills the process.
\<close>

function serve ::
  "(nat \<Rightarrow> nat \<Rightarrow> nat \<Rightarrow> env) \<Rightarrow> map_order \<Rightarrow> nat \<Rightarrow> conn_id \<Rightarrow> string \<Rightarrow> server \<Rightarrow> (string \<times> server) outcome" where
  "serve E it n c input s =
     (if IsClosed (conns s c) then Ret ([], end_connection it c s)
      else case resp_Read 0 input of
        Crash \<Rightarrow> Panic
      | Fail _ \<Rightarrow> Ret ([], end_connection it c s)
      | Got v rest \<Rightarrow>
          (case handle_value (E n) c v s of
             Panic \<Rightarrow> Panic
           | Ret (out, s1) \<Rightarrow>
               (case serve E it (n + 1) c rest s1 of
                  Panic \<Rightarrow> Panic
                | Ret (out', s2) \<Rightarrow> Ret (out @ out', s2))))"
  by pat_completeness auto
termination
proof (relation "measure (\<lambda>(E, it, n, c, input, s). length input)")
  fix E it n c input s v rest out_s out s1
  assume "resp_Read 0 input = Got v rest"
  then have "suffix_of rest input" by (rule resp_Read_suffix)
  then show "((E, it, n + 1, c, rest, s1), E, it, n, c, input, s)
      \<in> measure (\<lambda>(E, it, n, c, input, s). length input)"
    by (auto simp: suffix_of_def)
qed simp

declare serve.simps [simp del]

end
