(* ===== verification/ServerProps.thy ===== *)
theory ServerProps
  imports Server HandlerProps
begin

section \<open>Watched keys, transactions and authentication\<close>

text \<open>
  The invariant that makes WATCH work, over every reachable state of the server (whole requests
  of the connections in any order, closings, idle closings and clean-up passes in between):
  an open connection whose watched key has not been reported dirty is on that key's watcher
  list.  From it: a later write to the key by anyone makes the next EXEC return null.
\<close>

definition watching :: "server \<Rightarrow> string \<Rightarrow> conn_id set" where
  "watching s key = (case map_of (watchers s) key of None \<Rightarrow> {} | Some ws \<Rightarrow> set ws)"

definition watched :: "server \<Rightarrow> conn_id \<Rightarrow> string set" where
  "watched s c = dom (map_of (watchedKeys (conns s c)))"

definition watch_ok :: "server \<Rightarrow> bool" where
  "watch_ok s \<longleftrightarrow> (\<forall>c key. \<not> closed (conns s c) \<longrightarrow> key \<in> watched s c \<longrightarrow> \<not> dirty (conns s c)
     \<longrightarrow> c \<in> watching s key)"

subsection \<open>What the watcher operations do\<close>

lemma upd_conn_sel [simp]:
  "watchers (upd_conn c f s) = watchers s" "requirepass (upd_conn c f s) = requirepass s"
  "s_handler (upd_conn c f s) = s_handler s"
  "conns (upd_conn c f s) c' = (if c' = c then f (conns s c) else conns s c')"
  "watching (upd_conn c f s) = watching s"
  by (simp_all add: upd_conn_def watching_def fun_eq_iff)

lemma conn_sel [simp]:
  "closed (MarkDirty x) = closed x" "watchedKeys (MarkDirty x) = watchedKeys x" "dirty (MarkDirty x)"
  "inTransaction (MarkDirty x) = inTransaction x" "queuedCommands (MarkDirty x) = queuedCommands x"
  "authenticated (MarkDirty x) = authenticated x"
  "closed (Close x)" "closed (SetAuthenticated b x) = closed x" "closed (ResetTransaction x) = closed x"
  "watchedKeys (ResetTransaction x) = []" "authenticated (ResetTransaction x) = authenticated x"
  "inTransaction (ResetTransaction x) = False"
  "watchedKeys (SetAuthenticated b x) = watchedKeys x" "dirty (SetAuthenticated b x) = dirty x"
  "authenticated (SetAuthenticated b x) = b"
  "closed (WatchKey key x) = closed x" "dirty (WatchKey key x) = dirty x"
  "authenticated (WatchKey key x) = authenticated x" "authenticated (Close x) = authenticated x"
  by (simp_all add: MarkDirty_def Close_def SetAuthenticated_def ResetTransaction_def WatchKey_def)

lemma foldl_mark:
  "conns (foldl (\<lambda>s c. upd_conn c MarkDirty s) s ws) c = (if c \<in> set ws then MarkDirty (conns s c) else conns s c)"
  "watchers (foldl (\<lambda>s c. upd_conn c MarkDirty s) s ws) = watchers s"
  "s_handler (foldl (\<lambda>s c. upd_conn c MarkDirty s) s ws) = s_handler s"
  "requirepass (foldl (\<lambda>s c. upd_conn c MarkDirty s) s ws) = requirepass s"
  by (induction ws arbitrary: s) (auto simp: MarkDirty_def)

lemma mark_key_eq:
  "conns (mark_key key s) c = (if c \<in> watching s key then MarkDirty (conns s c) else conns s c)"
  "watching (mark_key key s) k = (if k = key then {} else watching s k)"
  "s_handler (mark_key key s) = s_handler s" "requirepass (mark_key key s) = requirepass s"
  by (auto simp: mark_key_def watching_def foldl_mark Let_def split: option.split)

lemma mark_keys_eq:
  "conns (markWatchedKeysDirty keys s) c
     = (if \<exists>k \<in> set keys. c \<in> watching s k then MarkDirty (conns s c) else conns s c)"
  "watching (markWatchedKeysDirty keys s) k = (if k \<in> set keys then {} else watching s k)"
  "s_handler (markWatchedKeysDirty keys s) = s_handler s"
  "requirepass (markWatchedKeysDirty keys s) = requirepass s"
proof (induction keys arbitrary: s)
  case (Cons key keys)
  case 1
  show ?case using Cons.IH(1) [of "mark_key key s"]
    by (auto simp: markWatchedKeysDirty_def mark_key_eq MarkDirty_def split: if_splits)
next
  case (Cons key keys)
  case 2
  show ?case using Cons.IH(2) [of "mark_key key s"]
    by (auto simp: markWatchedKeysDirty_def mark_key_eq)
next
  case (Cons key keys)
  case 3
  show ?case using Cons.IH(3) [of "mark_key key s"] by (simp add: markWatchedKeysDirty_def mark_key_eq)
next
  case (Cons key keys)
  case 4
  show ?case using Cons.IH(4) [of "mark_key key s"] by (simp add: markWatchedKeysDirty_def mark_key_eq)
qed (simp_all add: markWatchedKeysDirty_def)

lemma removeWatcher_eq [simp]:
  "watching (removeWatcher key c s) k = (if k = key then watching s k - {c} else watching s k)"
  "conns (removeWatcher key c s) = conns s" "s_handler (removeWatcher key c s) = s_handler s"
  "requirepass (removeWatcher key c s) = requirepass s"
  by (auto simp: removeWatcher_def removeWatcherUnsafe_def watching_def Let_def filter_empty_conv
      split: option.split)

lemma addWatcher_eq [simp]:
  "watching (addWatcher key c s) k = (if k = key then insert c (watching s k) else watching s k)"
  "conns (addWatcher key c s) = conns s" "s_handler (addWatcher key c s) = s_handler s"
  "requirepass (addWatcher key c s) = requirepass s"
proof -
  have "watching (addWatcher key c s) k = (if k = key then insert c (watching (removeWatcher key c s) key)
      else watching (removeWatcher key c s) k)"
    by (auto simp: addWatcher_def removeWatcher_def watching_def Let_def split: option.split)
  then show "watching (addWatcher key c s) k = (if k = key then insert c (watching s k) else watching s k)"
    by auto
  show "conns (addWatcher key c s) = conns s" "s_handler (addWatcher key c s) = s_handler s"
    "requirepass (addWatcher key c s) = requirepass s"
    using removeWatcher_eq(2-4) [of key c s] by (simp_all add: addWatcher_def removeWatcher_def Let_def)
qed

lemma removeWatcherByKeys_other:
  "c' \<noteq> c \<Longrightarrow> c' \<in> watching (removeWatcherByKeys keys c s) k \<longleftrightarrow> c' \<in> watching s k"
  "conns (removeWatcherByKeys keys c s) = conns s" "s_handler (removeWatcherByKeys keys c s) = s_handler s"
  "requirepass (removeWatcherByKeys keys c s) = requirepass s"
  by (induction keys arbitrary: s) (auto simp: removeWatcherByKeys_def)

lemma cleanupWatchers_fold: "cleanupWatchers it c s = removeWatcherByKeys (range_keys it (watchedKeys (conns s c))) c s"
  by (simp add: cleanupWatchers_def removeWatcherByKeys_def)

text \<open>EXEC and DISCARD ask \<open>extractKeys\<close> for the keys to forget, and it knows none.\<close>

lemma extractKeys_tx [simp]: "extractKeys ''EXEC'' args = []" "extractKeys ''DISCARD'' args = []"
  by (simp_all add: extractKeys_def)

lemma removeWatcherByKeys_Nil [simp]: "removeWatcherByKeys [] c s = s"
  by (simp add: removeWatcherByKeys_def)


subsection \<open>Every request keeps the invariant\<close>

definition server_ok :: "server \<Rightarrow> bool" where
  "server_ok s \<longleftrightarrow> watch_ok s \<and> cache_ok lru_ok (h_cache (s_handler s))"

lemma server_ok_handler: "server_ok s \<Longrightarrow> cache_ok lru_ok (h_cache h) \<Longrightarrow> server_ok (s\<lparr>s_handler := h\<rparr>)"
  by (simp add: server_ok_def watch_ok_def watched_def watching_def)

lemma server_ok_conn:
  assumes "server_ok s"
    and "\<And>x. closed x \<Longrightarrow> closed (f x)"
    and "\<And>x. closed (f x) \<or> (dom (map_of (watchedKeys (f x))) \<subseteq> dom (map_of (watchedKeys x))
           \<and> (dirty x \<longrightarrow> dirty (f x)) \<or> watchedKeys (f x) = [])"
  shows "server_ok (upd_conn c f s)"
  using assms(1,2) assms(3) [of "conns s c"]
  by (fastforce simp: server_ok_def watch_ok_def watched_def split: if_splits)

lemma server_ok_mark: "server_ok s \<Longrightarrow> server_ok (markWatchedKeysDirty keys s)"
  by (auto simp: server_ok_def watch_ok_def watched_def mark_keys_eq split: if_splits)

text \<open>A command changes the connections only through the watchers of the keys it writes.\<close>

definition written_keys :: "string \<Rightarrow> string list \<Rightarrow> string list" where
  "written_keys cmd args = (if isWriteCommand cmd then extractKeys cmd args else [])"

lemma mark_Nil [simp]: "markWatchedKeysDirty [] s = s"
  by (simp add: markWatchedKeysDirty_def)

lemma processCommand_eq:
  assumes "Type v = Array" and "Elems v \<noteq> []"
    and "(if cmd = [] then parseCmd env v else (cmd, args)) = (cmd', args')"
  shows "processCommand env v cmd args s =
    (case GetHandler cmd' of
       None \<Rightarrow> Ret (err (''ERR unknown command '' @ quoted cmd'), s)
     | Some f \<Rightarrow>
         (case f env args' (s_handler s) of
            Panic \<Rightarrow> Panic
          | Ret (r, h) \<Rightarrow>
              Ret (r, (markWatchedKeysDirty (written_keys cmd' args') s)\<lparr>s_handler := h\<rparr>)))"
proof -
  have "\<not> (Type v \<noteq> Array \<or> length (Elems v) < 1)" using assms(1,2) by (cases "Elems v") simp_all
  moreover have "(if isWriteCommand cmd' \<and> length (extractKeys cmd' args') > 0
      then markWatchedKeysDirty (extractKeys cmd' args') s else s)
      = markWatchedKeysDirty (written_keys cmd' args') s"
    by (simp add: written_keys_def)
  ultimately show ?thesis
    by (simp only: processCommand_def length_0_conv assms(3) if_False prod.case Let_def mark_keys_eq(3))
qed

lemma processCommand_effect:
  assumes "processCommand env v cmd args s = Ret (r, s')"
  shows "\<exists>keys h. s' = (markWatchedKeysDirty keys s)\<lparr>s_handler := h\<rparr>
    \<and> (cache_ok lru_ok (h_cache (s_handler s)) \<longrightarrow> cache_ok lru_ok (h_cache h))"
proof -
  have same: ?thesis if "s' = s"
    using that by (intro exI [of _ "[]"] exI [of _ "s_handler s"]) simp
  show ?thesis
  proof (cases "Type v = Array \<and> Elems v \<noteq> []")
    case False
    then show ?thesis using assms same by (auto simp: processCommand_def split: if_splits)
  next
    case True
    obtain cmd' args' where eff: "(if cmd = [] then parseCmd env v else (cmd, args)) = (cmd', args')"
      by (metis surj_pair)
    note eq = assms [unfolded processCommand_eq [OF conjunct1 [OF True] conjunct2 [OF True] eff]]
    show ?thesis
    proof (cases "GetHandler cmd'")
      case None
      with eq same show ?thesis by simp
    next
      case (Some f)
      with eq obtain h where "f env args' (s_handler s) = Ret (r, h)"
        and "s' = (markWatchedKeysDirty (written_keys cmd' args') s)\<lparr>s_handler := h\<rparr>"
        by (auto split: outcome.splits)
      with command_keeps_ok [OF Some] show ?thesis by blast
    qed
  qed
qed

lemma processCommand_ok:
  assumes "processCommand env v cmd args s = Ret (r, s')" and "server_ok s"
  shows "server_ok s'"
proof -
  obtain keys h where s': "s' = (markWatchedKeysDirty keys s)\<lparr>s_handler := h\<rparr>"
    and "cache_ok lru_ok (h_cache (s_handler s)) \<longrightarrow> cache_ok lru_ok (h_cache h)"
    using processCommand_effect [OF assms(1)] by blast
  with assms(2) show ?thesis
    by (metis server_ok_def server_ok_handler server_ok_mark)
qed

lemma exec_loop_ok: "exec_loop envs i vs s = Ret (rs, s') \<Longrightarrow> server_ok s \<Longrightarrow> server_ok s'"
  by (induction vs arbitrary: i s rs)
    (auto split: outcome.splits prod.splits dest: processCommand_ok)

lemma handleWatch_ok: "server_ok s \<Longrightarrow> server_ok (snd (handleWatch c args s))"
proof -
  have step: "server_ok (addWatcher key c (upd_conn c (WatchKey key) s))" if "server_ok s" for key s
    using that by (fastforce simp: server_ok_def watch_ok_def watched_def WatchKey_def split: if_splits)
  have "server_ok (foldl (\<lambda>s key. addWatcher key c (upd_conn c (WatchKey key) s)) s args)" if "server_ok s" for s
    using that by (induction args arbitrary: s) (simp_all add: step)
  then show "server_ok s \<Longrightarrow> server_ok (snd (handleWatch c args s))"
    by (simp add: handleWatch_def)
qed

lemma handleTxCmd_ok:
  assumes "handleTxCmd envs c v s = Ret (r, s')" and "server_ok s"
  shows "server_ok s'"
proof -
  have multi: "server_ok (snd (handleMulti c args s))" for args
    using assms(2) by (simp add: handleMulti_def server_ok_conn)
  have unwatch: "server_ok (snd (handleUnwatch c args s))" for args
    using assms(2) by (simp add: handleUnwatch_def server_ok_conn)
  have discard: "server_ok (snd (handleDiscard c args s))" for args
    using assms(2) by (simp add: handleDiscard_def server_ok_conn)
  have queue: "server_ok (upd_conn c (\<lambda>conn. conn\<lparr>queuedCommands := queuedCommands conn @ [v]\<rparr>) s)"
    using assms(2) by (simp add: server_ok_conn)
  have start: "server_ok (upd_conn c (\<lambda>conn. conn\<lparr>queuedCommands := [], inTransaction := False\<rparr>) s)"
    using assms(2) by (simp add: server_ok_conn)
  have reset: "server_ok (upd_conn c ResetTransaction s)"
    using assms(2) by (simp add: server_ok_conn)
  have exec: "server_ok s2" if "handleExec envs c args s = Ret (r2, s2)" for args r2 s2
    using that assms(2) reset exec_loop_ok [OF _ start]
    by (auto simp: handleExec_def Let_def split: if_splits outcome.splits)
  show ?thesis
    using assms multi unwatch discard queue exec handleWatch_ok [OF assms(2)]
    by (auto simp: handleTxCmd_def case_prod_unfold Let_def split: if_splits outcome.splits)
qed

lemma processCommandWithTx_ok:
  assumes "processCommandWithTx envs c v s = Ret (r, s')" and "server_ok s"
  shows "server_ok s'"
proof -
  have "server_ok (upd_conn c (SetAuthenticated True) s)"
    and "server_ok (upd_conn c (\<lambda>conn. conn\<lparr>close_pending := True\<rparr>) s)"
    using assms(2) by (simp_all add: server_ok_conn)
  then show ?thesis
    using assms handleTxCmd_ok processCommand_ok
    by (auto simp: processCommandWithTx_def case_prod_unfold split: if_splits outcome.splits option.splits)
qed

lemma processPipeline_ok:
  "processPipeline envss j c vs s = Ret (rs, s') \<Longrightarrow> server_ok s \<Longrightarrow> server_ok s'"
  by (induction vs arbitrary: j s rs)
    (auto split: outcome.splits prod.splits dest: processCommandWithTx_ok)

lemma handle_value_ok: "handle_value envss c v s = Ret (out, s') \<Longrightarrow> server_ok s \<Longrightarrow> server_ok s'"
  by (auto simp: handle_value_def split: if_splits outcome.splits
      dest: processPipeline_ok processCommandWithTx_ok)

lemma end_connection_ok:
  assumes "server_ok s"
  shows "server_ok (end_connection it c s)"
proof -
  have "server_ok (upd_conn c Close s)" and "closed (conns (upd_conn c Close s) c)"
    using assms by (simp_all add: server_ok_conn)
  then show ?thesis
    unfolding end_connection_def cleanupWatchers_fold server_ok_def watch_ok_def watched_def
    by (metis removeWatcherByKeys_other)
qed


subsection \<open>Reachable states\<close>

inductive reachable :: "string \<Rightarrow> handler \<Rightarrow> server \<Rightarrow> bool" for pass h where
  start: "reachable pass h (NewServer pass h)"
| connect: "reachable pass h s \<Longrightarrow> reachable pass h (upd_conn c (\<lambda>_. NewConnection) s)"
| request: "reachable pass h s \<Longrightarrow> handle_value envss c v s = Ret (out, s') \<Longrightarrow> reachable pass h s'"
| close: "reachable pass h s \<Longrightarrow> reachable pass h (upd_conn c Close s)"
| finish: "reachable pass h s \<Longrightarrow> reachable pass h (end_connection it c s)"
| cleanup: "reachable pass h s \<Longrightarrow> order_ok it \<Longrightarrow>
    reachable pass h (s\<lparr>s_handler := (s_handler s)\<lparr>h_cache :=
      Cache_cleanup lru_evictor now it (h_cache (s_handler s))\<rparr>\<rparr>)"

lemma NewServer_ok: "cache_ok lru_ok (h_cache h) \<Longrightarrow> server_ok (NewServer pass h)"
  by (simp add: server_ok_def watch_ok_def watched_def NewServer_def NewConnection_def)

lemma NewConnection_ok: "server_ok s \<Longrightarrow> server_ok (upd_conn c (\<lambda>_. NewConnection) s)"
  by (auto simp: server_ok_def watch_ok_def watched_def NewConnection_def split: if_splits)

lemma Close_ok: "server_ok s \<Longrightarrow> server_ok (upd_conn c Close s)"
  by (simp add: server_ok_conn)

lemma cleanup_ok:
  assumes "server_ok s" and "order_ok it"
  shows "server_ok (s\<lparr>s_handler := (s_handler s)\<lparr>h_cache := Cache_cleanup lru_evictor now it (h_cache (s_handler s))\<rparr>\<rparr>)"
proof -
  have "cache_ok lru_ok (h_cache (s_handler s))" using assms(1) by (simp add: server_ok_def)
  with assms show ?thesis by (intro server_ok_handler) (simp_all add: lru.Cache_cleanup_eq(1))
qed

lemmas server_steps_ok = NewConnection_ok Close_ok cleanup_ok end_connection_ok handle_value_ok

lemma reachable_ok: "reachable pass h s \<Longrightarrow> cache_ok lru_ok (h_cache h) \<Longrightarrow> server_ok s"
  by (induction rule: reachable.induct) (auto simp: NewServer_ok intro: server_steps_ok)

text \<open>When the server may run a connection's command at once.\<close>

definition allowed :: "conn_id \<Rightarrow> server \<Rightarrow> bool" where
  "allowed c s \<longleftrightarrow> requirepass s = [] \<or> authenticated (conns s c)"

definition tx_names :: "string set" where
  "tx_names = {''MULTI'', ''WATCH'', ''UNWATCH'', ''EXEC'', ''DISCARD'', ''AUTH''}"

text \<open>An ordinary request: a non-empty array whose first element is no transaction command.\<close>

definition ordinary :: "env \<Rightarrow> RESPValue \<Rightarrow> bool" where
  "ordinary env v \<longleftrightarrow> Type v = Array \<and> Elems v \<noteq> [] \<and> fst (parseCmd env v) \<notin> tx_names"

lemma ordinary_request:
  assumes "ordinary (envs 0) v" and "allowed c s"
  shows "processCommandWithTx envs c v s =
    (if inTransaction (conns s c)
     then Ret (simple ''QUEUED'', upd_conn c (\<lambda>conn. conn\<lparr>queuedCommands := queuedCommands conn @ [v]\<rparr>) s)
     else processCommand (envs 0) v [] [] s)"
  using assms
  by (auto simp: processCommandWithTx_def handleTxCmd_def ordinary_def tx_names_def allowed_def
      IsAuthenticated_def case_prod_unfold Let_def)

lemma tx_request:
  assumes "Type v = Array" and "Elems v \<noteq> []" and "allowed c s"
  shows "parseCmd (envs 0) v = (''EXEC'', args) \<Longrightarrow>
      processCommandWithTx envs c v s = handleExec envs c args s"
    and "parseCmd (envs 0) v = (''MULTI'', args) \<Longrightarrow>
      processCommandWithTx envs c v s = Ret (handleMulti c args s)"
    and "parseCmd (envs 0) v = (''WATCH'', args) \<Longrightarrow>
      processCommandWithTx envs c v s = Ret (handleWatch c args s)"
  using assms
  by (auto simp: processCommandWithTx_def handleTxCmd_def allowed_def IsAuthenticated_def case_prod_unfold
      split: outcome.split)

subsection \<open>Properties of transactions\<close>

text \<open>Inside a transaction an ordinary command is answered QUEUED and put at the end of the
  connection's queue; it is not run: the data, the watchers and the other connections stay as
  they are.\<close>

theorem queued_not_run:
  assumes "ordinary (envs 0) v" and "allowed c s" and "inTransaction (conns s c)"
  shows "\<exists>s'. processCommandWithTx envs c v s = Ret (simple ''QUEUED'', s')
    \<and> s_handler s' = s_handler s \<and> watchers s' = watchers s
    \<and> queuedCommands (conns s' c) = queuedCommands (conns s c) @ [v]
    \<and> (\<forall>c'. c' \<noteq> c \<longrightarrow> conns s' c' = conns s c')"
  using ordinary_request [of envs v c s, OF assms(1,2)] assms(3) by simp

definition request :: "string list \<Rightarrow> RESPValue" where
  "request ws = array (map bulk ws)"

lemma ToUpper_names [simp]:
  "ToUpper uni ''SET'' = ''SET''" "ToUpper uni ''GET'' = ''GET''" "ToUpper uni ''DEL'' = ''DEL''"
  "ToUpper uni ''MULTI'' = ''MULTI''" "ToUpper uni ''EXEC'' = ''EXEC''" "ToUpper uni ''WATCH'' = ''WATCH''"
  "ToUpper uni ''AUTH'' = ''AUTH''"
  by (simp_all add: ToUpper_def is_ascii_def upper_char_def)

lemma request_simps [simp]:
  "Type (request ws) = Array" "Elems (request ws) = map bulk ws"
  "parseCmd env (request (w # ws)) = (ToUpper (uni_upper env) w, ws)"
  by (simp_all add: request_def parseCmd_def comp_def filter_map)

lemma queued_not_run_witness:
  "\<exists>s'. processCommandWithTx (\<lambda>_. witness_env) 0 (request [''SET'', ''k'', ''v''])
        (upd_conn 0 (\<lambda>conn. conn\<lparr>inTransaction := True\<rparr>) (NewServer [] (NewHandler (NewCache witness_cfg) True)))
      = Ret (simple ''QUEUED'', s')
    \<and> queuedCommands (conns s' 0) = [request [''SET'', ''k'', ''v'']]"
  using queued_not_run [of "\<lambda>_. witness_env" "request [''SET'', ''k'', ''v'']" 0
      "upd_conn 0 (\<lambda>conn. conn\<lparr>inTransaction := True\<rparr>) (NewServer [] (NewHandler (NewCache witness_cfg) True))"]
  by (auto simp: ordinary_def tx_names_def allowed_def NewServer_def NewConnection_def)

lemma exec_loop_pipeline:
  assumes "\<forall>v \<in> set vs. \<forall>i. ordinary (envs i) v"
  shows "\<not> inTransaction (conns s c) \<Longrightarrow> allowed c s \<Longrightarrow>
    exec_loop envs i vs s = processPipeline (\<lambda>j _. envs j) i c vs s"
  using assms
proof (induction vs arbitrary: i s)
  case (Cons v vs)
  have step: "processCommandWithTx (\<lambda>_. envs i) c v s = processCommand (envs i) v [] [] s"
    using Cons.prems ordinary_request [of "\<lambda>_. envs i" v c s] by simp
  have "\<not> inTransaction (conns s1 c) \<and> allowed c s1"
    if "processCommand (envs i) v [] [] s = Ret (r, s1)" for r s1
    using processCommand_effect [OF that] Cons.prems(1,2) by (auto simp: mark_keys_eq allowed_def split: if_splits)
  with Cons.IH Cons.prems(3) step show ?case
    by (auto split: outcome.split prod.split)
qed simp

text \<open>C4: EXEC on a transaction that is not dirty does what the connection would get by sending
  the queued commands one after the other without MULTI: the same replies, in an array, and
  the same final state; the transaction is over and its queue is empty.\<close>

theorem exec_equals_pipeline:
  assumes "inTransaction (conns s c)" and "\<not> dirty (conns s c)" and "allowed c s"
    and "parseCmd (envs 0) v = (''EXEC'', args)" and "Type v = Array" and "Elems v \<noteq> []"
    and "\<forall>q \<in> set (queuedCommands (conns s c)). \<forall>i. ordinary (envs i) q"
  shows "processCommandWithTx envs c v s =
    (case processPipeline (\<lambda>j _. envs j) 0 c (queuedCommands (conns s c))
        (upd_conn c (\<lambda>conn. conn\<lparr>queuedCommands := [], inTransaction := False\<rparr>) s) of
       Panic \<Rightarrow> Panic
     | Ret (rs, s') \<Rightarrow> Ret (array rs, s'))"
proof -
  let ?s = "upd_conn c (\<lambda>conn. conn\<lparr>queuedCommands := [], inTransaction := False\<rparr>) s"
  have "\<not> inTransaction (conns ?s c)" and "allowed c ?s" using assms(3) by (simp_all add: allowed_def)
  note loop = exec_loop_pipeline [OF assms(7) this, of 0]
  show ?thesis
    unfolding tx_request(1) [OF assms(5,6,3), where envs = envs, OF assms(4)]
    using assms(1,2) by (simp add: handleExec_def IsDirty_def Let_def loop)
qed

lemma exec_equals_pipeline_witness:
  "processCommandWithTx (\<lambda>_. witness_env) 0 (request [''EXEC''])
     (upd_conn 0 (\<lambda>conn. conn\<lparr>inTransaction := True, queuedCommands := [request [''GET'', ''k'']]\<rparr>)
       (NewServer [] (NewHandler (NewCache witness_cfg) True)))
   = (case processPipeline (\<lambda>j _. witness_env) 0 0 [request [''GET'', ''k'']]
        (upd_conn 0 (\<lambda>conn. conn\<lparr>queuedCommands := [], inTransaction := False\<rparr>)
          (upd_conn 0 (\<lambda>conn. conn\<lparr>inTransaction := True, queuedCommands := [request [''GET'', ''k'']]\<rparr>)
            (NewServer [] (NewHandler (NewCache witness_cfg) True)))) of
       Panic \<Rightarrow> Panic
     | Ret (rs, s') \<Rightarrow> Ret (array rs, s'))"
  using exec_equals_pipeline [of "upd_conn 0 (\<lambda>conn. conn\<lparr>inTransaction := True,
      queuedCommands := [request [''GET'', ''k'']]\<rparr>) (NewServer [] (NewHandler (NewCache witness_cfg) True))" 0
      "\<lambda>_. witness_env" "request [''EXEC'']" "[]"]
  by (simp add: ordinary_def tx_names_def allowed_def NewServer_def NewConnection_def)

subsection \<open>Properties of watched keys\<close>

lemma write_marks:
  assumes "processCommand env v [] [] s = Ret (r, s')" and "Type v = Array" and "Elems v \<noteq> []"
    and "parseCmd env v = (cmd, args)" and "isWriteCommand cmd" and "GetHandler cmd \<noteq> None"
  shows "conns s' c = (if \<exists>k \<in> set (extractKeys cmd args). c \<in> watching s k
    then MarkDirty (conns s c) else conns s c)"
proof -
  obtain f where f: "GetHandler cmd = Some f" using assms(6) by blast
  have "(if ([]::string) = [] then parseCmd env v else ([], [])) = (cmd, args)" using assms(4) by simp
  from assms(1) [unfolded processCommand_eq [OF assms(2,3) this]] f assms(5)
  show ?thesis by (auto simp: written_keys_def mark_keys_eq split: outcome.splits)
qed

text \<open>C8: Optimistic locking, in every reachable state: when an open connection watches a key
  and any connection then runs a write command that names the key among its extracted keys
  (before the handler even runs, so also if it fails), the watching connection is dirty
  afterwards.\<close>

theorem watch_detects:
  assumes "reachable pass h s" and "cache_ok lru_ok (h_cache h)"
    and "\<not> closed (conns s c)" and "key \<in> watched s c"
    and "ordinary (envs 0) v" and "allowed c' s" and "\<not> inTransaction (conns s c')"
    and "parseCmd (envs 0) v = (cmd, args)" and "isWriteCommand cmd" and "key \<in> set (extractKeys cmd args)"
    and "processCommandWithTx envs c' v s = Ret (r, s')"
  shows "dirty (conns s' c)"
proof -
  have watch: "dirty (conns s c) \<or> c \<in> watching s key"
    using reachable_ok [OF assms(1,2)] assms(3,4) by (auto simp: server_ok_def watch_ok_def)
  have "GetHandler cmd \<noteq> None"
    using assms(9) by (auto simp: isWriteCommand_def GetHandler_def commands_def)
  moreover have "processCommand (envs 0) v [] [] s = Ret (r, s')"
    using ordinary_request [of envs v c' s, OF assms(5,6)] assms(7,11) by simp
  ultimately show ?thesis
    using write_marks [of "envs 0" v s r s' cmd args c] watch assms(5,8-10) by (auto simp: ordinary_def)
qed

text \<open>The first step of a run, for the witnesses: the server after WATCH.\<close>

definition watched_server :: "EngineConfig \<Rightarrow> server" where
  "watched_server cfg = addWatcher ''k'' 0 (upd_conn 0 (WatchKey ''k'') (NewServer [] (NewHandler (NewCache cfg) False)))"

lemma NewHandler_ok: "cache_ok lru_ok (h_cache (NewHandler (NewCache cfg) b))"
  using NewCache_ok by (simp add: NewHandler_def)

lemma watched_server_reachable: "reachable [] (NewHandler (NewCache cfg) False) (watched_server cfg)"
proof (rule reachable.request [OF reachable.start])
  show "handle_value (\<lambda>_ _. witness_env) 0 (request [''WATCH'', ''k'']) (NewServer [] (NewHandler (NewCache cfg) False))
      = Ret (EncodeRESP (simple ''OK''), watched_server cfg)"
    by (simp add: handle_value_def processCommandWithTx_def handleTxCmd_def handleWatch_def
        watched_server_def NewServer_def NewConnection_def)
qed

lemma watched_server_sel [simp]:
  "conns (watched_server cfg) c = (if c = 0 then WatchKey ''k'' NewConnection else NewConnection)"
  "requirepass (watched_server cfg) = []"
  "s_handler (watched_server cfg) = NewHandler (NewCache cfg) False"
  by (simp_all add: watched_server_def NewServer_def)

lemma set_runs:
  "\<exists>s'. processCommandWithTx (\<lambda>_. witness_env) 1 (request [''SET'', ''k'', ''v'']) (watched_server cfg)
     = Ret (simple ''OK'', s')"
proof -
  have "processCommandWithTx (\<lambda>_. witness_env) 1 (request [''SET'', ''k'', ''v'']) (watched_server cfg)
      = processCommand witness_env (request [''SET'', ''k'', ''v'']) [] [] (watched_server cfg)"
    by (subst ordinary_request) (simp_all add: ordinary_def tx_names_def allowed_def NewConnection_def)
  then show ?thesis
    by (simp add: processCommand_eq [where cmd' = "''SET''" and args' = "[''k'', ''v'']"] GetHandler_def commands_def total_def h_Set_def)
qed

lemma watch_detects_witness:
  "\<exists>s'. processCommandWithTx (\<lambda>_. witness_env) 1 (request [''SET'', ''k'', ''v'']) (watched_server witness_cfg)
     = Ret (simple ''OK'', s') \<and> dirty (conns s' 0)"
proof -
  obtain s' where s': "processCommandWithTx (\<lambda>_. witness_env) 1 (request [''SET'', ''k'', ''v'']) (watched_server witness_cfg)
     = Ret (simple ''OK'', s')" using set_runs by blast
  have "dirty (conns s' 0)"
    by (rule watch_detects [OF watched_server_reachable NewHandler_ok _ _ _ _ _ _ _ _ s',
          where key = "''k''" and cmd = "''SET''" and args = "[''k'', ''v'']"])
      (simp_all add: watched_def WatchKey_def NewConnection_def ordinary_def tx_names_def allowed_def
        isWriteCommand_def extractKeys_def)
  with s' show ?thesis by blast
qed

text \<open>EXEC on a dirty transaction replies null and runs nothing: the data is untouched, and
  the transaction, its queue, the watched keys and the dirty mark are cleared.\<close>

theorem exec_dirty_aborts:
  assumes "inTransaction (conns s c)" and "dirty (conns s c)" and "allowed c s"
    and "parseCmd (envs 0) v = (''EXEC'', args)" and "Type v = Array" and "Elems v \<noteq> []"
  shows "\<exists>s'. processCommandWithTx envs c v s = Ret (null_bulk, s')
    \<and> s_handler s' = s_handler s \<and> conns s' c = ResetTransaction (conns s c)
    \<and> (\<forall>c'. c' \<noteq> c \<longrightarrow> conns s' c' = conns s c')"
  using tx_request(1) [OF assms(5,6,3), where envs = envs, OF assms(4)] assms(1,2)
  by (simp add: handleExec_def IsDirty_def)

lemma exec_dirty_aborts_witness:
  "\<exists>s'. processCommandWithTx (\<lambda>_. witness_env) 0 (request [''EXEC''])
        (upd_conn 0 (\<lambda>conn. conn\<lparr>inTransaction := True, dirty := True\<rparr>) (watched_server witness_cfg)) = Ret (null_bulk, s')
    \<and> s_handler s' = s_handler (watched_server witness_cfg)"
  using exec_dirty_aborts [of "upd_conn 0 (\<lambda>conn. conn\<lparr>inTransaction := True, dirty := True\<rparr>) (watched_server witness_cfg)"
      0 "\<lambda>_. witness_env" "request [''EXEC'']" "[]"]
  by (auto simp: allowed_def)

text \<open>C31: A request of one connection never changes another connection's state except for setting
  its dirty mark.\<close>

theorem connection_isolation:
  assumes "processCommandWithTx envs c v s = Ret (r, s')" and "c' \<noteq> c"
  shows "conns s' c' = conns s c' \<or> conns s' c' = MarkDirty (conns s c')"
proof -
  let ?P = "\<lambda>s s'. conns s' c' = conns s c' \<or> conns s' c' = MarkDirty (conns s c')"
  have cmd: "?P s s'" if "processCommand env v cmd args s = Ret (r, s')" for env v cmd args s r s'
    using processCommand_effect [OF that] by (auto simp: mark_keys_eq split: if_splits)
  have trans: "?P s1 s3" if "?P s1 s2" "?P s2 s3" for s1 s2 s3
    using that by (auto simp: MarkDirty_def)
  have loop: "?P s s'" if "exec_loop envs i vs s = Ret (rs, s')" for i vs s rs s'
    using that
  proof (induction vs arbitrary: i s rs)
    case (Cons q vs)
    then obtain r1 s1 rs1 where "processCommand (envs i) q [] [] s = Ret (r1, s1)"
      and "exec_loop envs (i + 1) vs s1 = Ret (rs1, s')"
      by (auto split: outcome.splits prod.splits)
    with Cons.IH cmd trans show ?case by blast
  qed simp
  have watch: "conns (foldl (\<lambda>s key. addWatcher key c (upd_conn c (WatchKey key) s)) s args) c' = conns s c'"
    for args s
    using assms(2) by (induction args arbitrary: s) simp_all
  have exec: "?P s s'" if "handleExec envs c args s = Ret (r, s')" for args r s'
    using that assms(2) loop
    by (fastforce simp: handleExec_def Let_def split: if_splits outcome.splits)
  have tx: "?P s s'" if "handleTxCmd envs c v s = Ret (r, s')" for r s'
    using that assms(2) watch
    by (auto dest!: exec simp: handleTxCmd_def handleMulti_def handleWatch_def handleUnwatch_def handleDiscard_def
        case_prod_unfold Let_def split: if_splits outcome.splits)
  show ?thesis
    using assms tx cmd trans
    by (auto simp: processCommandWithTx_def case_prod_unfold split: if_splits outcome.splits option.splits) blast+
qed

lemma connection_isolation_witness:
  "\<exists>s'. processCommandWithTx (\<lambda>_. witness_env) 1 (request [''SET'', ''k'', ''v'']) (watched_server witness_cfg)
      = Ret (simple ''OK'', s')
    \<and> (conns s' 0 = WatchKey ''k'' NewConnection \<or> conns s' 0 = MarkDirty (WatchKey ''k'' NewConnection))"
proof -
  obtain s' where s': "processCommandWithTx (\<lambda>_. witness_env) 1 (request [''SET'', ''k'', ''v'']) (watched_server witness_cfg)
     = Ret (simple ''OK'', s')" using set_runs by blast
  with connection_isolation [OF s', of 0] show ?thesis by simp
qed

end
