(* ===== verification/WriteKeys.thy ===== *)
theory WriteKeys
  imports ServerProps
begin

section \<open>The keys a write command changes\<close>

text \<open>
  \<open>extractKeys\<close> (\<^verbatim>\<open>internal/server/transaction.go\<close>) tells which watchers a write command
  notifies.  Here it is compared with what the handlers (\<^verbatim>\<open>internal/handler\<close>) really change:
  for every write command but DEL, nothing outside the extracted keys changes, evictions
  aside; DEL deletes all of its arguments while only the first is extracted.
\<close>

definition touches :: "string list \<Rightarrow> lru cache \<Rightarrow> lru cache \<Rightarrow> bool" where
  "touches keys c c' \<longleftrightarrow> (\<forall>k. k \<notin> set keys \<longrightarrow>
     (lru_item c' k = None \<or> lru_item c' k = lru_item c k)
     \<and> Cache_GetHash k c' = Cache_GetHash k c \<and> Cache_GetList k c' = Cache_GetList k c
     \<and> Cache_GetSet k c' = Cache_GetSet k c \<and> Cache_GetSortedSet k c' = Cache_GetSortedSet k c)"

lemma touches_refl [simp]: "touches keys c c"
  by (simp add: touches_def)

lemma touches_puts:
  assumes "cache_size_ok c" and "key \<in> set keys"
  shows "touches keys c (Cache_put_hash key x c)" "touches keys c (Cache_put_list key l c)"
    "touches keys c (Cache_put_set key s c)" "touches keys c (Cache_put_sorted_set key z c)"
  using assms by (auto simp: touches_def)

lemma touches_Set:
  assumes "cache_ok lru_ok c" and "key \<in> set keys"
  shows "touches keys c (Cache_Set lru_evictor now key v ttl c)"
  using assms(2) lru.Cache_Set_other [OF assms(1)] Cache_evictor_frames(4) [OF cache_okD [OF assms(1)]]
  unfolding touches_def same_containers_def by metis

lemma touches_Get:
  assumes "cache_ok lru_ok c"
  shows "touches keys c (snd (Cache_Get lru_evictor now key c))"
proof -
  have "lru_item (snd (Cache_Get lru_evictor now key c)) k = None
      \<or> lru_item (snd (Cache_Get lru_evictor now key c)) k = lru_item c k" for k
    using drop_expired_cases [of now "lru_item c key"] by (auto simp: lru.Cache_Get_eq(3) [OF assms])
  with Cache_evictor_frames(1) [OF cache_okD [OF assms], of lru_evictor now key]
  show ?thesis by (simp add: touches_def same_containers_def)
qed

lemma touches_trans: "touches keys c1 c2 \<Longrightarrow> touches keys c2 c3 \<Longrightarrow> touches keys c1 c3"
  unfolding touches_def by metis

lemma touches_mset_loop:
  "cache_ok lru_ok c \<Longrightarrow> fst ` set kvs \<subseteq> set keys \<Longrightarrow> touches keys c (mset_loop env i kvs c)"
proof (induction env i kvs c rule: mset_loop.induct)
  case (2 env i k v kvs c)
  then show ?case
    using touches_Set [OF "2.prems"(1), of k keys] "2.IH" lru.Cache_Set_ok [OF "2.prems"(1)]
    by (auto intro: touches_trans)
qed simp

lemma arg_pairs_keys: "fst ` set (arg_pairs args) \<subseteq> set (map (\<lambda>i. args ! (2 * i)) [0..<(length args + 1) div 2])"
proof
  fix k assume "k \<in> fst ` set (arg_pairs args)"
  then have "\<exists>i < (length args + 1) div 2. k = args ! (2 * i)"
  proof (induction args rule: arg_pairs.induct)
    case (1 a b rest)
    show ?case
    proof (cases "k = a")
      case True
      then show ?thesis by (intro exI [of _ 0]) simp
    next
      case False
      with 1 obtain i where "i < (length rest + 1) div 2" "k = rest ! (2 * i)" by auto
      then show ?thesis by (intro exI [of _ "Suc i"]) simp
    qed
  qed simp_all
  then show "k \<in> set (map (\<lambda>i. args ! (2 * i)) [0..<(length args + 1) div 2])" by auto
qed

lemma first_arg: "\<not> length args < Suc n \<Longrightarrow> args ! 0 \<in> set args" "\<not> length args < Suc n \<Longrightarrow> args \<noteq> []"
  by (cases args; simp)+

definition footprint :: "string \<Rightarrow> command \<Rightarrow> bool" where
  "footprint cmd f \<longleftrightarrow> (\<forall>env args h r h'. cache_ok lru_ok (h_cache h) \<longrightarrow> f env args h = Ret (r, h')
     \<longrightarrow> touches (extractKeys cmd args) (h_cache h) (h_cache h'))"

lemma footprint_total:
  "(\<And>env args h. cache_ok lru_ok (h_cache h) \<Longrightarrow>
      touches (extractKeys cmd args) (h_cache h) (h_cache (snd (g env args h)))) \<Longrightarrow> footprint cmd (total g)"
  by (simp add: footprint_def total_def) (metis snd_conv)

text \<open>The commands whose only extracted key is the first argument.\<close>

lemma footprint_first:
  assumes "\<And>args. extractKeys cmd args = (if length args > 0 then [args ! 0] else [])"
    and "\<And>env args h. cache_ok lru_ok (h_cache h) \<Longrightarrow>
      touches [args ! 0] (h_cache h) (h_cache (snd (g env args h)))"
    and "\<And>env h. h_cache (snd (g env [] h)) = h_cache h"
  shows "footprint cmd (total g)"
proof (rule footprint_total)
  fix env args and h :: handler assume "cache_ok lru_ok (h_cache h)"
  with assms(2) have t: "touches [args ! 0] (h_cache h) (h_cache (snd (g env args h)))" by blast
  show "touches (extractKeys cmd args) (h_cache h) (h_cache (snd (g env args h)))"
  proof (cases args)
    case Nil
    then show ?thesis by (simp only: assms(3) touches_refl)
  next
    case (Cons a list)
    with t show ?thesis by (simp add: assms(1))
  qed
qed

lemma container_touches:
  assumes "cache_ok lru_ok (h_cache h)"
  shows "touches [args ! 0] (h_cache h) (h_cache (snd (h_HSet env args h)))"
    and "touches [args ! 0] (h_cache h) (h_cache (snd (h_HDel env args h)))"
    and "touches [args ! 0] (h_cache h) (h_cache (snd (h_LPush env args h)))"
    and "touches [args ! 0] (h_cache h) (h_cache (snd (h_RPush env args h)))"
    and "touches [args ! 0] (h_cache h) (h_cache (snd (h_LPop env args h)))"
    and "touches [args ! 0] (h_cache h) (h_cache (snd (h_RPop env args h)))"
    and "touches [args ! 0] (h_cache h) (h_cache (snd (h_SAdd env args h)))"
    and "touches [args ! 0] (h_cache h) (h_cache (snd (h_SRem env args h)))"
    and "touches [args ! 0] (h_cache h) (h_cache (snd (h_ZAdd env args h)))"
    and "touches [args ! 0] (h_cache h) (h_cache (snd (h_ZRem env args h)))"
  using touches_puts [OF cache_okD [OF assms], of "args ! 0" "[args ! 0]"] cache_okD [OF assms]
  by (simp_all add: h_cache_containers Cache_GetOrCreate_eqs split: option.split)

lemma no_args:
  "h_HSet env [] h = (wrong_args ''hset'', h)" "h_HDel env [] h = (wrong_args ''hdel'', h)"
  "h_LPush env [] h = (wrong_args ''lpush'', h)" "h_RPush env [] h = (wrong_args ''rpush'', h)"
  "h_LPop env [] h = (wrong_args ''lpop'', h)" "h_RPop env [] h = (wrong_args ''rpop'', h)"
  "h_SAdd env [] h = (wrong_args ''sadd'', h)" "h_SRem env [] h = (wrong_args ''srem'', h)"
  "h_ZAdd env [] h = (wrong_args ''zadd'', h)" "h_ZRem env [] h = (wrong_args ''zrem'', h)"
  "h_Set env [] h = (wrong_args ''set'', h)" "h_Append env [] h = (wrong_args ''append'', h)"
  by (simp_all add: h_HSet_def h_HDel_def h_LPush_def h_RPush_def h_LPop_def h_RPop_def h_SAdd_def
      h_SRem_def h_ZAdd_def h_ZRem_def h_Set_def h_Append_def)

lemma container_footprints:
  "footprint ''HSET'' (total h_HSet)" "footprint ''HDEL'' (total h_HDel)"
  "footprint ''LPUSH'' (total h_LPush)" "footprint ''RPUSH'' (total h_RPush)"
  "footprint ''LPOP'' (total h_LPop)" "footprint ''RPOP'' (total h_RPop)"
  "footprint ''SADD'' (total h_SAdd)" "footprint ''SREM'' (total h_SRem)"
  "footprint ''ZADD'' (total h_ZAdd)" "footprint ''ZREM'' (total h_ZRem)"
  by (rule footprint_first; simp add: extractKeys_def container_touches no_args)+

lemma string_touches:
  assumes "cache_ok lru_ok (h_cache h)"
  shows "touches [args ! 0] (h_cache h) (h_cache (snd (h_Set env args h)))"
    and "touches [args ! 0] (h_cache h) (h_cache (snd (h_Append env args h)))"
  using touches_Set [OF assms, of "args ! 0" "[args ! 0]"]
    touches_trans [OF touches_Get [OF assms] touches_Set [OF lru.Cache_Get_eq(2) [OF assms],
        of "args ! 0" "[args ! 0]"]]
  by (simp_all add: h_cache_strings)

lemma string_footprints:
  "footprint ''SET'' (total h_Set)" "footprint ''APPEND'' (total h_Append)"
  by (rule footprint_first; simp add: extractKeys_def string_touches no_args)+

lemma batch_footprints: "footprint ''MSET'' (total h_MSet)" "footprint ''MSETNX'' (total h_MSetNX)"
proof -
  have m: "touches (extractKeys cmd args) c (mset_loop env 0 (arg_pairs args) c)"
    if "cmd \<in> {''MSET'', ''MSETNX''}" "cache_ok lru_ok c" for cmd args env c
    using that(1) by (intro touches_mset_loop [OF that(2)] order_trans [OF arg_pairs_keys])
      (auto simp: extractKeys_def)
  show "footprint ''MSET'' (total h_MSet)" "footprint ''MSETNX'' (total h_MSetNX)"
    by (rule footprint_total; simp add: h_cache_strings m)+
qed

lemma commands_footprint:
  "list_all (\<lambda>(n, f). isWriteCommand n \<and> n \<noteq> ''DEL'' \<longrightarrow> footprint n f) commands"
  unfolding commands_def
  by (simp add: isWriteCommand_def container_footprints string_footprints batch_footprints)

text \<open>C21: For every write command except DEL, \<open>extractKeys\<close> is sound: a key that is not
  extracted keeps its string (or loses it to an eviction), hash, list, set and sorted set.  So
  the connections watching other keys have no change to hear of.\<close>

theorem extractKeys_sound:
  assumes "GetHandler cmd = Some f" and "isWriteCommand cmd" and "cmd \<noteq> ''DEL''"
    and "cache_ok lru_ok (h_cache h)" and "f env args h = Ret (r, h')"
    and "k \<notin> set (extractKeys cmd args)"
  shows "(lru_item (h_cache h') k = None \<or> lru_item (h_cache h') k = lru_item (h_cache h) k)
    \<and> Cache_GetHash k (h_cache h') = Cache_GetHash k (h_cache h)
    \<and> Cache_GetList k (h_cache h') = Cache_GetList k (h_cache h)
    \<and> Cache_GetSet k (h_cache h') = Cache_GetSet k (h_cache h)
    \<and> Cache_GetSortedSet k (h_cache h') = Cache_GetSortedSet k (h_cache h)"
  using GetHandler_all [OF commands_footprint assms(1)] assms(2-6)
  unfolding footprint_def touches_def by blast

lemma extractKeys_sound_witness:
  "Cache_GetHash ''b'' (h_cache (snd (h_HSet witness_env [''a'', ''f'', ''v''] (NewHandler (NewCache witness_cfg) False)))) = None"
  using extractKeys_sound [of "''HSET''" "total h_HSet" "NewHandler (NewCache witness_cfg) False" witness_env
      "[''a'', ''f'', ''v'']" "fst (h_HSet witness_env [''a'', ''f'', ''v''] (NewHandler (NewCache witness_cfg) False))"
      "snd (h_HSet witness_env [''a'', ''f'', ''v''] (NewHandler (NewCache witness_cfg) False))" "''b''"]
    NewHandler_ok [of witness_cfg False]
  by (simp add: GetHandler_def commands_def isWriteCommand_def total_def extractKeys_def)
    (simp add: NewHandler_def NewCache_containers)

end
