(* ===== verification/Sessions.thy ===== *)
theory Sessions
  imports WriteKeys
begin

section \<open>Sessions: authentication, replies on the wire, and what transactions get wrong\<close>

text \<open>
  Properties of whole requests and of the read loop \<open>serve\<close> of a connection
  (\<^verbatim>\<open>internal/server/server.go\<close>), and concrete behaviours of the transactions
  (\<^verbatim>\<open>transaction.go\<close>) that clients have to know.
\<close>

subsection \<open>Authentication\<close>

text \<open>C24: On a server with a password, a request of a connection that has not authenticated
  changes no data, no watcher and no other connection; the connection becomes authenticated
  only by AUTH with exactly the password; every other request is refused with an error.\<close>

theorem auth_required:
  assumes "requirepass s \<noteq> []" and "\<not> authenticated (conns s c)"
  shows "\<exists>r s'. processCommandWithTx envs c v s = Ret (r, s')
    \<and> s_handler s' = s_handler s \<and> watchers s' = watchers s
    \<and> (\<forall>c'. c' \<noteq> c \<longrightarrow> conns s' c' = conns s c')
    \<and> (if Type v = Array \<and> Elems v \<noteq> [] \<and> parseCmd (envs 0) v = (''AUTH'', [requirepass s])
       then r = simple ''OK'' \<and> authenticated (conns s' c)
       else Type r = Error \<and> \<not> authenticated (conns s' c))"
proof -
  have one: "length xs = 1 \<and> xs ! 0 = p \<longleftrightarrow> xs = [p]" for xs :: "string list" and p
    by (cases xs; cases "tl xs") auto
  show ?thesis
    using assms one [of "snd (parseCmd (envs 0) v)" "requirepass s"]
    by (auto simp: processCommandWithTx_def invalid_command_def wrong_args_def IsAuthenticated_def
        case_prod_unfold prod_eq_iff)
qed

lemma auth_required_witness:
  "\<exists>r s'. processCommandWithTx (\<lambda>_. witness_env) 0 (request [''SET'', ''k'', ''v''])
        (NewServer ''secret'' (NewHandler (NewCache witness_cfg) False)) = Ret (r, s')
    \<and> Type r = Error \<and> s_handler s' = NewHandler (NewCache witness_cfg) False"
  using auth_required [of "NewServer ''secret'' (NewHandler (NewCache witness_cfg) False)" 0 "\<lambda>_. witness_env"
      "request [''SET'', ''k'', ''v'']"]
  by (auto simp: NewServer_def NewConnection_def)

subsection \<open>The read loop\<close>

text \<open>The specification: the values of the stream are handled one after the other.\<close>

fun handle_all ::
  "(nat \<Rightarrow> nat \<Rightarrow> nat \<Rightarrow> env) \<Rightarrow> map_order \<Rightarrow> nat \<Rightarrow> conn_id \<Rightarrow> RESPValue list \<Rightarrow> server \<Rightarrow> (string \<times> server) outcome" where
  "handle_all E it n c [] s = Ret ([], end_connection it c s)"
| "handle_all E it n c (v # vs) s =
     (if closed (conns s c) then Ret ([], end_connection it c s)
      else case handle_value (E n) c v s of
        Panic \<Rightarrow> Panic
      | Ret (out, s1) \<Rightarrow>
          (case handle_all E it (n + 1) c vs s1 of
             Panic \<Rightarrow> Panic
           | Ret (out', s2) \<Rightarrow> Ret (out @ out', s2)))"

lemma serve_values:
  assumes "\<forall>v \<in> set vs. resp_ok 0 v \<and> no_empty_bulk v"
  shows "serve E it n c (concat (map EncodeRESP vs)) s = handle_all E it n c vs s"
  using assms
proof (induction vs arbitrary: n s)
  case Nil
  have "resp_Read 0 [] = Fail EOF" by (simp add: resp_Read.simps)
  then show ?case by (simp add: serve.simps IsClosed_def)
next
  case (Cons v vs)
  have "resp_Read 0 (concat (map EncodeRESP (v # vs))) = Got v (concat (map EncodeRESP vs))"
    using Cons.prems by (simp add: resp_Read_encoded)
  then show ?case
    using Cons by (subst serve.simps) (auto simp: IsClosed_def split: outcome.split)
qed

text \<open>A client that sends well-formed values without empty bulk strings and then ends the
  stream has each of them handled once and in order, however they arrive in the stream, and
  gets the concatenation of the encoded replies.\<close>

theorem serve_handles_all:
  assumes "\<forall>v \<in> set vs. resp_ok 0 v \<and> no_empty_bulk v"
  shows "serve E it n c (concat (map EncodeRESP vs)) s = handle_all E it n c vs s"
  by (rule serve_values [OF assms])

lemma serve_handles_all_witness:
  "serve (\<lambda>_ _ _. witness_env) id 0 0 (concat (map EncodeRESP [request [''PING''], request [''GET'', ''k'']]))
     (NewServer [] (NewHandler (NewCache witness_cfg) False))
   = handle_all (\<lambda>_ _ _. witness_env) id 0 0 [request [''PING''], request [''GET'', ''k'']]
     (NewServer [] (NewHandler (NewCache witness_cfg) False))"
  by (rule serve_handles_all) (simp add: request_def MaxRESPDepth_def MaxBulkStringSize_def)

text \<open>C39: Three bytes from any client kill the server, password or not: the connection's reader
  panics on \<open>$\<close> or \<open>*\<close> followed by a bare line feed.\<close>

theorem three_bytes_kill:
  assumes "\<not> closed (conns s c)"
  shows "serve E it n c (''$'' @ [LF] @ rest) s = Panic \<and> serve E it n c (''*'' @ [LF] @ rest) s = Panic"
proof -
  have "resp_Read 0 (''$'' @ [LF] @ rest) = Crash" "resp_Read 0 (''*'' @ [LF] @ rest) = Crash"
    by (simp_all add: readBulkString_def readArray.simps MaxRESPDepth_def)
  then show ?thesis using assms by (simp add: serve.simps IsClosed_def)
qed

lemma three_bytes_kill_witness:
  "serve (\<lambda>_ _ _. witness_env) id 0 0 (''$'' @ [LF] @ []) (NewServer ''secret'' (NewHandler (NewCache witness_cfg) True)) = Panic"
  using three_bytes_kill [of "NewServer ''secret'' (NewHandler (NewCache witness_cfg) True)" 0]
  by (simp add: NewServer_def NewConnection_def)

text \<open>An unknown command is quoted back unescaped: when its name contains a CRLF, a client
  that parses the reply reads an error cut at the CRLF, and the rest of the name as the start
  of the next reply.\<close>

theorem unknown_command_splits_reply:
  assumes "processCommand env v [] [] s = Ret (r, s')" and "Type v = Array" and "Elems v \<noteq> []"
    and "parseCmd env v = (a @ crlf @ b, args)" and "GetHandler (a @ crlf @ b) = None"
    and "LF \<notin> set a"
  shows "resp_Read 0 (EncodeRESP r) = Got (err (''ERR unknown command '' @ [CHR 0x27] @ a)) (b @ [CHR 0x27] @ crlf)"
proof -
  have "(if ([]::string) = [] then parseCmd env v else ([], [])) = (a @ crlf @ b, args)" using assms(4) by simp
  from assms(1) [unfolded processCommand_eq [OF assms(2,3) this]] assms(5)
  have r: "r = err (''ERR unknown command '' @ quoted (a @ crlf @ b))" by simp
  have "read_line ((''ERR unknown command '' @ [CHR 0x27] @ a) @ CR # LF # (b @ [CHR 0x27] @ crlf))
      = Some ((''ERR unknown command '' @ [CHR 0x27] @ a) @ crlf, b @ [CHR 0x27] @ crlf)"
    using assms(6) by (intro read_line_crlf) auto
  then show ?thesis
    by (simp add: r EncodeRESP_def quoted_def readError_def missing_crlf_def nth_append)
qed

lemma unknown_command_splits_reply_witness:
  "\<exists>r s'. processCommand witness_env (request [''X'' @ crlf @ ''+OK'']) [] [] (NewServer [] (NewHandler (NewCache witness_cfg) True))
      = Ret (r, s')
    \<and> resp_Read 0 (EncodeRESP r) = Got (err (''ERR unknown command '' @ [CHR 0x27] @ ''X'')) (''+OK'' @ [CHR 0x27] @ crlf)"
proof -
  have up: "ToUpper id (''X'' @ crlf @ ''+OK'') = ''X'' @ crlf @ ''+OK''"
    by (simp add: ToUpper_def is_ascii_def upper_char_def)
  have p: "parseCmd witness_env (request [''X'' @ crlf @ ''+OK'']) = (''X'' @ crlf @ ''+OK'', [])"
    using up by (simp add: witness_env_def)
  have g: "GetHandler (''X'' @ crlf @ ''+OK'') = None" by (simp add: GetHandler_def commands_def)
  have "processCommand witness_env (request [''X'' @ crlf @ ''+OK'']) [] [] (NewServer [] (NewHandler (NewCache witness_cfg) True))
      = Ret (err (''ERR unknown command '' @ quoted (''X'' @ crlf @ ''+OK'')), NewServer [] (NewHandler (NewCache witness_cfg) True))"
    using p g processCommand_eq [where cmd = "[]" and cmd' = "''X'' @ crlf @ ''+OK''" and args' = "[]"
        and v = "request [''X'' @ crlf @ ''+OK'']" and env = witness_env]
    by simp
  from this unknown_command_splits_reply [OF this _ _ p g] show ?thesis by auto
qed

subsection \<open>What the transactions get wrong\<close>

lemma run_del:
  assumes "ordinary (envs 0) v" and "allowed c s" and "\<not> inTransaction (conns s c)"
    and "parseCmd (envs 0) v = (''DEL'', k # ks)"
  shows "\<exists>r. processCommandWithTx envs c v s
    = Ret (r, (markWatchedKeysDirty [k] s)\<lparr>s_handler := snd (h_Delete (envs 0) (k # ks) (s_handler s))\<rparr>)"
proof -
  have v: "Type v = Array" "Elems v \<noteq> []" using assms(1) by (simp_all add: ordinary_def)
  have p: "(if ([]::string) = [] then parseCmd (envs 0) v else ([], [])) = (''DEL'', k # ks)" using assms(4) by simp
  have "GetHandler ''DEL'' = Some (total h_Delete)" by (simp add: GetHandler_def commands_def)
  moreover have "written_keys ''DEL'' (k # ks) = [k]"
    by (simp add: written_keys_def isWriteCommand_def extractKeys_def)
  ultimately have "processCommand (envs 0) v [] [] s = Ret (fst (h_Delete (envs 0) (k # ks) (s_handler s)),
      (markWatchedKeysDirty [k] s)\<lparr>s_handler := snd (h_Delete (envs 0) (k # ks) (s_handler s))\<rparr>)"
    by (simp add: processCommand_eq [OF v p] total_def case_prod_unfold)
  with ordinary_request [of envs v c s, OF assms(1,2)] assms(3) show ?thesis by simp
qed

lemma count_delete_item:
  "cache_ok lru_ok c \<Longrightarrow> key \<in> set keys \<Longrightarrow>
     lru_item (snd (count_loop (Cache_Delete lru_evictor) keys c)) key = None"
proof (induction keys arbitrary: c)
  case (Cons k keys)
  let ?c = "snd (Cache_Delete lru_evictor k c)"
  have ok: "cache_ok lru_ok ?c" by (rule lru.Cache_Delete_eq(2) [OF Cons.prems(1)])
  have none: "lru_item (snd (count_loop (Cache_Delete lru_evictor) keys c)) key = None"
    if "cache_ok lru_ok c" "lru_item c key = None" for c keys
    using that
  proof (induction keys arbitrary: c)
    case (Cons k keys)
    then show ?case
      using Cons.IH [OF lru.Cache_Delete_eq(2) [OF Cons.prems(1), of k]] lru.Cache_Delete_eq(3) [OF Cons.prems(1), of k]
      by simp
  qed simp
  show ?case
  proof (cases "key \<in> set keys")
    case True
    with Cons.IH [OF ok] show ?thesis by simp
  next
    case False
    with Cons.prems(2) have "lru_item ?c key = None" using lru.Cache_Delete_eq(3) [OF Cons.prems(1), of k] by simp
    with none [OF ok] show ?thesis by simp
  qed
qed simp

text \<open>The deletion of a watched key goes unnoticed when it is not the first argument of DEL:
  the key is gone, but a connection that watches it and not the first argument is as it was,
  not dirty, so its transaction will run.\<close>

theorem del_second_key_unnoticed:
  assumes "cache_ok lru_ok (h_cache (s_handler s))"
    and "ordinary (envs 0) v" and "allowed c' s" and "\<not> inTransaction (conns s c')"
    and "parseCmd (envs 0) v = (''DEL'', k # ks)" and "key \<in> set ks" and "c \<notin> watching s k"
  shows "\<exists>r s'. processCommandWithTx envs c' v s = Ret (r, s')
    \<and> lru_item (h_cache (s_handler s')) key = None \<and> conns s' c = conns s c"
proof -
  let ?s = "(markWatchedKeysDirty [k] s)\<lparr>s_handler := snd (h_Delete (envs 0) (k # ks) (s_handler s))\<rparr>"
  obtain r where r: "processCommandWithTx envs c' v s = Ret (r, ?s)"
    using run_del [of envs v c' s, OF assms(2-5)] by blast
  have gone: "lru_item (h_cache (s_handler ?s)) key = None"
    using count_delete_item [OF assms(1), of key "k # ks"] assms(6)
    by (simp add: h_cache_strings del: count_loop_simps)
  have "conns ?s c = conns s c" using assms(7) by (simp add: mark_keys_eq)
  with r gone show ?thesis by blast
qed

lemma del_second_key_unnoticed_witness:
  "\<exists>r s'. processCommandWithTx (\<lambda>_. witness_env) 1 (request [''DEL'', ''other'', ''k'']) (watched_server witness_cfg)
      = Ret (r, s')
    \<and> lru_item (h_cache (s_handler s')) ''k'' = None \<and> conns s' 0 = WatchKey ''k'' NewConnection"
proof -
  have "watching (watched_server witness_cfg) ''other'' = {}"
    by (simp add: watched_server_def) (simp add: watching_def NewServer_def)
  then show ?thesis
    using del_second_key_unnoticed [of "watched_server witness_cfg" "\<lambda>_. witness_env" "request [''DEL'', ''other'', ''k'']"
        1 "''other''" "[''k'']" "''k''" 0] NewHandler_ok [of witness_cfg False]
    by (simp add: ordinary_def tx_names_def allowed_def NewConnection_def)
qed

text \<open>A successful EXEC leaves the watches and the dirty mark behind: when the transaction
  itself writes the key its connection watches, EXEC succeeds, but the connection is dirty
  afterwards, and its next transaction is aborted although nobody else wrote anything.\<close>

theorem exec_leaves_dirty:
  assumes "server_ok s" and "\<not> closed (conns s c)" and "inTransaction (conns s c)" and "\<not> dirty (conns s c)"
    and "allowed c s" and "key \<in> watched s c"
    and "queuedCommands (conns s c) = [request [''SET'', key, val]]"
  shows "\<exists>s1 s2 s3. processCommandWithTx envs c (request [''EXEC'']) s = Ret (array [simple ''OK''], s1)
    \<and> processCommandWithTx envs c (request [''MULTI'']) s1 = Ret (simple ''OK'', s2)
    \<and> processCommandWithTx envs c (request [''EXEC'']) s2 = Ret (null_bulk, s3)"
proof -
  let ?s0 = "upd_conn c (\<lambda>conn. conn\<lparr>queuedCommands := [], inTransaction := False\<rparr>) s"
  let ?h = "snd (h_Set (envs 0) [key, val] (s_handler s))"
  let ?s1 = "(markWatchedKeysDirty [key] ?s0)\<lparr>s_handler := ?h\<rparr>"
  have "GetHandler ''SET'' = Some (total h_Set)" by (simp add: GetHandler_def commands_def)
  moreover have "written_keys ''SET'' [key, val] = [key]"
    by (simp add: written_keys_def isWriteCommand_def extractKeys_def)
  ultimately have "processCommand (envs 0) (request [''SET'', key, val]) [] [] ?s0 = Ret (simple ''OK'', ?s1)"
    by (simp add: processCommand_eq [where cmd' = "''SET''" and args' = "[key, val]"] total_def h_Set_def)
  then have 1: "processCommandWithTx envs c (request [''EXEC'']) s = Ret (array [simple ''OK''], ?s1)"
    using tx_request(1) [of "request [''EXEC'']" c s envs "[]"] assms(3-5,7)
    by (simp add: handleExec_def IsDirty_def)
  have w: "c \<in> watching s key" using assms(1,2,4,6) by (auto simp: server_ok_def watch_ok_def)
  then have c1: "dirty (conns ?s1 c)" "\<not> inTransaction (conns ?s1 c)" "allowed c ?s1"
    using assms(5) by (auto simp: mark_keys_eq allowed_def)
  let ?s2 = "upd_conn c (\<lambda>conn. conn\<lparr>inTransaction := True, queuedCommands := []\<rparr>) ?s1"
  have 2: "processCommandWithTx envs c (request [''MULTI'']) ?s1 = Ret (simple ''OK'', ?s2)"
    using tx_request(2) [of "request [''MULTI'']" c ?s1 envs "[]"] c1 by (simp add: handleMulti_def)
  have "allowed c ?s2" using c1(3) by (simp add: allowed_def)
  then have "processCommandWithTx envs c (request [''EXEC'']) ?s2 = Ret (null_bulk, upd_conn c ResetTransaction ?s2)"
    using tx_request(1) [of "request [''EXEC'']" c ?s2 envs "[]"] c1(1) by (simp add: handleExec_def IsDirty_def)
  with 1 2 show ?thesis by blast
qed

lemma exec_leaves_dirty_witness:
  "\<exists>s1 s2 s3. processCommandWithTx (\<lambda>_. witness_env) 0 (request [''EXEC''])
      (upd_conn 0 (\<lambda>conn. conn\<lparr>inTransaction := True, queuedCommands := [request [''SET'', ''k'', ''v'']]\<rparr>)
        (watched_server witness_cfg)) = Ret (array [simple ''OK''], s1)
    \<and> processCommandWithTx (\<lambda>_. witness_env) 0 (request [''MULTI'']) s1 = Ret (simple ''OK'', s2)
    \<and> processCommandWithTx (\<lambda>_. witness_env) 0 (request [''EXEC'']) s2 = Ret (null_bulk, s3)"
proof (rule exec_leaves_dirty)
  show "server_ok (upd_conn 0 (\<lambda>conn. conn\<lparr>inTransaction := True,
      queuedCommands := [request [''SET'', ''k'', ''v'']]\<rparr>) (watched_server witness_cfg))"
    using reachable_ok [OF watched_server_reachable NewHandler_ok] by (rule server_ok_conn) simp_all
qed (simp_all add: watched_def WatchKey_def NewConnection_def allowed_def)

end
