(* ===== verification/Aof.thy ===== *)
theory Aof
  imports HandlerProps "HOL-Library.Sublist"
begin

section \<open>The append-only file\<close>

text \<open>
  Models \<^verbatim>\<open>internal/persistence/aof.go\<close>: the log's bytes, the buffered writer, and the
  replay of a log file at start-up.  The file on disk and the 4096 bytes buffer of
  \<open>bufio.Writer\<close> are two strings; writes to the file are taken to succeed.  The \<open>i\<close>-th
  command of a replay reads the clock and parses floats through \<open>envs i\<close>.  An error of
  \<open>replayCommand\<close> is \<open>False\<close>: \<open>Load\<close> only prints it and goes on.
\<close>

record aof =
  disk :: string
  buf :: string

subsection \<open>Writing\<close>

definition log_arg :: "string \<Rightarrow> string" where
  "log_arg arg = ''$'' @ Itoa (int (length arg)) @ crlf @ arg @ crlf"

definition log_bytes :: "string \<Rightarrow> string list \<Rightarrow> string" where
  "log_bytes cmd args =
     foldl (\<lambda>resp arg. resp @ log_arg arg)
       (''*'' @ Itoa (1 + int (length args)) @ crlf @ log_arg cmd) args"

text \<open>
  \<open>bufio.Writer.WriteString\<close>: what fits goes to the buffer; otherwise a non-empty buffer is
  filled up and flushed first, and what is then too long for the empty buffer goes to the
  file at once.
\<close>

definition WriteString :: "string \<Rightarrow> aof \<Rightarrow> aof" where
  "WriteString s a =
     (if length s \<le> 4096 - length (buf a) then a\<lparr>buf := buf a @ s\<rparr>
      else if buf a = [] then a\<lparr>disk := disk a @ s\<rparr>
      else let n = 4096 - length (buf a);
               a1 = a\<lparr>disk := disk a @ buf a @ take n s, buf := []\<rparr>
        in if length (drop n s) \<le> 4096 then a1\<lparr>buf := drop n s\<rparr>
           else a1\<lparr>disk := disk a1 @ drop n s\<rparr>)"

definition LogCommand :: "string \<Rightarrow> string list \<Rightarrow> aof \<Rightarrow> aof" where
  "LogCommand cmd args a = WriteString (log_bytes cmd args) a"

definition Flush :: "aof \<Rightarrow> aof" where
  "Flush a = a\<lparr>disk := disk a @ buf a, buf := []\<rparr>"

subsection \<open>Replaying\<close>

definition replay_ttl :: "env \<Rightarrow> string list \<Rightarrow> int" where
  "replay_ttl env args =
     (if length args \<ge> 4 \<and> ToUpper (uni_upper env) (args ! 2) = ''EX'' then
        (case Atoi (args ! 3) of Some secs \<Rightarrow> wrap64 (secs * 1000000000) | None \<Rightarrow> 0)
      else 0)"

definition replay_batch :: "env \<Rightarrow> string \<Rightarrow> string list \<Rightarrow> lru cache \<Rightarrow> bool \<times> lru cache" where
  "replay_batch env cmd args c =
     (if cmd = ''MSET'' then
        (if length args < 2 then (False, c)
         else if length args mod 2 \<noteq> 0 then (False, c)
         else (True, mset_loop env 0 (arg_pairs args) c))
      else if cmd = ''MSETNX'' then
        (if length args < 2 then (False, c)
         else if length args mod 2 \<noteq> 0 then (False, c)
         else if \<not> list_ex (\<lambda>(key, _). Cache_HasKey lru_evictor key c) (arg_pairs args)
           then (True, mset_loop env 0 (arg_pairs args) c)
         else (True, c))
      else (True, c))"

definition replay_strings :: "env \<Rightarrow> string \<Rightarrow> string list \<Rightarrow> lru cache \<Rightarrow> bool \<times> lru cache" where
  "replay_strings env cmd args c =
     (if cmd = ''SET'' then
        (if length args < 2 then (False, c)
         else (True, Cache_Set lru_evictor (clk env 0) (args ! 0) (args ! 1) (replay_ttl env args) c))
      else
        (if length args < 1 then (False, c)
         else (True, foldl (\<lambda>c key. snd (Cache_Delete lru_evictor key c)) c args)))"

definition replay_hash :: "string \<Rightarrow> string list \<Rightarrow> lru cache \<Rightarrow> bool \<times> lru cache" where
  "replay_hash cmd args c =
     (if cmd = ''HSET'' then
        (if length args < 3 then (False, c)
         else let key = args ! 0; fs = drop 1 args in
           if length fs mod 2 \<noteq> 0 then (False, c)
           else case Cache_GetOrCreateHash key c of (hash, _, c1) \<Rightarrow>
             (True, Cache_put_hash key (snd (count_loop (\<lambda>(f, v). Hash_Put f v) (arg_pairs fs) hash)) c1))
      else
        (if length args < 2 then (False, c)
         else let key = args ! 0; fs = drop 1 args in
           case Cache_GetHash key c of
             None \<Rightarrow> (True, c)
           | Some hash \<Rightarrow> (True, Cache_put_hash key (snd (count_loop Hash_Delete fs hash)) c)))"

definition replay_list :: "string \<Rightarrow> string list \<Rightarrow> lru cache \<Rightarrow> bool \<times> lru cache" where
  "replay_list cmd args c =
     (if cmd = ''LPUSH'' then
        (if length args < 2 then (False, c)
         else case Cache_GetOrCreateList (args ! 0) c of (l, _, c1) \<Rightarrow>
           (True, Cache_put_list (args ! 0) (snd (List_LPush (drop 1 args) l)) c1))
      else if cmd = ''RPUSH'' then
        (if length args < 2 then (False, c)
         else case Cache_GetOrCreateList (args ! 0) c of (l, _, c1) \<Rightarrow>
           (True, Cache_put_list (args ! 0) (snd (List_RPush (drop 1 args) l)) c1))
      else if cmd = ''LPOP'' then
        (if length args < 1 then (False, c)
         else case Cache_GetList (args ! 0) c of
           None \<Rightarrow> (True, c)
         | Some l \<Rightarrow> (True, Cache_put_list (args ! 0) (snd (List_LPop l)) c))
      else
        (if length args < 1 then (False, c)
         else case Cache_GetList (args ! 0) c of
           None \<Rightarrow> (True, c)
         | Some l \<Rightarrow> (True, Cache_put_list (args ! 0) (snd (List_RPop l)) c)))"

definition replay_set :: "string \<Rightarrow> string list \<Rightarrow> lru cache \<Rightarrow> bool \<times> lru cache" where
  "replay_set cmd args c =
     (if cmd = ''SADD'' then
        (if length args < 2 then (False, c)
         else case Cache_GetOrCreateSet (args ! 0) c of (s, _, c1) \<Rightarrow>
           (True, Cache_put_set (args ! 0) (snd (Set_Add (drop 1 args) s)) c1))
      else
        (if length args < 2 then (False, c)
         else case Cache_GetSet (args ! 0) c of
           None \<Rightarrow> (True, c)
         | Some s \<Rightarrow> (True, Cache_put_set (args ! 0) (snd (Set_Remove (drop 1 args) s)) c)))"

definition replay_sorted_set :: "env \<Rightarrow> string \<Rightarrow> string list \<Rightarrow> lru cache \<Rightarrow> bool \<times> lru cache" where
  "replay_sorted_set env cmd args c =
     (if cmd = ''ZADD'' then
        (if length args < 3 then (False, c)
         else let key = args ! 0; pairs = drop 1 args in
           if length pairs mod 2 \<noteq> 0 then (False, c)
           else case Cache_GetOrCreateSortedSet key c of (ss, _, c1) \<Rightarrow>
             (case zadd_loop env (arg_pairs pairs) 0 ss of (r, ss') \<Rightarrow>
               (r \<noteq> None, Cache_put_sorted_set key ss' c1)))
      else
        (if length args < 2 then (False, c)
         else case Cache_GetSortedSet (args ! 0) c of
           None \<Rightarrow> (True, c)
         | Some ss \<Rightarrow> (True, Cache_put_sorted_set (args ! 0)
             (snd (count_loop SortedSet_Remove (drop 1 args) ss)) c)))"

definition replay_cmd :: "env \<Rightarrow> string \<Rightarrow> string list \<Rightarrow> lru cache \<Rightarrow> bool \<times> lru cache" where
  "replay_cmd env cmd args c =
     (if cmd \<in> set [''SET'', ''DEL''] then replay_strings env cmd args c
      else if cmd \<in> set [''HSET'', ''HDEL''] then replay_hash cmd args c
      else if cmd \<in> set [''LPUSH'', ''RPUSH'', ''LPOP'', ''RPOP''] then replay_list cmd args c
      else if cmd \<in> set [''SADD'', ''SREM''] then replay_set cmd args c
      else if cmd \<in> set [''ZADD'', ''ZREM''] then replay_sorted_set env cmd args c
      else replay_batch env cmd args c)"

definition replayCommand :: "env \<Rightarrow> RESPValue \<Rightarrow> lru cache \<Rightarrow> bool \<times> lru cache" where
  "replayCommand env v c =
     (if Type v \<noteq> Array \<or> length (Elems v) < 1 then (False, c)
      else replay_cmd env (ToUpper (uni_upper env) (Str (Elems v ! 0)))
        (map Str (filter (\<lambda>e. Type e = BulkString) (drop 1 (Elems v)))) c)"

text \<open>The loop of \<open>Load\<close>: until the parser reports an error of any kind.\<close>

function load_loop :: "(nat \<Rightarrow> env) \<Rightarrow> nat \<Rightarrow> string \<Rightarrow> int \<Rightarrow> lru cache \<Rightarrow> (int \<times> lru cache) outcome" where
  "load_loop envs n data commandCount c =
     (case resp_Read 0 data of
        Crash \<Rightarrow> Panic
      | Fail _ \<Rightarrow> Ret (commandCount, c)
      | Got v rest \<Rightarrow>
          (case replayCommand (envs n) v c of (ok, c1) \<Rightarrow>
            load_loop envs (n + 1) rest (if ok then commandCount + 1 else commandCount) c1))"
  by pat_completeness auto
termination
proof (relation "measure (\<lambda>(envs, n, data, commandCount, c). length data)")
  fix envs n data commandCount c v rest p ok c1
  assume "resp_Read 0 data = Got v rest"
  then have "suffix_of rest data" by (rule resp_Read_suffix)
  then show "((envs, n + 1, rest, if ok then commandCount + 1 else commandCount, c1), envs, n, data, commandCount, c)
      \<in> measure (\<lambda>(envs, n, data, commandCount, c). length data)"
    by (auto simp: suffix_of_def)
qed simp

declare load_loop.simps [simp del]

text \<open>\<open>Load\<close> on the contents of the file, or \<open>None\<close> when it cannot be opened.\<close>

definition Load :: "(nat \<Rightarrow> env) \<Rightarrow> string option \<Rightarrow> lru cache \<Rightarrow> (bool \<times> lru cache) outcome" where
  "Load envs f c =
     (case f of
        None \<Rightarrow> Ret (False, c)
      | Some data \<Rightarrow>
          (case load_loop envs 0 data 0 c of
             Panic \<Rightarrow> Panic
           | Ret (_, c') \<Rightarrow> Ret (True, c')))"

end
