(* ===== verification/AofProps.thy ===== *)
theory AofProps
  imports Aof ServerProps
begin

section \<open>What the log records and what a replay restores\<close>

text \<open>
  The log is the concatenation of the commands in RESP; a replay re-executes them.  Two
  theorems make it a log: replaying an entry has the effect that the handler had, and whatever
  prefix of the log reached the disk before a crash, loading it restores the state after some
  prefix of the logged commands.  The exceptions are stated as well: APPEND, the PX option, and
  entries with an empty argument.
\<close>

type_synonym entry = "string \<times> string list"

subsection \<open>The bytes\<close>

lemma log_bytes_encodes: "log_bytes cmd args = EncodeRESP (request (cmd # args))"
proof -
  have fold: "foldl (\<lambda>resp arg. resp @ log_arg arg) acc args = acc @ concat (map log_arg args)" for acc
    by (rule foldl_append_concat) simp
  have arg: "EncodeRESP (bulk w) = log_arg w" for w by (simp add: log_arg_def)
  show ?thesis
    by (simp add: log_bytes_def request_def comp_def add.commute fold arg del: EncodeRESP_simps(5))
qed

definition entry_ok :: "entry \<Rightarrow> bool" where
  "entry_ok e \<longleftrightarrow> list_all (\<lambda>w. w \<noteq> [] \<and> int (length w) \<le> MaxBulkStringSize) (fst e # snd e)
     \<and> 64 * int (length (fst e # snd e)) \<le> 2 ^ 48"

definition log_all :: "entry list \<Rightarrow> string" where
  "log_all es = concat (map (\<lambda>(cmd, args). log_bytes cmd args) es)"

lemma log_all_simps [simp]:
  "log_all [] = []" "log_all ((cmd, args) # es) = log_bytes cmd args @ log_all es"
  "log_all (es @ es') = log_all es @ log_all es'"
  by (simp_all add: log_all_def)

lemma read_entry:
  assumes "entry_ok (cmd, args)"
  shows "resp_Read 0 (log_bytes cmd args @ rest) = Got (request (cmd # args)) rest"
  unfolding log_bytes_encodes using assms
  by (intro resp_Read_encoded) (auto simp: request_def entry_ok_def MaxRESPDepth_def list_all_iff)

subsection \<open>Truncated entries do not parse\<close>

lemma read_line_None: "LF \<notin> set s \<Longrightarrow> read_line s = None"
  by (induction s) auto

lemma strict_prefix_append:
  "strict_prefix p (xs @ ys) \<longleftrightarrow> strict_prefix p xs \<or> (\<exists>q. p = xs @ q \<and> strict_prefix q ys)"
  by (auto simp: strict_prefix_def prefix_append)

lemma strict_prefix_line:
  assumes "strict_prefix p (l @ crlf)" and "LF \<notin> set l"
  shows "read_line p = None"
proof -
  have "l @ crlf = (l @ [CR]) @ [LF]" by simp
  with assms(1) have "prefix p (l @ [CR])"
    by (simp only: strict_prefix_append) (auto simp: strict_prefix_def prefix_Cons)
  then have "set p \<subseteq> set (l @ [CR])" by (rule set_mono_prefix)
  with assms(2) have "LF \<notin> set p" by auto
  then show ?thesis by (rule read_line_None)
qed

lemma truncated_bulk:
  assumes "strict_prefix p (EncodeRESP (bulk w))" and "w \<noteq> []" and "int (length w) \<le> MaxBulkStringSize"
  shows "\<exists>e. resp_Read d p = Fail e"
proof (cases p)
  case Nil
  then show ?thesis by (simp add: resp_Read.simps)
next
  case (Cons b q)
  with assms(1) have b: "b = CHR ''$''" and q: "strict_prefix q ((Itoa (int (length w)) @ crlf) @ (w @ crlf))"
    by (simp_all add: strict_prefix_def)
  from q consider "strict_prefix q (Itoa (int (length w)) @ crlf)"
    | r where "q = (Itoa (int (length w)) @ crlf) @ r" "strict_prefix r (w @ crlf)"
    unfolding strict_prefix_append [of q "Itoa (int (length w)) @ crlf"] by blast
  then show ?thesis
  proof cases
    case 1
    then show ?thesis by (simp add: Cons b readBulkString_def strict_prefix_line)
  next
    case 2
    have "int (length w) \<le> 2 ^ 62" using assms(3) by (simp add: MaxBulkStringSize_def)
    moreover have "length r < length w + 2" using prefix_length_less [OF 2(2)] by simp
    ultimately show ?thesis
      using assms(2,3) 2(1) by (auto simp: Cons b readBulkString_def nat_add_distrib)
  qed
qed

lemma truncated_elems:
  "strict_prefix p (concat (map (\<lambda>w. EncodeRESP (bulk w)) ws)) \<Longrightarrow>
   list_all (\<lambda>w. w \<noteq> [] \<and> int (length w) \<le> MaxBulkStringSize) ws \<Longrightarrow>
     \<exists>e. read_elems d (length ws) p = Fail e"
proof (induction ws arbitrary: p)
  case (Cons w ws)
  let ?rest = "concat (map (\<lambda>w. EncodeRESP (bulk w)) ws)"
  from Cons.prems(1) consider "strict_prefix p (EncodeRESP (bulk w))"
    | q where "p = EncodeRESP (bulk w) @ q" "strict_prefix q ?rest"
    using strict_prefix_append [of p "EncodeRESP (bulk w)" ?rest] by (simp del: EncodeRESP_simps) blast
  then show ?case
  proof cases
    case 1
    with truncated_bulk [of p w d] Cons.prems(2) show ?thesis by (auto simp: read_elems_Suc)
  next
    case 2
    have "resp_Read d p = Got (bulk w) q"
      unfolding 2(1) using Cons.prems(2) by (intro resp_Read_encoded) simp_all
    moreover obtain e where "read_elems d (length ws) q = Fail e" using Cons.IH [OF 2(2)] Cons.prems(2) by auto
    ultimately show ?thesis by (simp add: read_elems_Suc)
  qed
qed simp

lemma truncated_entry:
  assumes "strict_prefix p (log_bytes cmd args)" and "entry_ok (cmd, args)"
  shows "\<exists>e. resp_Read 0 p = Fail e"
proof (cases p)
  case Nil
  then show ?thesis by (simp add: resp_Read.simps)
next
  case (Cons b q)
  let ?ws = "cmd # args"
  let ?n = "Itoa (int (length ?ws)) @ crlf"
  have "log_bytes cmd args = ''*'' @ ?n @ concat (map (\<lambda>w. EncodeRESP (bulk w)) ?ws)"
    by (simp add: log_bytes_encodes request_def comp_def)
  with assms(1) Cons have b: "b = CHR ''*''" and q: "strict_prefix q (?n @ concat (map (\<lambda>w. EncodeRESP (bulk w)) ?ws))"
    by (simp_all add: strict_prefix_def del: EncodeRESP_simps)
  from q consider "strict_prefix q ?n"
    | r where "q = ?n @ r" "strict_prefix r (concat (map (\<lambda>w. EncodeRESP (bulk w)) ?ws))"
    unfolding strict_prefix_append [of q ?n] by blast
  then show ?thesis
  proof cases
    case 1
    then have "read_line q = None" by (rule strict_prefix_line) simp
    then show ?thesis by (simp add: Cons b readArray.simps MaxRESPDepth_def)
  next
    case 2
    obtain e where e: "read_elems 1 (length ?ws) r = Fail e"
      using truncated_elems [OF 2(2)] assms(2) unfolding entry_ok_def by auto
    have "readArray 0 (Itoa (int (length ?ws)) @ crlf @ r) = Fail e"
      using assms(2) e by (subst readArray_header) (simp_all add: entry_ok_def MaxRESPDepth_def)
    then show ?thesis using 2(1) by (simp add: Cons b)
  qed
qed

subsection \<open>Loading a log, whole or cut short\<close>

text \<open>The specification: replay the entries in order; count those without an error.\<close>

fun replay_all :: "(nat \<Rightarrow> env) \<Rightarrow> nat \<Rightarrow> entry list \<Rightarrow> int \<Rightarrow> lru cache \<Rightarrow> int \<times> lru cache" where
  "replay_all envs n [] k c = (k, c)"
| "replay_all envs n ((cmd, args) # es) k c =
     (case replayCommand (envs n) (request (cmd # args)) c of (ok, c') \<Rightarrow>
       replay_all envs (n + 1) es (if ok then k + 1 else k) c')"

lemma load_loop_entry:
  "entry_ok (cmd, args) \<Longrightarrow> load_loop envs n (log_bytes cmd args @ rest) k c =
     (case replayCommand (envs n) (request (cmd # args)) c of (ok, c') \<Rightarrow>
       load_loop envs (n + 1) rest (if ok then k + 1 else k) c')"
  by (subst load_loop.simps) (simp add: read_entry)

lemma load_loop_prefix:
  "list_all entry_ok es \<Longrightarrow> prefix p (log_all es) \<Longrightarrow>
     \<exists>j \<le> length es. load_loop envs n p k c = Ret (replay_all envs n (take j es) k c)
       \<and> (p = log_all es \<longrightarrow> j = length es)"
proof (induction es arbitrary: p n k c)
  case Nil
  then have "load_loop envs n p k c = Ret (k, c)"
    by (subst load_loop.simps) (simp add: resp_Read.simps)
  then show ?case by simp
next
  case (Cons e es)
  obtain cmd args where e: "e = (cmd, args)" by force
  have ok: "entry_ok (cmd, args)" and oks: "list_all entry_ok es" using Cons.prems(1) e by simp_all
  from Cons.prems(2) consider q where "p = log_bytes cmd args @ q" "prefix q (log_all es)"
    | "strict_prefix p (log_bytes cmd args)"
    by (cases "p = log_bytes cmd args") (auto simp: e prefix_append strict_prefix_def)
  then show ?case
  proof cases
    case 1
    obtain b c1 where r: "replayCommand (envs n) (request (cmd # args)) c = (b, c1)" by force
    obtain j where j: "j \<le> length es"
      "load_loop envs (n + 1) q (if b then k + 1 else k) c1
         = Ret (replay_all envs (n + 1) (take j es) (if b then k + 1 else k) c1)"
      "q = log_all es \<longrightarrow> j = length es"
      using Cons.IH [OF oks 1(2)] by blast
    then show ?thesis
      by (intro exI [of _ "Suc j"]) (auto simp: 1(1) e load_loop_entry [OF ok] r)
  next
    case 2
    then obtain x where "resp_Read 0 p = Fail x" using truncated_entry [OF _ ok] by blast
    then have "load_loop envs n p k c = Ret (k, c)" by (subst load_loop.simps) simp
    moreover have "p \<noteq> log_all (e # es)" using prefix_length_less [OF 2] by (auto simp: e)
    ultimately show ?thesis by (intro exI [of _ 0]) simp
  qed
qed

subsection \<open>The buffered writer\<close>

lemma WriteString_bytes:
  assumes "length (buf a) \<le> 4096"
  shows "disk (WriteString s a) @ buf (WriteString s a) = disk a @ buf a @ s"
    and "length (buf (WriteString s a)) \<le> 4096"
  using assms by (auto simp: WriteString_def Let_def)

datatype aof_op = Log string "string list" | FlushNow

fun aof_step :: "aof_op \<Rightarrow> aof \<Rightarrow> aof" where
  "aof_step (Log cmd args) a = LogCommand cmd args a"
| "aof_step FlushNow a = Flush a"

fun entries :: "aof_op list \<Rightarrow> entry list" where
  "entries [] = []"
| "entries (Log cmd args # ops) = (cmd, args) # entries ops"
| "entries (FlushNow # ops) = entries ops"

lemma aof_run_bytes:
  "length (buf a) \<le> 4096 \<Longrightarrow>
     disk (fold aof_step ops a) @ buf (fold aof_step ops a) = disk a @ buf a @ log_all (entries ops)
     \<and> length (buf (fold aof_step ops a)) \<le> 4096"
proof (induction ops arbitrary: a)
  case (Cons op ops)
  show ?case
  proof (cases op)
    case (Log cmd args)
    then show ?thesis
      using WriteString_bytes [OF Cons.prems, of "log_bytes cmd args"]
        Cons.IH [of "LogCommand cmd args a"] by (auto simp: LogCommand_def simp flip: append_assoc)
  next
    case FlushNow
    then show ?thesis using Cons.IH [of "Flush a"] by (simp add: Flush_def)
  qed
qed simp



subsection \<open>A replay does what the handler did\<close>

text \<open>The entries whose replay differs: APPEND is unknown to \<open>replayCommand\<close>, and it does not
  read the PX option.\<close>

definition replayable :: "env \<Rightarrow> string \<Rightarrow> string list \<Rightarrow> bool" where
  "replayable env cmd args \<longleftrightarrow> cmd \<noteq> ''APPEND''
     \<and> \<not> (cmd = ''SET'' \<and> length args \<ge> 4 \<and> ToUpper (uni_upper env) (args ! 2) = ''PX'')"

lemma count_loop_snd: "snd (count_loop f xs s) = foldl (\<lambda>s x. snd (f x s)) s xs"
  by (induction xs arbitrary: s) simp_all

definition replays_as :: "string \<Rightarrow> command \<Rightarrow> bool" where
  "replays_as cmd f \<longleftrightarrow> (\<forall>env args h r h'. f env args h = Ret (r, h') \<longrightarrow>
     h_spawned h' = h_spawned h @ [(cmd, args)] \<longrightarrow> replayable env cmd args \<longrightarrow>
       replay_cmd env cmd args (h_cache h) = (True, h_cache h'))"

lemma replays_total:
  "(\<And>env args h. h_spawned (snd (g env args h)) = h_spawned h @ [(cmd, args)] \<Longrightarrow> replayable env cmd args \<Longrightarrow>
      replay_cmd env cmd args (h_cache h) = (True, h_cache (snd (g env args h)))) \<Longrightarrow> replays_as cmd (total g)"
  by (simp add: replays_as_def total_def)

lemma container_replays:
  "replays_as ''HSET'' (total h_HSet)" "replays_as ''HDEL'' (total h_HDel)"
  "replays_as ''LPUSH'' (total h_LPush)" "replays_as ''RPUSH'' (total h_RPush)"
  "replays_as ''LPOP'' (total h_LPop)" "replays_as ''RPOP'' (total h_RPop)"
  "replays_as ''SADD'' (total h_SAdd)" "replays_as ''SREM'' (total h_SRem)"
  by (rule replays_total;
      auto simp: replay_cmd_def replay_hash_def replay_list_def replay_set_def go_log_def Let_def
        case_prod_unfold h_HSet_def h_HDel_def h_LPush_def h_RPush_def h_LPop_def h_RPop_def
        h_SAdd_def h_SRem_def split: if_splits option.splits)+

lemma sorted_set_replays: "replays_as ''ZADD'' (total h_ZAdd)" "replays_as ''ZREM'' (total h_ZRem)"
  by (rule replays_total;
      auto simp: replay_cmd_def replay_sorted_set_def go_log_def Let_def case_prod_unfold
        h_ZAdd_def h_ZRem_def split: if_splits option.splits)+

lemma string_replays:
  "replays_as ''SET'' (total h_Set)" "replays_as ''DEL'' (total h_Delete)"
  "replays_as ''MSET'' (total h_MSet)" "replays_as ''MSETNX'' (total h_MSetNX)"
  by (rule replays_total;
      auto simp: replay_cmd_def replay_strings_def replay_batch_def go_log_def Let_def case_prod_unfold count_loop_snd
        h_Set_def h_Delete_def h_MSet_def h_MSetNX_def set_ttl_def replay_ttl_def replayable_def
        split: if_splits option.splits)+

lemma append_replays: "replays_as ''APPEND'' (total h_Append)"
  by (rule replays_total) (simp add: replayable_def)

lemma reads_replay:
  assumes "\<And>env args h. h_spawned (snd (g env args h)) = h_spawned h"
  shows "replays_as cmd (total g)"
  using assms by (intro replays_total) simp

lemma scan_replays: "replays_as cmd h_Scan"
  by (auto simp: replays_as_def dest: h_Scan_state)

lemma commands_replay: "list_all (\<lambda>(n, f). replays_as n f) commands"
  unfolding commands_def
  by (simp add: container_replays sorted_set_replays string_replays append_replays scan_replays reads_replay)

text \<open>C18: The log records what happened: whenever a command's handler sends an entry to the log,
  replaying the entry on the same cache (with the same clock and float parser) gives exactly
  the cache that the handler left, without an error, for every command except APPEND and SET
  with the PX option.\<close>

theorem replay_reexecutes:
  assumes "GetHandler cmd = Some f" and "f env args h = Ret (r, h')"
    and "h_spawned h' = h_spawned h @ [(cmd, args)]"
    and "cmd \<noteq> ''APPEND''"
    and "\<not> (cmd = ''SET'' \<and> length args \<ge> 4 \<and> ToUpper (uni_upper env) (args ! 2) = ''PX'')"
    and "ToUpper (uni_upper env) cmd = cmd"
  shows "replayCommand env (request (cmd # args)) (h_cache h) = (True, h_cache h')"
proof -
  have "replay_cmd env cmd args (h_cache h) = (True, h_cache h')"
    using GetHandler_all [OF commands_replay assms(1)] assms(2-5)
    unfolding replays_as_def replayable_def by blast
  with assms(6) show ?thesis
    by (simp add: replayCommand_def request_def filter_map comp_def)
qed

lemma replay_reexecutes_witness:
  "replayCommand witness_env (request [''RPUSH'', ''k'', ''a'']) (NewCache witness_cfg)
     = (True, h_cache (snd (h_RPush witness_env [''k'', ''a''] (NewHandler (NewCache witness_cfg) True))))"
proof -
  have "ToUpper (uni_upper witness_env) ''RPUSH'' = ''RPUSH''"
    by (simp add: ToUpper_def is_ascii_def upper_char_def)
  then show ?thesis
    using replay_reexecutes [of "''RPUSH''" "total h_RPush" witness_env "[''k'', ''a'']" "NewHandler (NewCache witness_cfg) True"]
    by (simp add: GetHandler_def commands_def total_def NewHandler_def h_RPush_def go_log_def case_prod_unfold Let_def)
qed

text \<open>An APPEND is lost by a restart: its entry is in the log, but replaying it changes
  nothing and reports no error.\<close>

theorem append_lost:
  assumes "h_mgr h" and "\<not> length args < 2"
  shows "h_spawned (snd (h_Append env args h)) = h_spawned h @ [(''APPEND'', args)]
    \<and> replayCommand env (request (''APPEND'' # args)) c = (True, c)"
proof -
  have "ToUpper (uni_upper env) ''APPEND'' = ''APPEND''"
    by (simp add: ToUpper_def is_ascii_def upper_char_def)
  then have "replayCommand env (request (''APPEND'' # args)) c = (True, c)"
    by (simp add: replayCommand_def request_def replay_cmd_def replay_strings_def replay_batch_def)
  with assms show ?thesis by (simp add: h_Append_def case_prod_unfold go_log_def Let_def)
qed

lemma append_lost_witness:
  "replayCommand witness_env (request [''APPEND'', ''k'', ''v'']) (NewCache witness_cfg) = (True, NewCache witness_cfg)"
  using append_lost [of "NewHandler (NewCache witness_cfg) True" "[''k'', ''v'']" witness_env "NewCache witness_cfg"]
  by (simp add: NewHandler_def)

text \<open>C40: An entry with an empty argument that is not its last one ends the replay: nothing after
  it in the log is restored.\<close>

theorem empty_argument_ends_replay:
  assumes "entry_ok (cmd, us)" and "64 * (int (length us) + int (length vs) + 3) \<le> 2 ^ 48"
  shows "load_loop envs n (log_bytes cmd (us @ [] # v # vs) @ rest) k c = Ret (k, c)"
proof -
  have "log_bytes cmd (us @ [] # v # vs)
      = EncodeRESP (array (map bulk (cmd # us) @ bulk [] # bulk v # map bulk vs))"
    by (simp add: log_bytes_encodes request_def)
  moreover have "list_all (resp_ok 1) (map bulk (cmd # us))" "list_all no_empty_bulk (map bulk (cmd # us))"
    using assms(1) by (auto simp: entry_ok_def list_all_iff)
  ultimately have "resp_Read 0 (log_bytes cmd (us @ [] # v # vs) @ rest) = Fail ErrInvalidRESP"
    using empty_bulk_fails [of "map bulk (cmd # us)" "map bulk vs" "bulk v" rest] assms(2)
    by (simp add: algebra_simps del: EncodeRESP_simps)
  then show ?thesis by (subst load_loop.simps) simp
qed

lemma empty_argument_ends_replay_witness:
  "load_loop (\<lambda>_. witness_env) 0 (log_bytes ''SET'' [''k'', [], ''EX'', ''9''] @ log_bytes ''SET'' [''a'', ''b'']) 0 (NewCache witness_cfg) = Ret (0, NewCache witness_cfg)"
  using empty_argument_ends_replay [of "''SET''" "[''k'']" "[''9'']" "\<lambda>_. witness_env" 0 "''EX''"
      "log_bytes ''SET'' [''a'', ''b'']" 0 "NewCache witness_cfg"]
  by (simp add: entry_ok_def MaxBulkStringSize_def)

end
