(* ===== verification/Manager.thy ===== *)
theory Manager
  imports AofProps Json AutoSave
begin

section \<open>The persistence manager\<close>

text \<open>
  Models \<^verbatim>\<open>internal/persistence/manager.go\<close> and the start and stop of the append-only file
  (\<^verbatim>\<open>aof.go\<close>): which of the three stores are set up, in which order they are asked for data
  when the server starts, what is saved and what is flushed.  The append-only file is opened by
  its fixed name.  A pointer to an \<open>AOF\<close> that has not been started holds a nil writer: using it
  panics.  While the file is open its bytes on disk are those of the \<open>aof\<close> state;
  \<open>aof_files\<close> is the file system as another process (or the next start) sees it.
\<close>

record manager =
  pm_config :: PersistenceConfig
  pm_json :: "saver option"
  pm_rdb :: "saver option"
  pm_aof :: "aof option option"
  pm_aof_stopped :: bool

definition NewManager :: "PersistenceConfig \<Rightarrow> manager" where
  "NewManager cfg = \<lparr>pm_config = cfg,
     pm_json = (if JSON_Enabled (JSON cfg) then Some NewSaver else None),
     pm_rdb = (if RDB_Enabled (RDB cfg) then Some NewSaver else None),
     pm_aof = (if AOF_Enabled (AOF cfg) then Some None else None), pm_aof_stopped = False\<rparr>"

definition AOF_name :: string where
  "AOF_name = ''pendem.aof''"

definition AOF_Load :: "(nat \<Rightarrow> env) \<Rightarrow> files \<Rightarrow> lru cache \<Rightarrow> (bool \<times> lru cache) outcome" where
  "AOF_Load envs f c = Load envs (f AOF_name) c"

text \<open>\<open>os.OpenFile\<close> with \<open>O_CREATE|O_APPEND\<close>: \<open>opens\<close> says whether it succeeds.  The goroutine
  that flushes the log then makes a ticker, which panics when the interval is not positive.\<close>

definition AOF_Start :: "int \<Rightarrow> bool \<Rightarrow> files \<Rightarrow> (aof \<times> files) option outcome" where
  "AOF_Start flushInterval opens f =
     (if \<not> opens then Ret None
      else if flushInterval \<le> 0 then Panic
      else case f AOF_name of
        None \<Rightarrow> Ret (Some (\<lparr>disk = [], buf = []\<rparr>, f(AOF_name \<mapsto> [])))
      | Some bs \<Rightarrow> Ret (Some (\<lparr>disk = bs, buf = []\<rparr>, f)))"

definition aof_files :: "manager \<Rightarrow> files \<Rightarrow> files" where
  "aof_files m f = (case pm_aof m of Some (Some a) \<Rightarrow> f(AOF_name \<mapsto> disk a) | _ \<Rightarrow> f)"

text \<open>What a start reads from outside: clocks and parsers for the replay, and for the two snapshots.\<close>

record load_world =
  lw_envs :: "nat \<Rightarrow> env"
  lw_rdb :: load_env
  lw_json :: load_env
  lw_unmarshal :: "string \<Rightarrow> json_data option"
  lw_opens :: bool

definition loadData :: "load_world \<Rightarrow> files \<Rightarrow> manager \<Rightarrow> lru cache \<Rightarrow> lru cache outcome" where
  "loadData w f m c =
     (let load_json = (\<lambda>c. if JSON_Enabled (JSON (pm_config m)) \<and> pm_json m \<noteq> None
            then (case JSON_Load (lw_json w) (lw_unmarshal w) (JSON (pm_config m)) f c of
                    Panic \<Rightarrow> Panic | Ret (_, c') \<Rightarrow> Ret c')
            else Ret c);
          load_rdb = (\<lambda>c. if RDB_Enabled (RDB (pm_config m)) \<and> pm_rdb m \<noteq> None
            then (case RDB_Load (lw_rdb w) (RDB (pm_config m)) f c of
                    Panic \<Rightarrow> Panic
                  | Ret (None, c') \<Rightarrow> Ret c'
                  | Ret (Some _, c') \<Rightarrow> load_json c')
            else load_json c)
      in if AOF_Enabled (AOF (pm_config m)) \<and> pm_aof m \<noteq> None
         then (case AOF_Load (lw_envs w) f c of
                 Panic \<Rightarrow> Panic
               | Ret (True, c') \<Rightarrow> Ret c'
               | Ret (False, c') \<Rightarrow> load_rdb c')
         else load_rdb c)"

definition start_savers :: "manager \<Rightarrow> manager" where
  "start_savers m =
     (let m1 = (if JSON_Enabled (JSON (pm_config m))
                then m\<lparr>pm_json := map_option (Saver_Start (JSON_Interval (JSON (pm_config m)))) (pm_json m)\<rparr> else m)
      in if RDB_Enabled (RDB (pm_config m))
         then m1\<lparr>pm_rdb := map_option (Saver_Start (RDB_Interval (RDB (pm_config m)))) (pm_rdb m1)\<rparr> else m1)"

lemma start_savers_sel [simp]:
  "pm_config (start_savers m) = pm_config m" "pm_aof (start_savers m) = pm_aof m"
  "pm_aof_stopped (start_savers m) = pm_aof_stopped m"
  by (simp_all add: start_savers_def Let_def)

definition Manager_Start :: "load_world \<Rightarrow> files \<Rightarrow> manager \<Rightarrow> lru cache \<Rightarrow> (manager \<times> files \<times> lru cache) outcome" where
  "Manager_Start w f m c =
     (case loadData w f m c of
        Panic \<Rightarrow> Panic
      | Ret c' \<Rightarrow>
          let m1 = start_savers m in
          if AOF_Enabled (AOF (pm_config m)) \<and> pm_aof m1 \<noteq> None
          then (case AOF_Start (FlushInterval (AOF (pm_config m))) (lw_opens w) f of
                  Panic \<Rightarrow> Panic
                | Ret None \<Rightarrow> Ret (m1, f, c')
                | Ret (Some (a, f')) \<Rightarrow> Ret (m1\<lparr>pm_aof := Some (Some a)\<rparr>, f', c'))
          else Ret (m1, f, c'))"

definition Manager_LogCommand :: "string \<Rightarrow> string list \<Rightarrow> manager \<Rightarrow> manager outcome" where
  "Manager_LogCommand cmd args m =
     (case pm_aof m of
        None \<Rightarrow> Ret m
      | Some None \<Rightarrow> Panic
      | Some (Some a) \<Rightarrow> Ret (m\<lparr>pm_aof := Some (Some (LogCommand cmd args a))\<rparr>))"

text \<open>\<open>Flush\<close> of the log, as \<open>Save\<close> and \<open>Stop\<close> call it.\<close>

definition Manager_flush :: "manager \<Rightarrow> manager outcome" where
  "Manager_flush m =
     (case pm_aof m of
        None \<Rightarrow> Ret m
      | Some None \<Rightarrow> Panic
      | Some (Some a) \<Rightarrow> Ret (m\<lparr>pm_aof := Some (Some (Flush a))\<rparr>))"

text \<open>\<open>Stop\<close> of the log closes its channel (a second one panics), flushes and closes the file.\<close>

definition AOF_Stop :: "manager \<Rightarrow> manager outcome" where
  "AOF_Stop m =
     (case pm_aof m of
        None \<Rightarrow> Ret m
      | Some _ \<Rightarrow> if pm_aof_stopped m then Panic else Manager_flush (m\<lparr>pm_aof_stopped := True\<rparr>))"

definition stop_saver :: "saver option \<Rightarrow> saver option outcome" where
  "stop_saver so =
     (case so of
        None \<Rightarrow> Ret None
      | Some s \<Rightarrow> (case Saver_Stop s of Panic \<Rightarrow> Panic | Ret s' \<Rightarrow> Ret (Some s')))"

definition Manager_Stop :: "manager \<Rightarrow> files \<Rightarrow> (manager \<times> files) outcome" where
  "Manager_Stop m f =
     (case AOF_Stop m of
        Panic \<Rightarrow> Panic
      | Ret m1 \<Rightarrow>
     (case stop_saver (pm_rdb m1) of
        Panic \<Rightarrow> Panic
      | Ret r \<Rightarrow>
     (case stop_saver (pm_json m1) of
        Panic \<Rightarrow> Panic
      | Ret j \<Rightarrow> Ret (m1\<lparr>pm_rdb := r, pm_json := j\<rparr>, aof_files m1 f))))"

text \<open>What a save reads from outside.\<close>

record save_world =
  sw_rdb :: save_env
  sw_json :: save_env
  sw_unix :: int
  sw_marshal :: "json_data \<Rightarrow> string option"
  sw_glob :: "string \<Rightarrow> string list option"
  sw_mtime :: "string \<Rightarrow> int option"

definition Manager_Save :: "save_world \<Rightarrow> lru cache \<Rightarrow> manager \<Rightarrow> files \<Rightarrow> (manager \<times> files) outcome" where
  "Manager_Save w c m f =
     (case Manager_flush m of
        Panic \<Rightarrow> Panic
      | Ret m' \<Rightarrow>
          (case (if pm_rdb m \<noteq> None then RDB_Save (sw_rdb w) (RDB (pm_config m)) c f else Ret f) of
             Panic \<Rightarrow> Panic
           | Ret f1 \<Rightarrow>
               if pm_json m \<noteq> None
               then (case JSON_Save (sw_json w) (sw_unix w) (sw_marshal w) (sw_glob w) (sw_mtime w)
                          (JSON (pm_config m)) c f1 of
                       Panic \<Rightarrow> Panic
                     | Ret (_, f2) \<Rightarrow> Ret (m', f2))
               else Ret (m', f1)))"

end
