(* ===== verification/ManagerProps.thy ===== *)
theory ManagerProps
  imports Manager
begin

section \<open>Stopping and starting again\<close>

text \<open>
  What survives a restart, with the log and the two snapshots together: the log restores what
  its commands did, from then on it is the only source that is read, and a snapshot format that
  is enabled but has no file yet hides the next one.
\<close>

subsection \<open>The log as the manager keeps it\<close>

fun log_entries :: "entry list \<Rightarrow> manager \<Rightarrow> manager outcome" where
  "log_entries [] m = Ret m"
| "log_entries ((cmd, args) # es) m =
     (case Manager_LogCommand cmd args m of Panic \<Rightarrow> Panic | Ret m' \<Rightarrow> log_entries es m')"

lemma log_entries_bytes:
  assumes "pm_aof m = Some (Some a)" and "length (buf a) \<le> 4096"
  shows "\<exists>a'. log_entries es m = Ret (m\<lparr>pm_aof := Some (Some a')\<rparr>) \<and>
    disk a' @ buf a' = disk a @ buf a @ log_all es"
  using assms
proof (induction es arbitrary: m a)
  case Nil
  then show ?case by (auto intro!: exI [of _ a])
next
  case (Cons e es)
  obtain cmd args where e: "e = (cmd, args)" by force
  let ?a1 = "LogCommand cmd args a"
  have b: "disk ?a1 @ buf ?a1 = disk a @ buf a @ log_bytes cmd args" "length (buf ?a1) \<le> 4096"
    using WriteString_bytes [OF Cons.prems(2)] by (simp_all add: LogCommand_def)
  obtain a' where "log_entries es (m\<lparr>pm_aof := Some (Some ?a1)\<rparr>) = Ret (m\<lparr>pm_aof := Some (Some a')\<rparr>)"
      "disk a' @ buf a' = disk ?a1 @ buf ?a1 @ log_all es"
    using Cons.IH [of "m\<lparr>pm_aof := Some (Some ?a1)\<rparr>" ?a1] b(2) by auto
  with b(1) show ?case
    using Cons.prems(1) by (intro exI [of _ a']) (simp add: e Manager_LogCommand_def flip: append_assoc)
qed

text \<open>Commands that ran one after the other, each of them logged.\<close>

fun run_logged :: "(nat \<Rightarrow> env) \<Rightarrow> nat \<Rightarrow> entry list \<Rightarrow> handler \<Rightarrow> handler option" where
  "run_logged envs n [] h = Some h"
| "run_logged envs n ((cmd, args) # es) h =
     (case GetHandler cmd of
        None \<Rightarrow> None
      | Some f \<Rightarrow>
          (case f (envs n) args h of
             Panic \<Rightarrow> None
           | Ret (r, h') \<Rightarrow>
               if h_spawned h' = h_spawned h @ [(cmd, args)] then run_logged envs (n + 1) es h' else None))"

definition replayable_entry :: "(nat \<Rightarrow> env) \<Rightarrow> entry \<Rightarrow> bool" where
  "replayable_entry envs e \<longleftrightarrow> entry_ok e \<and>
     (\<forall>n. replayable (envs n) (fst e) (snd e) \<and> ToUpper (uni_upper (envs n)) (fst e) = fst e)"

lemma replay_entry:
  assumes "GetHandler cmd = Some f" and "f env args h = Ret (r, h')"
    and "h_spawned h' = h_spawned h @ [(cmd, args)]" and "replayable env cmd args"
    and "ToUpper (uni_upper env) cmd = cmd"
  shows "replayCommand env (request (cmd # args)) (h_cache h) = (True, h_cache h')"
proof -
  have "replay_cmd env cmd args (h_cache h) = (True, h_cache h')"
    using GetHandler_all [OF commands_replay assms(1)] assms(2-4) unfolding replays_as_def by blast
  with assms(5) show ?thesis by (simp add: replayCommand_def request_def filter_map comp_def)
qed

lemma replay_all_run:
  "run_logged envs n es h = Some h' \<Longrightarrow> list_all (replayable_entry envs) es \<Longrightarrow>
     replay_all envs n es k (h_cache h) = (k + int (length es), h_cache h')"
proof (induction envs n es h arbitrary: k rule: run_logged.induct)
  case (2 envs n cmd args es h)
  then obtain f r h1 where f: "GetHandler cmd = Some f" "f (envs n) args h = Ret (r, h1)"
      "h_spawned h1 = h_spawned h @ [(cmd, args)]" "run_logged envs (n + 1) es h1 = Some h'"
    by (auto split: option.splits outcome.splits if_splits)
  have "replayable (envs n) cmd args" "ToUpper (uni_upper (envs n)) cmd = cmd"
    using "2.prems"(2) by (simp_all add: replayable_entry_def)
  note step = replay_entry [OF f(1-3) this]
  have "list_all (replayable_entry envs) es" using "2.prems"(2) by simp
  from "2.IH" [OF f(1,2) refl f(3,4) this] step show ?case by simp
qed simp

lemma Manager_Start_log:
  assumes "AOF_Enabled (AOF pcfg)" and "lw_opens w"
    and "Manager_Start w f (NewManager pcfg) c = Ret (m, f1, c1)"
  shows "0 < FlushInterval (AOF pcfg)"
    "pm_aof m = Some (Some \<lparr>disk = (case f AOF_name of None \<Rightarrow> [] | Some bs \<Rightarrow> bs), buf = []\<rparr>)"
    "f1 = (case f AOF_name of None \<Rightarrow> f(AOF_name \<mapsto> []) | Some bs \<Rightarrow> f)"
  using assms
  by (auto simp: Manager_Start_def AOF_Start_def NewManager_def Let_def
      split: outcome.splits option.splits if_splits)

lemma Manager_Start_returns:
  assumes "0 < FlushInterval (AOF pcfg)" and "loadData w f (NewManager pcfg) c = Ret c1"
    and "f AOF_name = Some bs"
  shows "\<exists>m. Manager_Start w f (NewManager pcfg) c = Ret (m, f, c1)"
  using assms by (auto simp: Manager_Start_def AOF_Start_def NewManager_def Let_def)

text \<open>What a stop that returns leaves in the log file, and that it stops the snapshot writers.\<close>

lemma Manager_Stop_log:
  assumes "Manager_Stop m f = Ret (m', f')" and "pm_aof m = Some (Some a)"
  shows "f' AOF_name = Some (disk a @ buf a)"
  using assms by (auto simp: Manager_Stop_def AOF_Stop_def Manager_flush_def aof_files_def Flush_def
      split: outcome.splits if_splits)

text \<open>A manager that has been started once can be stopped.\<close>

lemma stop_saver_started:
  "s = NewSaver \<or> s = Saver_Start n NewSaver \<Longrightarrow> \<exists>so. stop_saver (Some s) = Ret so"
  by (cases "n \<le> 0") (auto simp: stop_saver_def Saver_Stop_def Saver_Start_def NewSaver_def)

lemma stop_saver_pm:
  "\<exists>r. stop_saver (pm_rdb (start_savers (NewManager pcfg))) = Ret r"
  "\<exists>j. stop_saver (pm_json (start_savers (NewManager pcfg))) = Ret j"
  using stop_saver_started by (auto simp: start_savers_def NewManager_def Let_def stop_saver_def)

lemma started_stops:
  assumes "Manager_Start w f (NewManager pcfg) c = Ret (m, f1, c1)"
    and "pm_aof m' = Some (Some a)" and "pm_rdb m' = pm_rdb m" and "pm_json m' = pm_json m"
    and "pm_aof_stopped m' = pm_aof_stopped m"
  shows "\<exists>m2 f2. Manager_Stop m' f3 = Ret (m2, f2)"
proof -
  have "pm_rdb m = pm_rdb (start_savers (NewManager pcfg))" "pm_json m = pm_json (start_savers (NewManager pcfg))"
      "\<not> pm_aof_stopped m"
    using assms(1) by (auto simp: Manager_Start_def NewManager_def Let_def split: outcome.splits option.splits if_splits)
  with stop_saver_pm [of pcfg] assms(2-) show ?thesis
    by (auto simp: Manager_Stop_def AOF_Stop_def Manager_flush_def)
qed

lemma DefaultConfig_log:
  "AOF_Enabled (AOF (Persistence DefaultConfig))" "0 < FlushInterval (AOF (Persistence DefaultConfig))"
  "\<not> FlushInterval (AOF (Persistence DefaultConfig)) \<le> 0"
  by (simp_all add: DefaultConfig_def minute_def second_def)

subsection \<open>Properties\<close>

text \<open>C2: A clean restart restores everything that was logged: when a server with an empty log ran a
  sequence of commands, each accepted by its handler and logged in that order, and was stopped,
  the next start (same configuration of the cache, AOF enabled) rebuilds exactly the cache the
  commands left: strings, hashes, lists, sets and sorted sets, the order of eviction included.
  APPEND, SET with PX and empty arguments are excluded; the clock readings of the replay count as
  those of the run (a time to live starts anew).\<close>

theorem restart_restores:
  assumes "run_logged envs 0 es (NewHandler (NewCache cfg) True) = Some h"
    and "list_all (replayable_entry envs) es" and "AOF_Enabled (AOF pcfg)"
    and "Manager_Start w f (NewManager pcfg) c0 = Ret (m, f1, c1)" and "lw_opens w" and "f AOF_name = Some []"
    and "log_entries es m = Ret m2" and "Manager_Stop m2 f1 = Ret (m3, f2)"
    and "lw_envs w' = envs"
  shows "\<exists>m4 f3. Manager_Start w' f2 (NewManager pcfg) (NewCache cfg) = Ret (m4, f3, h_cache h)"
proof -
  let ?a0 = "\<lparr>disk = [], buf = []\<rparr>"
  have "pm_aof m = Some (Some ?a0)"
    using Manager_Start_log(2) [OF assms(3,5,4)] assms(6) by simp
  from log_entries_bytes [OF this, of es] assms(7) obtain a' where a': "pm_aof m2 = Some (Some a')"
      "disk a' @ buf a' = log_all es" by auto
  then have f2: "f2 AOF_name = Some (log_all es)"
    using Manager_Stop_log [OF assms(8)] by simp
  have ok: "list_all entry_ok es" using assms(2) by (auto simp: list_all_iff replayable_entry_def)
  have "load_loop envs 0 (log_all es) 0 (NewCache cfg) = Ret (replay_all envs 0 es 0 (NewCache cfg))"
    using load_loop_prefix [OF ok prefix_order.refl, of envs 0 0 "NewCache cfg"] by auto
  also have "replay_all envs 0 es 0 (NewCache cfg) = (int (length es), h_cache h)"
    using replay_all_run [OF assms(1,2), of 0] by (simp add: NewHandler_def)
  finally have "Load envs (Some (log_all es)) (NewCache cfg) = Ret (True, h_cache h)"
    by (simp add: Load_def)
  then have "loadData w' f2 (NewManager pcfg) (NewCache cfg) = Ret (h_cache h)"
    using assms(3,9) f2 by (simp add: loadData_def NewManager_def AOF_Load_def Let_def)
  from Manager_Start_returns [OF Manager_Start_log(1) [OF assms(3,5,4)] this f2] show ?thesis by blast
qed


definition witness_world :: load_world where
  "witness_world = \<lparr>lw_envs = \<lambda>_. witness_env, lw_rdb = witness_load, lw_json = witness_load,
     lw_unmarshal = \<lambda>_. None, lw_opens = True\<rparr>"

definition witness_entries :: "entry list" where
  "witness_entries = [(''RPUSH'', [''l'', ''a'']), (''SADD'', [''s'', ''m''])]"

lemma restart_restores_witness:
  "\<exists>h f2 m3 f3. run_logged (\<lambda>_. witness_env) 0 witness_entries (NewHandler (NewCache witness_cfg) True) = Some h
     \<and> Manager_Start witness_world f2 (NewManager (Persistence DefaultConfig)) (NewCache witness_cfg)
       = Ret (m3, f3, h_cache h)"
proof -
  let ?p = "Persistence DefaultConfig"
  let ?f = "[AOF_name \<mapsto> []]"
  have upper: "ToUpper (uni_upper witness_env) ''RPUSH'' = ''RPUSH''" "ToUpper (uni_upper witness_env) ''SADD'' = ''SADD''"
    by (simp_all add: ToUpper_def is_ascii_def upper_char_def)
  obtain h where h: "run_logged (\<lambda>_. witness_env) 0 witness_entries (NewHandler (NewCache witness_cfg) True) = Some h"
    by (simp add: witness_entries_def GetHandler_def commands_def total_def NewHandler_def h_RPush_def h_SAdd_def
        go_log_def case_prod_unfold Let_def)
  have ok: "list_all (replayable_entry (\<lambda>_. witness_env)) witness_entries"
    by (simp add: witness_entries_def replayable_entry_def replayable_def upper entry_ok_def MaxBulkStringSize_def)
  have aof: "AOF_Enabled (AOF ?p)" by (simp add: DefaultConfig_def)
  have load: "Load (\<lambda>_. witness_env) (Some []) c = Ret (True, c)" for c
    by (simp add: Load_def load_loop.simps resp_Read.simps)
  obtain m f1 c1 where start: "Manager_Start witness_world ?f (NewManager ?p) (NewCache witness_cfg) = Ret (m, f1, c1)"
      and m: "pm_aof m = Some (Some \<lparr>disk = [], buf = []\<rparr>)"
    using aof load by (simp add: Manager_Start_def loadData_def NewManager_def AOF_Load_def AOF_Start_def witness_world_def Let_def
          DefaultConfig_log)
  obtain a where a: "log_entries witness_entries m = Ret (m\<lparr>pm_aof := Some (Some a)\<rparr>)"
    using log_entries_bytes [OF m, of witness_entries] by auto
  obtain m2 f2 where stop: "Manager_Stop (m\<lparr>pm_aof := Some (Some a)\<rparr>) f1 = Ret (m2, f2)"
    using started_stops [OF start, of "m\<lparr>pm_aof := Some (Some a)\<rparr>" a f1] by auto
  have "\<exists>m3 f3. Manager_Start witness_world f2 (NewManager ?p) (NewCache witness_cfg) = Ret (m3, f3, h_cache h)"
    by (rule restart_restores [OF h ok aof start _ _ a stop]) (simp_all add: witness_world_def)
  with h show ?thesis by blast
qed

text \<open>Without a log a save of a well-formed cache returns.\<close>

lemma Manager_Save_returns:
  assumes ok: "cache_ok (lru_bounded cap mem) c" and log: "pm_aof m = None"
  shows "\<exists>m1 f1. Manager_Save w c m f = Ret (m1, f1)"
proof -
  obtain bytes where b: "rdb_bytes (sw_rdb w) c = Ret bytes" using rdb_bytes_returns [OF ok] by blast
  obtain d where d: "collectData (sw_json w) (sw_unix w) c = Ret d" using collectData_eq [OF ok] by blast
  have json: "JSON_Save (sw_json w) (sw_unix w) (sw_marshal w) (sw_glob w) (sw_mtime w) jcfg c g \<noteq> Panic"
    for jcfg g
    by (simp add: JSON_Save_def d Let_def split: option.split)
  show ?thesis
    using json b log by (auto simp: Manager_Save_def RDB_Save_def Manager_flush_def split: outcome.split)
qed

text \<open>C6: A snapshot restores the strings: with the log off and RDB on, a \<open>Save\<close> of the manager (both
  snapshots, rotation included) of any cache that arose from a new one by Set, Get, Delete, TTL and
  clean-up passes leaves files from which the next start succeeds, and GET then gives the same
  result for every key at any later time.  The RDB file must not be among the files of the JSON
  snapshot, and keys, values and counts must fit the fields of the format.\<close>

theorem snapshot_restart:
  assumes "list_all op_ok ops" and "c = fold (cache_step lru_evictor) ops (NewCache cfg)"
    and "rdb_fits c" and "orders_ok (sw_rdb w) (lw_rdb w')" and "clocks_before (sw_rdb w) (lw_rdb w') t"
    and "\<not> AOF_Enabled (AOF pcfg)" and "RDB_Enabled (RDB pcfg)"
    and "RDB_Path (RDB pcfg) \<notin> json_files (sw_glob w) (JSON pcfg)"
    and "Manager_Start w0 f0 (NewManager pcfg) c0 = Ret (m, f, c1)" and "Manager_Save w c m f = Ret (m1, f1)"
  shows "\<exists>m2 f2 c2. Manager_Start w' f1 (NewManager pcfg) (NewCache cfg) = Ret (m2, f2, c2)
    \<and> (\<forall>k. fst (Cache_Get lru_evictor t k c2) = fst (Cache_Get lru_evictor t k c))"
proof -
  let ?rdb = "RDB pcfg"
  obtain bytes c2 where b: "rdb_bytes (sw_rdb w) c = Ret bytes" "rdb_parse (lw_rdb w') bytes (NewCache cfg) = Ret (None, c2)"
      and same: "\<forall>k. fst (Cache_Get lru_evictor t k c2) = fst (Cache_Get lru_evictor t k c)"
    using rdb_roundtrip [OF assms(1-5)] by blast
  have m: "pm_config m = pcfg" "pm_rdb m \<noteq> None"
    using assms(6,7,9) by (auto simp: Manager_Start_def NewManager_def start_savers_def Let_def
        split: outcome.splits if_splits)
  have "fs_run (RDB_Save_ops ?rdb [bytes]) f (RDB_Path ?rdb) = Some bytes"
    by (simp add: RDB_Save_ops_def write_and_rename_all)
  then have "f1 (RDB_Path ?rdb) = Some bytes"
    using assms(10) [unfolded Manager_Save_def RDB_Save_def m(1)] m(2) b(1)
    by (auto dest!: JSON_Save_frame [OF _ assms(8)] split: outcome.splits if_splits)
  then have "loadData w' f1 (NewManager pcfg) (NewCache cfg) = Ret c2"
    using assms(6,7) b(2) by (simp add: loadData_def NewManager_def RDB_Load_def Let_def)
  then have "\<exists>m2. Manager_Start w' f1 (NewManager pcfg) (NewCache cfg) = Ret (m2, f1, c2)"
    using assms(6) by (simp add: Manager_Start_def NewManager_def Let_def)
  with same show ?thesis by blast
qed

subsection \<open>Which source is read\<close>

lemma loadData_log:
  "AOF_Enabled (AOF pcfg) \<Longrightarrow> f AOF_name = Some bs \<Longrightarrow>
     loadData w f (NewManager pcfg) c =
       (case Load (lw_envs w) (Some bs) c of Panic \<Rightarrow> Panic | Ret (_, c') \<Rightarrow> Ret c')"
  by (simp add: loadData_def NewManager_def AOF_Load_def Load_def split: outcome.split)

lemma Load_empty: "Load envs (Some []) c = Ret (True, c)"
  by (simp add: Load_def load_loop.simps resp_Read.simps)

text \<open>C33: Turning the log on loses the snapshots: a first start without a log file may load a
  snapshot, but it creates an empty log file, and after a stop the next start reads only that
  file and keeps the (empty) cache it was given, whatever snapshot files exist and whatever the
  first run had loaded.\<close>

theorem enabling_log_loses_snapshot:
  assumes "AOF_Enabled (AOF pcfg)" and "f AOF_name = None" and "lw_opens w"
    and "Manager_Start w f (NewManager pcfg) c = Ret (m, f1, c1)" and "Manager_Stop m f1 = Ret (m2, f2)"
  shows "\<exists>m'. Manager_Start w' f2 (NewManager pcfg) c0 = Ret (m', f2, c0)"
proof -
  have "pm_aof m = Some (Some \<lparr>disk = [], buf = []\<rparr>)"
    using Manager_Start_log(2) [OF assms(1,3,4)] assms(2) by simp
  from Manager_Stop_log [OF assms(5) this] have f2: "f2 AOF_name = Some []" by simp
  have "loadData w' f2 (NewManager pcfg) c0 = Ret c0"
    by (simp add: loadData_log [where f = f2 and bs = "[]", OF assms(1) f2] Load_empty)
  from Manager_Start_returns [OF Manager_Start_log(1) [OF assms(1,3,4)] this f2] show ?thesis by blast
qed

definition witness_run :: "lru cache" where
  "witness_run = fold (cache_step lru_evictor) [OSet 1 ''a'' ''x'' 0] (NewCache witness_cfg)"

lemma enabling_log_loses_snapshot_witness:
  "\<exists>bytes m f1 c1 m2 f2 m'. rdb_bytes witness_save witness_run = Ret bytes
     \<and> Manager_Start witness_world [''pendem.rdb'' \<mapsto> bytes] (NewManager (Persistence DefaultConfig))
         (NewCache witness_cfg) = Ret (m, f1, c1)
     \<and> fst (Cache_Get lru_evictor 9 ''a'' c1) = Some ''x''
     \<and> Manager_Stop m f1 = Ret (m2, f2)
     \<and> Manager_Start witness_world f2 (NewManager (Persistence DefaultConfig)) (NewCache witness_cfg)
         = Ret (m', f2, NewCache witness_cfg)"
proof -
  let ?p = "Persistence DefaultConfig"
  have aof: "AOF_Enabled (AOF ?p)" "RDB_Enabled (RDB ?p)" "RDB_Path (RDB ?p) = ''pendem.rdb''"
    by (simp_all add: DefaultConfig_def)
  have "case rdb_bytes witness_save witness_run of Panic \<Rightarrow> False
      | Ret bytes \<Rightarrow> (case rdb_parse witness_load bytes (NewCache witness_cfg) of
            Ret (None, c1) \<Rightarrow> fst (Cache_Get lru_evictor 9 ''a'' c1) = Some ''x'' | _ \<Rightarrow> False)"
    by code_simp
  then obtain bytes c1 where b: "rdb_bytes witness_save witness_run = Ret bytes"
      and c1: "rdb_parse witness_load bytes (NewCache witness_cfg) = Ret (None, c1)"
      "fst (Cache_Get lru_evictor 9 ''a'' c1) = Some ''x''"
    by (auto split: outcome.splits option.splits prod.splits)
  let ?f = "[''pendem.rdb'' \<mapsto> bytes]"
  have none: "?f AOF_name = None" by (simp add: AOF_name_def)
  obtain m f1 where start: "Manager_Start witness_world ?f (NewManager ?p) (NewCache witness_cfg) = Ret (m, f1, c1)"
      and m: "pm_aof m = Some (Some \<lparr>disk = [], buf = []\<rparr>)"
    using aof none c1(1)
    by (simp add: Manager_Start_def loadData_def NewManager_def AOF_Load_def Load_def AOF_Start_def
        witness_world_def RDB_Load_def Let_def DefaultConfig_log)
  obtain m2 f2 where stop: "Manager_Stop m f1 = Ret (m2, f2)"
    using started_stops [OF start m, of f1] by auto
  have "lw_opens witness_world" by (simp add: witness_world_def)
  from enabling_log_loses_snapshot [OF aof(1) none this start stop, of witness_world "NewCache witness_cfg"]
    b start c1(2) stop show ?thesis by blast
qed

text \<open>A snapshot format without a file hides the next one: when the log is off and RDB is enabled
  but has no file yet, the start reports success and keeps the cache as it is, even though a JSON
  snapshot exists.\<close>

theorem missing_rdb_hides_json:
  assumes "\<not> AOF_Enabled (AOF pcfg)" and "RDB_Enabled (RDB pcfg)" and "f (RDB_Path (RDB pcfg)) = None"
  shows "\<exists>m. Manager_Start w f (NewManager pcfg) c = Ret (m, f, c)"
  using assms by (simp add: Manager_Start_def loadData_def NewManager_def RDB_Load_def Let_def)

definition no_log :: PersistenceConfig where
  "no_log = Persistence DefaultConfig\<lparr>AOF := AOF (Persistence DefaultConfig)\<lparr>AOF_Enabled := False\<rparr>\<rparr>"

definition witness_saving :: save_world where
  "witness_saving = \<lparr>sw_rdb = witness_save, sw_json = witness_save, sw_unix = 7, sw_marshal = \<lambda>_. Some ''{}'',
     sw_glob = \<lambda>_. Some [], sw_mtime = \<lambda>_. Some 0\<rparr>"

lemma snapshot_restart_witness:
  "\<exists>m f c1 m1 f1 m2 f2 c2.
     Manager_Start witness_world (\<lambda>_. None) (NewManager no_log) (NewCache witness_cfg) = Ret (m, f, c1)
     \<and> Manager_Save witness_saving witness_run m f = Ret (m1, f1)
     \<and> Manager_Start witness_world f1 (NewManager no_log) (NewCache witness_cfg) = Ret (m2, f2, c2)
     \<and> fst (Cache_Get lru_evictor 9 ''a'' c2) = fst (Cache_Get lru_evictor 9 ''a'' witness_run)"
proof -
  let ?ops = "[OSet 1 ''a'' ''x'' 0]"
  have cfg: "\<not> AOF_Enabled (AOF no_log)" "RDB_Enabled (RDB no_log)"
      "RDB_Path (RDB no_log) \<notin> json_files (sw_glob witness_saving) (JSON no_log)"
    by (simp_all add: no_log_def DefaultConfig_def json_files_def witness_saving_def)
  have run: "witness_run = fold (cache_step lru_evictor) ?ops (NewCache witness_cfg)" by (simp add: witness_run_def)
  have fits: "rdb_fits witness_run" by code_simp
  have envs: "orders_ok (sw_rdb witness_saving) (lw_rdb witness_world)"
      "clocks_before (sw_rdb witness_saving) (lw_rdb witness_world) 9"
    using witness_envs by (simp_all add: witness_saving_def witness_world_def)
  have ok: "cache_ok (lru_bounded (EvictorCapacity witness_cfg) (MaxMemory witness_cfg)) witness_run"
    unfolding run by (rule run_bounded) simp
  obtain m where start: "Manager_Start witness_world (\<lambda>_. None) (NewManager no_log) (NewCache witness_cfg)
      = Ret (m, (\<lambda>_. None), NewCache witness_cfg)" and m: "m = start_savers (NewManager no_log)"
    using cfg(1,2) by (simp add: Manager_Start_def loadData_def NewManager_def RDB_Load_def Let_def)
  have "pm_aof m = None" using cfg(1) by (simp add: m NewManager_def)
  then obtain m1 f1 where sv: "Manager_Save witness_saving witness_run m (\<lambda>_. None) = Ret (m1, f1)"
    using Manager_Save_returns [OF ok] by blast
  from snapshot_restart [OF _ run fits envs cfg start sv] start sv show ?thesis by auto
qed

lemma missing_rdb_hides_json_witness:
  "\<exists>m. Manager_Start witness_world [''pendem.snapshot.json'' \<mapsto> ''{}''] (NewManager no_log) (NewCache witness_cfg)
     = Ret (m, [''pendem.snapshot.json'' \<mapsto> ''{}''], NewCache witness_cfg)"
  by (rule missing_rdb_hides_json) (simp_all add: no_log_def DefaultConfig_def)

text \<open>A log file that cannot be opened is only a warning at the start, but the writer stays nil:
  the first command that is logged panics, and so does the stop.\<close>

theorem unopened_log_panics:
  assumes "AOF_Enabled (AOF pcfg)" and "\<not> lw_opens w"
    and "Manager_Start w f (NewManager pcfg) c = Ret (m, f1, c1)"
  shows "Manager_LogCommand cmd args m = Panic \<and> Manager_Stop m f1 = Panic \<and> f1 = f"
  using assms
  by (auto simp: Manager_Start_def AOF_Start_def NewManager_def Manager_LogCommand_def Manager_Stop_def
      AOF_Stop_def Manager_flush_def Let_def split: outcome.splits)

lemma unopened_log_panics_witness:
  "\<exists>m f1 c1. Manager_Start (witness_world\<lparr>lw_opens := False\<rparr>) [AOF_name \<mapsto> []] (NewManager (Persistence DefaultConfig))
       (NewCache witness_cfg) = Ret (m, f1, c1) \<and> Manager_LogCommand ''SET'' [''k'', ''v''] m = Panic"
proof -
  let ?w = "witness_world\<lparr>lw_opens := False\<rparr>" and ?p = "Persistence DefaultConfig"
  have aof: "AOF_Enabled (AOF ?p)" by (simp add: DefaultConfig_def)
  have "loadData ?w [AOF_name \<mapsto> []] (NewManager ?p) (NewCache witness_cfg) = Ret (NewCache witness_cfg)"
    using loadData_log [OF aof, of "[AOF_name \<mapsto> []]" "[]"] by (simp add: Load_empty)
  then have "Manager_Start ?w [AOF_name \<mapsto> []] (NewManager ?p) (NewCache witness_cfg)
      = Ret (start_savers (NewManager ?p), [AOF_name \<mapsto> []], NewCache witness_cfg)"
    by (simp add: Manager_Start_def AOF_Start_def Let_def)
  with unopened_log_panics [OF aof _ this] show ?thesis by auto
qed

end
