(* ===== verification/ConfigParser.thy ===== *)
theory ConfigParser
  imports Config GoStrings
begin

section \<open>Reading the configuration\<close>

text \<open>
  Models \<^verbatim>\<open>internal/config/parser.go\<close>, \<open>LoadConfig\<close> of \<^verbatim>\<open>config.go\<close>,
  \<^verbatim>\<open>loader.go\<close> and the choice of the file in \<^verbatim>\<open>cmd/main.go\<close>, with what they use of
  \<open>bufio.Scanner\<close>, \<open>strings\<close>, \<open>fmt.Sscanf\<close> and \<open>time.ParseDuration\<close>.  A file is its bytes;
  \<open>None\<close> is a file that cannot be opened.  Two parameters: \<open>uni\<close>, \<open>strings.ToUpper\<close> outside
  ASCII, and \<open>frac\<close>, the nanoseconds that \<open>ParseDuration\<close> computes in floating point for the
  digits after a decimal point.
\<close>

subsection \<open>Lines\<close>

datatype parse_error = OpenError | TooLong

definition MaxScanTokenSize :: nat where
  "MaxScanTokenSize = 64 * 1024"

definition dropCR :: "string \<Rightarrow> string" where
  "dropCR s = (if s \<noteq> [] \<and> last s = CHR 0x0D then butlast s else s)"

text \<open>The tokens of a \<open>bufio.Scanner\<close> that splits lines, and its \<open>Err\<close>: a line that does not
  fit the buffer ends the scan.\<close>

function scan_lines :: "string \<Rightarrow> string list \<times> parse_error option" where
  "scan_lines s =
     (if s = [] then ([], None)
      else let line = takeWhile (\<lambda>c. c \<noteq> CHR 0x0A) s; rest = dropWhile (\<lambda>c. c \<noteq> CHR 0x0A) s in
        if length line \<ge> MaxScanTokenSize then ([], Some TooLong)
        else case scan_lines (tl rest) of (ls, e) \<Rightarrow> (dropCR line # ls, e))"
  by pat_completeness auto
termination
proof (relation "measure length")
  fix s :: string
  assume "s \<noteq> []"
  then have "length (tl (dropWhile (\<lambda>c. c \<noteq> CHR 0x0A) s)) < length s"
    using length_dropWhile_le [of "\<lambda>c. c \<noteq> CHR 0x0A" s] by (cases s) (auto simp: less_Suc_eq_le)
  then show "\<And>x xa. x = takeWhile (\<lambda>c. c \<noteq> CHR 0x0A) s \<Longrightarrow> xa = dropWhile (\<lambda>c. c \<noteq> CHR 0x0A) s \<Longrightarrow>
      \<not> MaxScanTokenSize \<le> length x \<Longrightarrow> (tl xa, s) \<in> measure length" by simp
qed simp

declare scan_lines.simps [simp del]

subsection \<open>White space\<close>

text \<open>The runes of \<open>unicode.IsSpace\<close>, in UTF-8.\<close>

definition space_codes :: "string list" where
  "space_codes =
     [[CHR 0x09], [CHR 0x0A], [CHR 0x0B], [CHR 0x0C], [CHR 0x0D], [CHR 0x20],
      [CHR 0xC2, CHR 0x85], [CHR 0xC2, CHR 0xA0], [CHR 0xE1, CHR 0x9A, CHR 0x80]]
     @ map (\<lambda>b. [CHR 0xE2, CHR 0x80, b])
         [CHR 0x80, CHR 0x81, CHR 0x82, CHR 0x83, CHR 0x84, CHR 0x85, CHR 0x86, CHR 0x87, CHR 0x88,
          CHR 0x89, CHR 0x8A, CHR 0xA8, CHR 0xA9, CHR 0xAF]
     @ [[CHR 0xE2, CHR 0x81, CHR 0x9F], [CHR 0xE3, CHR 0x80, CHR 0x80]]"

lemma space_codes_nonempty: "w \<in> set space_codes \<Longrightarrow> 0 < length w"
  by (auto simp: space_codes_def)

function trim_left :: "string \<Rightarrow> string" where
  "trim_left s =
     (case find (HasPrefix s) space_codes of None \<Rightarrow> s | Some w \<Rightarrow> trim_left (drop (length w) s))"
  by pat_completeness auto
termination
  by (relation "measure length")
    (auto simp: find_Some_iff HasPrefix_def intro!: diff_less
       dest!: space_codes_nonempty [OF nth_mem] intro: less_le_trans)

function trim_right :: "string \<Rightarrow> string" where
  "trim_right s =
     (case find (HasSuffix s) space_codes of None \<Rightarrow> s | Some w \<Rightarrow> trim_right (take (length s - length w) s))"
  by pat_completeness auto
termination
  by (relation "measure length")
    (auto simp: find_Some_iff HasSuffix_def intro!: diff_less
       dest!: space_codes_nonempty [OF nth_mem] intro: less_le_trans)

declare trim_left.simps [simp del] trim_right.simps [simp del]

definition TrimSpace :: "string \<Rightarrow> string" where
  "TrimSpace s = trim_right (trim_left s)"

subsection \<open>Parse\<close>

type_synonym config_data = "string gomap gomap"

definition NewConfigParser :: config_data where
  "NewConfigParser = []"

definition Trim_brackets :: "string \<Rightarrow> string" where
  "Trim_brackets s =
     (let out = (\<lambda>c. c \<in> {CHR ''['', CHR '']''}) in rev (dropWhile out (rev (dropWhile out s))))"

definition section_of :: "config_data \<Rightarrow> string \<Rightarrow> string gomap" where
  "section_of d sec = (case map_of d sec of None \<Rightarrow> [] | Some m \<Rightarrow> m)"

definition parse_line :: "string \<Rightarrow> string \<times> config_data \<Rightarrow> string \<times> config_data" where
  "parse_line text st =
     (case st of (currentSection, d) \<Rightarrow>
        let line = TrimSpace text in
        if line = [] \<or> HasPrefix line ''#'' then (currentSection, d)
        else if HasPrefix line ''['' \<and> HasSuffix line '']''
          then (let sec = Trim_brackets line in
            (sec, if map_has d sec then d else map_put sec [] d))
        else if currentSection \<noteq> [] \<and> CHR ''='' \<in> set line
          then (let key = TrimSpace (takeWhile (\<lambda>c. c \<noteq> CHR ''='') line);
                    val = TrimSpace (tl (dropWhile (\<lambda>c. c \<noteq> CHR ''='') line))
            in (currentSection, map_put currentSection (map_put key val (section_of d currentSection)) d))
        else (currentSection, d))"

definition Parse :: "string option \<Rightarrow> config_data \<Rightarrow> parse_error option \<times> config_data" where
  "Parse file d =
     (case file of
        None \<Rightarrow> (Some OpenError, d)
      | Some bs \<Rightarrow> (case scan_lines bs of (ls, e) \<Rightarrow> (e, snd (fold parse_line ls ([], d)))))"

subsection \<open>Typed access\<close>

definition GetString :: "config_data \<Rightarrow> string \<Rightarrow> string \<Rightarrow> string option" where
  "GetString d sec key = (case map_of d sec of None \<Rightarrow> None | Some m \<Rightarrow> map_of m key)"

text \<open>\<open>fmt.Sscanf(val, "%d", &result)\<close> on a value without leading space: a sign, digits, and the
  rest ignored; on any error the result stays zero.\<close>

definition Sscanf_d :: "string \<Rightarrow> int" where
  "Sscanf_d s =
     (let sgn = (if s \<noteq> [] \<and> hd s \<in> {CHR ''+'', CHR ''-''} then [hd s] else []);
          ds = takeWhile is_digit (drop (length sgn) s)
      in if ds = [] then 0 else case ParseInt (sgn @ ds) of None \<Rightarrow> 0 | Some i \<Rightarrow> i)"

definition GetInt :: "config_data \<Rightarrow> string \<Rightarrow> string \<Rightarrow> int option" where
  "GetInt d sec key = (case GetString d sec key of None \<Rightarrow> None | Some v \<Rightarrow> Some (Sscanf_d v))"

definition GetBool :: "config_data \<Rightarrow> string \<Rightarrow> string \<Rightarrow> bool option" where
  "GetBool d sec key =
     (case GetString d sec key of None \<Rightarrow> None | Some v \<Rightarrow> Some (v = ''true'' \<or> v = ''yes'' \<or> v = ''1''))"

definition TrimSuffix :: "string \<Rightarrow> string \<Rightarrow> string" where
  "TrimSuffix s p = (if HasSuffix s p then take (length s - length p) s else s)"

definition GetBytes :: "(string \<Rightarrow> string) \<Rightarrow> config_data \<Rightarrow> string \<Rightarrow> string \<Rightarrow> int option" where
  "GetBytes uni d sec key =
     (case GetString d sec key of
        None \<Rightarrow> None
      | Some v0 \<Rightarrow>
          let v = ToUpper uni v0;
              (multiplier, v1) =
                (if HasSuffix v ''GB'' then (1024 * 1024 * 1024, TrimSuffix v ''GB'')
                 else if HasSuffix v ''MB'' then (1024 * 1024, TrimSuffix v ''MB'')
                 else if HasSuffix v ''KB'' then (1024, TrimSuffix v ''KB'')
                 else (1, v))
          in Some (wrap64 (Sscanf_d (TrimSpace v1) * multiplier)))"

subsection \<open>Durations\<close>

definition unit_of :: "string \<Rightarrow> int option" where
  "unit_of u = map_of
     [(''ns'', 1), (''us'', 1000), ([CHR 0xC2, CHR 0xB5, CHR ''s''], 1000),
      ([CHR 0xCE, CHR 0xBC, CHR ''s''], 1000), (''ms'', 1000000), (''s'', second), (''m'', minute),
      (''h'', hour)] u"

text \<open>\<open>leadingInt\<close> of the \<open>time\<close> package: \<open>None\<close> is an overflow.\<close>

fun leadingInt :: "int \<Rightarrow> string \<Rightarrow> int option" where
  "leadingInt x [] = Some x"
| "leadingInt x (c # s) =
     (if x > 2 ^ 63 div 10 then None
      else let x' = x * 10 + int (digit_val c) in if x' > 2 ^ 63 then None else leadingInt x' s)"

definition num_or_dot :: "char \<Rightarrow> bool" where
  "num_or_dot c \<longleftrightarrow> c = CHR ''.'' \<or> is_digit c"

lemma drop_while_less: "takeWhile p s \<noteq> [] \<Longrightarrow> length (dropWhile p s) < length s"
  by (cases s) (auto simp: less_Suc_eq_le length_dropWhile_le split: if_splits)

function duration_loop :: "(string \<Rightarrow> int \<Rightarrow> int) \<Rightarrow> int \<Rightarrow> string \<Rightarrow> int option" where
  "duration_loop frac d s =
     (if s = [] then Some d
      else if \<not> num_or_dot (hd s) then None
      else
        let whole = takeWhile is_digit s; s1 = dropWhile is_digit s;
            dot = (s1 \<noteq> [] \<and> hd s1 = CHR ''.'');
            s2 = (if dot then tl s1 else s1);
            fdigits = (if dot then takeWhile is_digit s2 else []);
            s3 = (if dot then dropWhile is_digit s2 else s2);
            u = takeWhile (Not \<circ> num_or_dot) s3; s4 = dropWhile (Not \<circ> num_or_dot) s3
        in case leadingInt 0 whole of
             None \<Rightarrow> None
           | Some v \<Rightarrow>
               if whole = [] \<and> fdigits = [] then None
               else if u = [] then None
               else case unit_of u of
                 None \<Rightarrow> None
               | Some unit \<Rightarrow>
                   if v > 2 ^ 63 div unit then None
                   else let v1 = v * unit + (if fdigits = [] then 0 else frac fdigits unit) in
                     if v1 > 2 ^ 63 then None
                     else let d1 = (d + v1) mod 2 ^ 64 in
                       if d1 > 2 ^ 63 then None else duration_loop frac d1 s4)"
  by pat_completeness auto
termination
proof (relation "measure (\<lambda>(frac, d, s). length s)", goal_cases)
  case (2 frac d s whole s1 dot s2 fdigits s3 u s4)
  have "length s4 < length s3" unfolding 2(10) by (rule drop_while_less) (metis 2(9,13))
  also have "length s3 \<le> length s2" unfolding 2(8) by (simp add: length_dropWhile_le)
  also have "length s2 \<le> length s1" unfolding 2(6) by simp
  also have "length s1 \<le> length s" unfolding 2(4) by (rule length_dropWhile_le)
  finally show ?case by simp
qed simp

declare duration_loop.simps [simp del]

definition ParseDuration :: "(string \<Rightarrow> int \<Rightarrow> int) \<Rightarrow> string \<Rightarrow> int option" where
  "ParseDuration frac s0 =
     (let neg = (s0 \<noteq> [] \<and> hd s0 = CHR ''-'');
          s = (if s0 \<noteq> [] \<and> hd s0 \<in> {CHR ''-'', CHR ''+''} then tl s0 else s0)
      in if s = ''0'' then Some 0
         else if s = [] then None
         else case duration_loop frac 0 s of
           None \<Rightarrow> None
         | Some d \<Rightarrow> if neg then Some (wrap64 (- d)) else if d > 2 ^ 63 - 1 then None else Some d)"

definition GetDuration :: "(string \<Rightarrow> int \<Rightarrow> int) \<Rightarrow> config_data \<Rightarrow> string \<Rightarrow> string \<Rightarrow> int option" where
  "GetDuration frac d sec key =
     (case GetString d sec key of None \<Rightarrow> None | Some v \<Rightarrow> ParseDuration frac v)"

subsection \<open>LoadConfig\<close>

text \<open>\<open>if v, ok := get; ok { cfg.field = v }\<close>\<close>

definition set_field :: "'a option \<Rightarrow> ('a \<Rightarrow> 'c \<Rightarrow> 'c) \<Rightarrow> 'c \<Rightarrow> 'c" where
  "set_field v f c = (case v of None \<Rightarrow> c | Some x \<Rightarrow> f x c)"

definition load_server :: "(string \<Rightarrow> int \<Rightarrow> int) \<Rightarrow> config_data \<Rightarrow> ServerConfig \<Rightarrow> ServerConfig" where
  "load_server frac d c =
     (let c1 = set_field (GetString d ''server'' ''port'') (\<lambda>v. Port_update (\<lambda>_. v)) c;
          c2 = set_field (GetInt d ''server'' ''max_connections'') (\<lambda>v. MaxConnections_update (\<lambda>_. v)) c1;
          c3 = set_field (GetDuration frac d ''server'' ''read_timeout'') (\<lambda>v. ReadTimeout_update (\<lambda>_. v)) c2;
          c4 = set_field (GetDuration frac d ''server'' ''write_timeout'') (\<lambda>v. WriteTimeout_update (\<lambda>_. v)) c3;
          c5 = set_field (GetDuration frac d ''server'' ''idle_timeout'') (\<lambda>v. IdleTimeout_update (\<lambda>_. v)) c4
      in set_field (GetString d ''server'' ''requirepass'') (\<lambda>v. RequirePass_update (\<lambda>_. v)) c5)"

definition load_engine :: "(string \<Rightarrow> string) \<Rightarrow> (string \<Rightarrow> int \<Rightarrow> int) \<Rightarrow> config_data \<Rightarrow> EngineConfig \<Rightarrow> EngineConfig" where
  "load_engine uni frac d c =
     (let c1 = set_field (GetBytes uni d ''engine'' ''max_memory'') (\<lambda>v. MaxMemory_update (\<lambda>_. v)) c;
          c2 = set_field (GetString d ''engine'' ''eviction_policy'') (\<lambda>v. EvictionPolicy_update (\<lambda>_. v)) c1;
          c3 = set_field (GetInt d ''engine'' ''evictor_capacity'') (\<lambda>v. EvictorCapacity_update (\<lambda>_. v)) c2;
          c4 = set_field (GetInt d ''engine'' ''shard_count'') (\<lambda>v. ShardCount_update (\<lambda>_. v)) c3
      in set_field (GetDuration frac d ''engine'' ''default_ttl'') (\<lambda>v. DefaultTTL_update (\<lambda>_. v)) c4)"

definition load_rdb :: "(string \<Rightarrow> int \<Rightarrow> int) \<Rightarrow> config_data \<Rightarrow> RDBConfig \<Rightarrow> RDBConfig" where
  "load_rdb frac d c =
     (let c1 = set_field (GetBool d ''persistence.rdb'' ''enabled'') (\<lambda>v. RDB_Enabled_update (\<lambda>_. v)) c;
          c2 = set_field (GetString d ''persistence.rdb'' ''path'') (\<lambda>v. RDB_Path_update (\<lambda>_. v)) c1
      in set_field (GetDuration frac d ''persistence.rdb'' ''interval'') (\<lambda>v. RDB_Interval_update (\<lambda>_. v)) c2)"

definition load_aof :: "(string \<Rightarrow> int \<Rightarrow> int) \<Rightarrow> config_data \<Rightarrow> AOFConfig \<Rightarrow> AOFConfig" where
  "load_aof frac d c =
     (let c1 = set_field (GetBool d ''persistence.aof'' ''enabled'') (\<lambda>v. AOF_Enabled_update (\<lambda>_. v)) c;
          c2 = set_field (GetString d ''persistence.aof'' ''path'') (\<lambda>v. FilePath_update (\<lambda>_. v)) c1;
          c3 = set_field (GetDuration frac d ''persistence.aof'' ''flush_interval'') (\<lambda>v. FlushInterval_update (\<lambda>_. v)) c2
      in set_field (GetBool d ''persistence.aof'' ''sync_on_write'') (\<lambda>v. SyncOnWrite_update (\<lambda>_. v)) c3)"

definition load_json :: "(string \<Rightarrow> int \<Rightarrow> int) \<Rightarrow> config_data \<Rightarrow> JSONConfig \<Rightarrow> JSONConfig" where
  "load_json frac d c =
     (let c1 = set_field (GetBool d ''persistence.json'' ''enabled'') (\<lambda>v. JSON_Enabled_update (\<lambda>_. v)) c;
          c2 = set_field (GetString d ''persistence.json'' ''path'') (\<lambda>v. JSON_Path_update (\<lambda>_. v)) c1;
          c3 = set_field (GetDuration frac d ''persistence.json'' ''interval'') (\<lambda>v. JSON_Interval_update (\<lambda>_. v)) c2
      in set_field (GetInt d ''persistence.json'' ''max_snapshots'') (\<lambda>v. MaxSnapshots_update (\<lambda>_. v)) c3)"

definition LoadConfig :: "(string \<Rightarrow> string) \<Rightarrow> (string \<Rightarrow> int \<Rightarrow> int) \<Rightarrow> string option \<Rightarrow> Config \<times> parse_error option" where
  "LoadConfig uni frac file =
     (case Parse file NewConfigParser of
        (Some e, _) \<Rightarrow> (DefaultConfig, Some e)
      | (None, d) \<Rightarrow>
          (Persistence_update (RDB_update (load_rdb frac d) \<circ> AOF_update (load_aof frac d) \<circ> JSON_update (load_json frac d))
             (Engine_update (load_engine uni frac d)
               (Server_update (load_server frac d) DefaultConfig)), None))"

subsection \<open>Finding the file\<close>

record os_env =
  GOOS :: string
  HOME :: string
  ProgramData :: string
  APPDATA :: string
  PENDEM_CONFIG :: string

text \<open>\<open>join\<close> is \<open>filepath.Join\<close>; \<open>exists\<close> is a nil error of \<open>os.Stat\<close>.  An unset variable is
  the empty string.\<close>

definition DefaultConfigPaths :: "(string list \<Rightarrow> string) \<Rightarrow> os_env \<Rightarrow> string list" where
  "DefaultConfigPaths join os =
     [''pendem.conf'', ''config/pendem.conf'']
     @ (if HOME os \<noteq> [] then [join [HOME os, ''.pendem'', ''pendem.conf''],
          join [HOME os, ''.config'', ''pendem'', ''pendem.conf'']] else [])
     @ (if GOOS os = ''windows'' then
          (if ProgramData os \<noteq> [] then [join [ProgramData os, ''Pendem'', ''pendem.conf'']] else [])
          @ (if APPDATA os \<noteq> [] then [join [APPDATA os, ''Pendem'', ''pendem.conf'']] else [])
        else if GOOS os = ''darwin'' then
          [''/usr/local/etc/pendem/pendem.conf'', ''/etc/pendem/pendem.conf'']
        else [''/etc/pendem/pendem.conf'', ''/usr/local/etc/pendem/pendem.conf'', ''/opt/pendem/etc/pendem.conf''])"

definition FindConfigFile :: "(string list \<Rightarrow> string) \<Rightarrow> os_env \<Rightarrow> (string \<Rightarrow> bool) \<Rightarrow> string \<Rightarrow> string option" where
  "FindConfigFile join os exists path =
     (if path \<noteq> [] \<and> exists path then Some path
      else find exists (DefaultConfigPaths join os))"

text \<open>The first lines of \<open>main\<close>: the flag, then the environment, then the default places.\<close>

definition config_path :: "(string list \<Rightarrow> string) \<Rightarrow> os_env \<Rightarrow> (string \<Rightarrow> bool) \<Rightarrow> string \<Rightarrow> string" where
  "config_path join os exists configPath =
     (let found = (\<lambda>p path. case FindConfigFile join os exists p of None \<Rightarrow> path | Some f \<Rightarrow> f);
          path1 = (if configPath \<noteq> [] then found configPath [] else []);
          path2 = (if path1 = [] \<and> PENDEM_CONFIG os \<noteq> [] then found (PENDEM_CONFIG os) path1 else path1)
      in if path2 = [] then found [] path2 else path2)"

text \<open>The configuration the server runs with; what \<open>Validate\<close> says is only printed.\<close>

definition startup_config ::
    "(string \<Rightarrow> string) \<Rightarrow> (string \<Rightarrow> int \<Rightarrow> int) \<Rightarrow> (string list \<Rightarrow> string) \<Rightarrow> os_env \<Rightarrow> (string \<Rightarrow> bool)
       \<Rightarrow> (string \<Rightarrow> string option) \<Rightarrow> string \<Rightarrow> Config" where
  "startup_config uni frac join os exists files configPath =
     fst (LoadConfig uni frac (files (config_path join os exists configPath)))"

end
