(* ===== verification/ConfigProps.thy ===== *)
theory ConfigProps
  imports ConfigParser
begin

section \<open>What the configuration file says\<close>

text \<open>
  The parser against a printer: a file in the format of \<^verbatim>\<open>pendem.conf.example\<close> that sets every
  option is read back as the configuration it was printed from.  Then what the parser accepts
  silently, and which file is read.
\<close>

subsection \<open>White space\<close>

definition graphic :: "char \<Rightarrow> bool" where
  "graphic c \<longleftrightarrow> 33 \<le> (of_char c :: nat) \<and> (of_char c :: nat) < 127"

lemma space_codes_ends:
  assumes "w \<in> set space_codes"
  shows "w \<noteq> []" "\<not> graphic (hd w)" "\<not> graphic (last w)" "1 < length w \<Longrightarrow> \<not> is_ascii (hd w)"
proof -
  have "list_all (\<lambda>w. w \<noteq> [] \<and> \<not> graphic (hd w) \<and> \<not> graphic (last w) \<and> (1 < length w \<longrightarrow> \<not> is_ascii (hd w))) space_codes"
    by code_simp
  with assms show "w \<noteq> []" "\<not> graphic (hd w)" "\<not> graphic (last w)" "1 < length w \<Longrightarrow> \<not> is_ascii (hd w)"
    by (auto simp: list_all_iff)
qed

lemma trim_left_graphic: "graphic (hd s) \<Longrightarrow> trim_left s = s"
proof (subst trim_left.simps)
  assume "graphic (hd s)"
  then have "find (HasPrefix s) space_codes = None"
    using space_codes_ends(1,2) by (auto simp: find_None_iff HasPrefix_iff)
  then show "(case find (HasPrefix s) space_codes of None \<Rightarrow> s | Some w \<Rightarrow> trim_left (drop (length w) s)) = s" by simp
qed

lemma trim_right_none: "find (HasSuffix s) space_codes = None \<Longrightarrow> trim_right s = s"
  by (subst trim_right.simps) simp

lemma trim_right_graphic: "s \<noteq> [] \<Longrightarrow> graphic (last s) \<Longrightarrow> trim_right s = s"
  using space_codes_ends(1,3) by (intro trim_right_none) (auto simp: find_None_iff HasSuffix_iff)

lemma TrimSpace_graphic:
  "s = [] \<or> graphic (hd s) \<and> graphic (last s) \<Longrightarrow> TrimSpace s = s"
  by (cases "s = []") (auto simp: TrimSpace_def trim_left_graphic trim_right_graphic, code_simp)

text \<open>A string that starts and ends without white space, before and behind other text.\<close>

definition trimmed :: "string \<Rightarrow> bool" where
  "trimmed s \<longleftrightarrow> find (HasPrefix s) space_codes = None \<and> find (HasSuffix s) space_codes = None"

lemma TrimSpace_trimmed: "trimmed s \<Longrightarrow> TrimSpace s = s"
  by (simp add: TrimSpace_def trimmed_def trim_left.simps trim_right_none)

lemma trimmed_behind:
  assumes "trimmed v" and "v \<noteq> []" and "list_all is_ascii p"
  shows "trim_right (p @ v) = p @ v"
proof (rule trim_right_none)
  have "\<not> HasSuffix (p @ v) w" if w: "w \<in> set space_codes" for w
  proof
    assume "HasSuffix (p @ v) w"
    then obtain t where t: "p @ v = t @ w" by (auto simp: HasSuffix_iff)
    then consider us where "v = us @ w" | us where "us \<noteq> []" "p = t @ us" "w = us @ v"
      unfolding append_eq_append_conv2 by (metis append_Nil)
    then show False
    proof cases
      case 1
      then show False using assms(1) w by (auto simp: trimmed_def find_None_iff HasSuffix_iff)
    next
      case 2
      then have "1 < length w" using assms(2) by (cases us; cases v) auto
      with space_codes_ends(4) [OF w] have "\<not> is_ascii (hd us)" using 2 by simp
      then show False using 2 assms(3) by (cases us) auto
    qed
  qed
  then show "find (HasSuffix (p @ v)) space_codes = None" by (auto simp: find_None_iff)
qed

lemma trim_right_space: "trim_right (s @ '' '') = trim_right s"
proof -
  have sp: "list_all (\<lambda>w. last w = CHR '' '' \<longrightarrow> w = '' '') space_codes" "'' '' \<in> set space_codes" by code_simp+
  have "find (HasSuffix (s @ '' '')) space_codes \<noteq> None"
    using sp(2) by (auto simp: find_None_iff HasSuffix_iff)
  then obtain w where w: "find (HasSuffix (s @ '' '')) space_codes = Some w" by blast
  then have w': "w \<in> set space_codes" "HasSuffix (s @ '' '') w" by (auto simp: find_Some_iff)
  then have "last w = CHR '' ''" using space_codes_ends(1) [OF w'(1)] by (auto simp: HasSuffix_iff dest: arg_cong [of _ _ last])
  with sp w' have "w = '' ''" by (auto simp: list_all_iff)
  with w show ?thesis by (subst trim_right.simps) simp
qed

lemma trim_left_space: "trim_left (CHR '' '' # s) = trim_left s"
proof -
  have sp: "list_all (\<lambda>w. hd w = CHR '' '' \<longrightarrow> w = '' '') space_codes" "'' '' \<in> set space_codes" by code_simp+
  have "find (HasPrefix (CHR '' '' # s)) space_codes \<noteq> None"
    using sp(2) by (auto simp: find_None_iff HasPrefix_iff)
  then obtain w where w: "find (HasPrefix (CHR '' '' # s)) space_codes = Some w" by blast
  then have w': "w \<in> set space_codes" "HasPrefix (CHR '' '' # s) w" by (auto simp: find_Some_iff)
  then obtain r where "CHR '' '' # s = w @ r" by (auto simp: HasPrefix_iff)
  then have "hd w = CHR '' ''" using space_codes_ends(1) [OF w'(1)] by (metis hd_append2 list.sel(1))
  with sp w' have "w = '' ''" by (auto simp: list_all_iff)
  with w show ?thesis by (subst trim_left.simps) simp
qed

lemma TrimSpace_before: "s = [] \<or> trimmed s \<Longrightarrow> TrimSpace (CHR '' '' # s) = s"
  using TrimSpace_trimmed [of s] TrimSpace_graphic [of "[]"] by (auto simp: TrimSpace_def trim_left_space)

lemma TrimSpace_after: "graphic (hd s) \<Longrightarrow> s \<noteq> [] \<Longrightarrow> graphic (last s) \<Longrightarrow> TrimSpace (s @ '' '') = s"
  by (simp add: TrimSpace_def trim_left_graphic trim_right_space trim_right_graphic)

subsection \<open>Lines\<close>

definition newline :: string where "newline = [CHR 0x0A]"

definition line_ok :: "string \<Rightarrow> bool" where
  "line_ok s \<longleftrightarrow> CHR 0x0A \<notin> set s \<and> length s < MaxScanTokenSize \<and> (s = [] \<or> last s \<noteq> CHR 0x0D)"

lemma scan_lines_concat:
  "list_all line_ok ls \<Longrightarrow> scan_lines (concat (map (\<lambda>l. l @ newline) ls)) = (ls, None)"
proof (induction ls)
  case (Cons l ls)
  have tw: "takeWhile (\<lambda>c. c \<noteq> CHR 0x0A) (l @ CHR 0x0A # r) = l"
       "dropWhile (\<lambda>c. c \<noteq> CHR 0x0A) (l @ CHR 0x0A # r) = CHR 0x0A # r" for r
    using Cons.prems by (auto simp: line_ok_def takeWhile_append dropWhile_append)
  have "dropCR l = l" "\<not> MaxScanTokenSize \<le> length l" using Cons.prems by (auto simp: line_ok_def dropCR_def)
  then show ?case using Cons by (subst scan_lines.simps) (simp add: newline_def tw)
qed (simp add: scan_lines.simps)

type_synonym sections = "(string \<times> (string \<times> string) list) list"

definition pair_line :: "string \<times> string \<Rightarrow> string" where
  "pair_line p = fst p @ '' = '' @ snd p"

definition section_lines :: "string \<times> (string \<times> string) list \<Rightarrow> string list" where
  "section_lines s = (''['' @ fst s @ '']'') # map pair_line (snd s)"

definition print_ini :: "sections \<Rightarrow> string" where
  "print_ini ss = concat (map (\<lambda>l. l @ newline) (concat (map section_lines ss)))"

definition key_ok :: "string \<Rightarrow> bool" where
  "key_ok k \<longleftrightarrow> k \<noteq> [] \<and> length k < 1000 \<and> list_all (\<lambda>c. graphic c \<and> c \<notin> set ''[]=#'') k"

definition value_ok :: "string \<Rightarrow> bool" where
  "value_ok v \<longleftrightarrow> trimmed v \<and> CHR 0x0A \<notin> set v \<and> length v < 60000"

definition section_ok :: "string \<times> (string \<times> string) list \<Rightarrow> bool" where
  "section_ok s \<longleftrightarrow> key_ok (fst s) \<and> distinct (map fst (snd s))
     \<and> list_all (\<lambda>(k, v). key_ok k \<and> value_ok v) (snd s)"

lemma key_ok_graphic: "key_ok k \<Longrightarrow> graphic (hd k) \<and> graphic (last k) \<and> list_all is_ascii k"
proof -
  assume "key_ok k"
  then have "k \<noteq> []" "\<forall>c \<in> set k. graphic c" by (simp_all add: key_ok_def list_all_iff)
  moreover have "is_ascii c" if "graphic c" for c using that by (simp add: graphic_def is_ascii_def)
  ultimately show ?thesis by (simp add: list_all_iff)
qed

lemma parse_pair:
  assumes "key_ok k" and "value_ok v" and "sec \<noteq> []"
  shows "parse_line (pair_line (k, v)) (sec, d) = (sec, map_put sec (map_put k v (section_of d sec)) d)"
proof -
  note k = key_ok_graphic [OF assms(1)]
  have ne: "k \<noteq> []" using assms(1) by (simp add: key_ok_def)
  have sp: "\<not> graphic CHR '' ''" "graphic CHR ''=''" by code_simp+
  have line: "TrimSpace (pair_line (k, v)) = (if v = [] then k @ '' ='' else k @ '' = '' @ v)"
  proof (cases "v = []")
    case True
    have "trim_right (k @ '' = '') = trim_right (k @ '' ='')" using trim_right_space [of "k @ '' =''"] by simp
    also have "\<dots> = k @ '' =''" using sp by (intro trim_right_graphic) auto
    finally show ?thesis using True k ne by (simp add: TrimSpace_def pair_line_def trim_left_graphic)
  next
    case False
    have "trim_right ((k @ '' = '') @ v) = (k @ '' = '') @ v"
      using assms(2) k False by (intro trimmed_behind) (simp_all add: value_ok_def is_ascii_def)
    then show ?thesis using False k ne by (simp add: TrimSpace_def pair_line_def trim_left_graphic)
  qed
  have k': "CHR ''='' \<notin> set k" "hd k \<noteq> CHR ''#''" "hd k \<noteq> CHR ''[''"
    using assms(1) ne by (auto simp: key_ok_def list_all_iff)
  obtain r where r: "TrimSpace (pair_line (k, v)) = k @ '' '' @ CHR ''='' # r" "TrimSpace r = v"
  proof (cases "v = []")
    case True
    with that [of "[]"] line show thesis using TrimSpace_graphic [of "[]"] by simp
  next
    case False
    with that [of "CHR '' '' # v"] line show thesis
      using TrimSpace_before [of v] assms(2) by (simp add: value_ok_def)
  qed
  have "takeWhile (\<lambda>c. c \<noteq> CHR ''='') (k @ '' '' @ CHR ''='' # r) = k @ '' ''"
       "dropWhile (\<lambda>c. c \<noteq> CHR ''='') (k @ '' '' @ CHR ''='' # r) = CHR ''='' # r"
    using k'(1) by (simp_all add: takeWhile_append dropWhile_append)
  moreover have "\<not> HasPrefix (k @ '' '' @ CHR ''='' # r) ''#''" "\<not> HasPrefix (k @ '' '' @ CHR ''='' # r) ''[''"
    using k'(2,3) ne by (cases k; simp add: HasPrefix_def)+
  ultimately show ?thesis
    using r k ne assms(3) TrimSpace_after [of k] by (simp add: parse_line_def Let_def)
qed

lemma parse_section:
  assumes "key_ok sec"
  shows "parse_line (''['' @ sec @ '']'') (cur, d) = (sec, if map_has d sec then d else map_put sec [] d)"
proof -
  have g: "graphic CHR ''[''" "graphic CHR '']''" by code_simp+
  have line: "TrimSpace (''['' @ sec @ '']'') = ''['' @ sec @ '']''"
    using g by (intro TrimSpace_graphic) simp
  have ne: "sec \<noteq> []" "hd sec \<notin> {CHR ''['', CHR '']''}" "last sec \<notin> {CHR ''['', CHR '']''}"
    using assms by (auto simp: key_ok_def list_all_iff)
  then have "dropWhile (\<lambda>c. c \<in> {CHR ''['', CHR '']''}) (sec @ '']'') = sec @ '']''"
    "dropWhile (\<lambda>c. c \<in> {CHR ''['', CHR '']''}) (rev sec) = rev sec"
    by (simp_all add: dropWhile_eq_self_iff hd_rev)
  then have "Trim_brackets (''['' @ sec @ '']'') = sec" by (simp add: Trim_brackets_def Let_def)
  moreover have "HasPrefix (''['' @ sec @ '']'') ''[''" "HasSuffix (''['' @ sec @ '']'') '']''"
    "\<not> HasPrefix (''['' @ sec @ '']'') ''#''"
    by (auto simp: HasPrefix_iff HasSuffix_iff)
  ultimately show ?thesis unfolding parse_line_def by (simp only: line prod.case Let_def) simp
qed

subsection \<open>Whole files\<close>

lemma update_new: "k \<notin> fst ` set xs \<Longrightarrow> map_put k v xs = xs @ [(k, v)]"
  by (induction xs) auto

lemma update_last: "k \<notin> fst ` set xs \<Longrightarrow> map_put k v (xs @ [(k, w)]) = xs @ [(k, v)]"
  by (induction xs) auto

lemma map_of_last: "k \<notin> fst ` set xs \<Longrightarrow> map_of (xs @ [(k, v)]) k = Some v"
  by (induction xs) auto

lemma parse_pairs:
  assumes "sec \<noteq> []" and "sec \<notin> fst ` set ds"
  shows "list_all (\<lambda>(k, v). key_ok k \<and> value_ok v) kvs \<Longrightarrow> distinct (map fst (done @ kvs)) \<Longrightarrow>
    fold parse_line (map pair_line kvs) (sec, ds @ [(sec, done)]) = (sec, ds @ [(sec, done @ kvs)])"
proof (induction kvs arbitrary: "done")
  case (Cons p kvs)
  obtain k v where p: "p = (k, v)" by force
  have "section_of (ds @ [(sec, done)]) sec = done"
    using map_of_last [OF assms(2)] by (simp add: section_of_def)
  moreover have "map_put k v done = done @ [(k, v)]" using Cons.prems p by (intro update_new) auto
  ultimately have "parse_line (pair_line p) (sec, ds @ [(sec, done)]) = (sec, ds @ [(sec, done @ [p])])"
    using Cons.prems(1) parse_pair [of k v sec] assms by (simp add: p update_last)
  then show ?case using Cons.IH [of "done @ [p]"] Cons.prems by simp
qed simp

lemma parse_sections:
  "list_all section_ok ss \<Longrightarrow> distinct (map fst (ds @ ss)) \<Longrightarrow>
     snd (fold parse_line (concat (map section_lines ss)) (cur, ds)) = ds @ ss"
proof (induction ss arbitrary: cur ds)
  case (Cons s ss)
  obtain sec kvs where s: "s = (sec, kvs)" by force
  have new: "sec \<notin> fst ` set ds" and ok: "section_ok (sec, kvs)" using Cons.prems s by auto
  have ne: "sec \<noteq> []" using ok by (simp add: section_ok_def key_ok_def)
  have "\<not> map_has ds sec" using new by (simp add: map_has_iff)
  then have "parse_line (''['' @ sec @ '']'') (cur, ds) = (sec, ds @ [(sec, [])])"
    using parse_section [of sec cur ds] ok new by (simp add: section_ok_def update_new)
  moreover have "fold parse_line (map pair_line kvs) (sec, ds @ [(sec, [])]) = (sec, ds @ [(sec, kvs)])"
    using parse_pairs [OF ne new, of kvs "[]"] ok by (simp add: section_ok_def)
  ultimately have "fold parse_line (section_lines s) (cur, ds) = (sec, ds @ [s])"
    by (simp add: s section_lines_def)
  then show ?case using Cons.IH [of "ds @ [s]" sec] Cons.prems by simp
qed simp

lemma lines_ok: "section_ok s \<Longrightarrow> list_all line_ok (section_lines s)"
proof -
  assume ok: "section_ok s"
  have key: "CHR 0x0A \<notin> set k \<and> length k < 1000" if "key_ok k" for k
  proof -
    have "\<not> graphic CHR 0x0A" by code_simp
    with that show ?thesis by (auto simp: key_ok_def list_all_iff)
  qed
  have cr: "last v \<noteq> CHR 0x0D" if "value_ok v" "v \<noteq> []" for v
  proof
    assume "last v = CHR 0x0D"
    then have "HasSuffix v [CHR 0x0D]" using that(2) by (metis HasSuffix_iff append_butlast_last_id)
    moreover have "[CHR 0x0D] \<in> set space_codes" by code_simp
    ultimately show False using that(1) by (auto simp: value_ok_def trimmed_def find_None_iff)
  qed
  have "line_ok (pair_line p)" if "p \<in> set (snd s)" for p
    using that ok key [of "fst p"] cr [of "snd p"]
    by (auto simp: section_ok_def list_all_iff line_ok_def pair_line_def value_ok_def MaxScanTokenSize_def)
  moreover have "line_ok (''['' @ fst s @ '']'')"
    using ok key [of "fst s"] by (simp add: section_ok_def line_ok_def MaxScanTokenSize_def)
  ultimately show ?thesis by (simp add: section_lines_def list_all_iff)
qed

lemma Parse_print:
  assumes "list_all section_ok ss" and "distinct (map fst ss)"
  shows "Parse (Some (print_ini ss)) NewConfigParser = (None, ss)"
proof -
  have "list_all line_ok (concat (map section_lines ss))"
    using assms(1) lines_ok by (induction ss) auto
  then show ?thesis
    using parse_sections [of ss "[]" "[]"] assms
    by (simp add: Parse_def print_ini_def scan_lines_concat NewConfigParser_def)
qed

subsection \<open>Values\<close>

lemma digit_graphic: "is_digit c \<Longrightarrow> graphic c \<and> is_ascii c \<and> upper_char c = c \<and> c \<noteq> CHR ''B'' \<and> c \<noteq> CHR ''.'' \<and> num_or_dot c"
  by (auto simp: is_digit_def graphic_def is_ascii_def upper_char_def num_or_dot_def)

lemma minus_graphic: "graphic CHR ''-'' \<and> is_ascii CHR ''-'' \<and> upper_char CHR ''-'' = CHR ''-''"
  by code_simp

lemma Itoa_chars: "c \<in> set (Itoa i) \<Longrightarrow> graphic c \<and> is_ascii c \<and> upper_char c = c"
  using Itoa_no_newline digit_graphic minus_graphic by blast

lemma last_show_nat: "is_digit (last (show_nat n))"
  using show_nat_digits [of n] by (simp add: list_all_iff)

lemma Itoa_last: "Itoa i \<noteq> []" "is_digit (last (Itoa i))"
  using last_show_nat by (simp_all add: Itoa_def)

lemma trimmed_graphic: "s \<noteq> [] \<Longrightarrow> graphic (hd s) \<Longrightarrow> graphic (last s) \<Longrightarrow> trimmed s"
  using space_codes_ends by (auto simp: trimmed_def find_None_iff HasPrefix_iff HasSuffix_iff)

lemma trimmed_Nil [simp]: "trimmed []"
  by code_simp

lemma show_nat_length: "n < 10 ^ Suc k \<Longrightarrow> length (show_nat n) \<le> Suc k"
proof (induction k arbitrary: n)
  case 0
  then show ?case by (simp add: show_nat.simps [of n])
next
  case (Suc k)
  then have "length (show_nat (n div 10)) \<le> Suc k" by (intro Suc.IH) simp
  then show ?case by (simp add: show_nat.simps [of n])
qed

lemma Itoa_length:
  assumes "in_int64 i"
  shows "length (Itoa i) \<le> 20"
proof -
  have "nat (- i) < 10 ^ Suc 18" "nat i < 10 ^ Suc 18" using assms unfolding in_int64_def by simp_all arith+
  from this [THEN show_nat_length] show ?thesis by (simp add: Itoa_def)
qed

lemma Itoa_value: "in_int64 i \<Longrightarrow> value_ok (Itoa i)"
  using trimmed_graphic [OF Itoa_last(1)] Itoa_chars [of _ i] Itoa_last Itoa_length [of i] Itoa_no_newline [of "CHR 0x0A" i]
  by (auto simp: value_ok_def)

lemma takeWhile_show: "takeWhile is_digit (show_nat n) = show_nat n" "dropWhile is_digit (show_nat n) = []"
  using show_nat_digits [of n] by (simp_all add: list_all_iff)

lemma Sscanf_Itoa: "in_int64 i \<Longrightarrow> Sscanf_d (Itoa i) = i"
proof (cases "i < 0")
  case True
  assume "in_int64 i"
  with True ParseInt_Itoa [of i] show ?thesis by (simp add: Sscanf_d_def Itoa_def Let_def takeWhile_show)
next
  case False
  assume ok: "in_int64 i"
  have "hd (show_nat (nat i)) \<noteq> CHR ''+''" "hd (show_nat (nat i)) \<noteq> CHR ''-''"
    using hd_show_nat not_digit_signs(1,2) by metis+
  with False ok ParseInt_Itoa [of i] show ?thesis
    by (simp add: Sscanf_d_def Itoa_def Let_def takeWhile_show)
qed

lemma HasSuffix_last: "HasSuffix s (p @ [c]) \<Longrightarrow> last s = c"
  by (auto simp: HasSuffix_iff)

lemma GetBytes_Itoa:
  assumes "GetString d sec key = Some (Itoa i)" and "in_int64 i"
  shows "GetBytes uni d sec key = Some i"
proof -
  have up: "ToUpper uni (Itoa i) = Itoa i"
    using Itoa_chars [of _ i] by (simp add: ToUpper_def list_all_iff map_idI)
  have "last (Itoa i) \<noteq> CHR ''B''" using Itoa_last(2) [of i] digit_graphic by blast
  then have "\<not> HasSuffix (Itoa i) ''GB''" "\<not> HasSuffix (Itoa i) ''MB''" "\<not> HasSuffix (Itoa i) ''KB''"
    using HasSuffix_last [of "Itoa i" "''G''" "CHR ''B''"] HasSuffix_last [of "Itoa i" "''M''" "CHR ''B''"]
      HasSuffix_last [of "Itoa i" "''K''" "CHR ''B''"] by auto
  moreover have "TrimSpace (Itoa i) = Itoa i"
    using Itoa_value [OF assms(2)] by (simp add: value_ok_def TrimSpace_trimmed)
  ultimately show ?thesis
    using assms up by (simp add: GetBytes_def Let_def Sscanf_Itoa wrap64_id)
qed

lemma leadingInt_append:
  "leadingInt x (s @ t) = (case leadingInt x s of None \<Rightarrow> None | Some y \<Rightarrow> leadingInt y t)"
  by (induction s arbitrary: x) (auto simp: Let_def)

lemma leadingInt_show: "int n \<le> 2 ^ 63 \<Longrightarrow> leadingInt 0 (show_nat n) = Some (int n)"
proof (induction n rule: show_nat.induct)
  case (1 n)
  show ?case
  proof (cases "n < 10")
    case True
    then show ?thesis by (simp add: show_nat.simps [of n] digit_facts)
  next
    case False
    have "leadingInt 0 (show_nat (n div 10)) = Some (int (n div 10))" using 1 False by simp
    moreover have "int (n div 10) \<le> 2 ^ 63 div 10" using 1(2) by (simp add: zdiv_int zdiv_mono1)
    moreover have "int (n div 10) * 10 + int (n mod 10) = int n"
      by (metis div_mult_mod_eq of_nat_add of_nat_mult of_nat_numeral)
    ultimately show ?thesis
      using False 1(2) by (simp add: show_nat.simps [of n] leadingInt_append digit_facts Let_def)
  qed
qed

lemma duration_ns:
  assumes "int n \<le> 2 ^ 63"
  shows "duration_loop frac 0 (show_nat n @ ''ns'') = Some (int n)"
proof -
  let ?s = "show_nat n @ ''ns''"
  have not: "\<not> is_digit CHR ''n''" "\<not> num_or_dot CHR ''n''" "\<not> num_or_dot CHR ''s''" by code_simp+
  have tw: "takeWhile is_digit ?s = show_nat n" "dropWhile is_digit ?s = ''ns''"
    using show_nat_digits [of n] not by (simp_all add: list_all_iff takeWhile_append dropWhile_append)
  have hd: "num_or_dot (hd ?s)" using hd_show_nat [of n] digit_graphic by simp
  have u: "takeWhile (Not \<circ> num_or_dot) ''ns'' = ''ns''" "dropWhile (Not \<circ> num_or_dot) ''ns'' = []"
    using not by simp_all
  have "unit_of ''ns'' = Some 1" by (simp add: unit_of_def)
  then show ?thesis
    using assms hd
    by (subst duration_loop.simps) (simp add: tw u not leadingInt_show Let_def duration_loop.simps [of _ _ "[]"])
qed

definition print_duration :: "int \<Rightarrow> string" where
  "print_duration d = Itoa d @ ''ns''"

lemma ParseDuration_print:
  assumes "in_int64 d"
  shows "ParseDuration frac (print_duration d) = Some d"
proof (cases "d < 0")
  case True
  then have "int (nat (- d)) \<le> 2 ^ 63" using assms by (simp add: in_int64_def)
  from duration_ns [OF this] True assms show ?thesis
    by (simp add: ParseDuration_def print_duration_def Itoa_def Let_def wrap64_id)
next
  case False
  then have le: "int (nat d) \<le> 2 ^ 63" and "d \<le> 2 ^ 63 - 1" using assms by (simp_all add: in_int64_def)
  moreover have "hd (show_nat (nat d)) \<noteq> CHR ''+''" "hd (show_nat (nat d)) \<noteq> CHR ''-''"
    using hd_show_nat not_digit_signs(1,2) by metis+
  moreover have "show_nat (nat d) @ ''ns'' \<noteq> ''0''" by (cases "show_nat (nat d)") auto
  ultimately show ?thesis
    using False duration_ns [OF le]
    by (simp add: ParseDuration_def print_duration_def Itoa_def Let_def)
qed

lemma print_duration_value: "in_int64 d \<Longrightarrow> value_ok (print_duration d)"
proof -
  assume ok: "in_int64 d"
  have s: "graphic CHR ''s''" by code_simp
  have "trimmed (print_duration d)"
    using Itoa_last(1) [of d] Itoa_chars [of "hd (Itoa d)" d] s
    by (intro trimmed_graphic) (auto simp: print_duration_def)
  with ok show ?thesis
    using Itoa_length [of d] Itoa_no_newline [of "CHR 0x0A" d] by (auto simp: value_ok_def print_duration_def)
qed

definition print_bool :: "bool \<Rightarrow> string" where
  "print_bool b = (if b then ''true'' else ''false'')"

lemma print_bool_value: "value_ok (print_bool b)"
proof -
  have "graphic CHR ''t''" "graphic CHR ''f''" "graphic CHR ''e''" by code_simp+
  then have "trimmed (print_bool b)" by (intro trimmed_graphic) (auto simp: print_bool_def)
  then show ?thesis by (simp add: value_ok_def print_bool_def)
qed

subsection \<open>Printing a configuration\<close>

definition config_sections :: "Config \<Rightarrow> sections" where
  "config_sections c =
     [(''server'',
        [(''port'', Port (Server c)), (''max_connections'', Itoa (MaxConnections (Server c))),
         (''read_timeout'', print_duration (ReadTimeout (Server c))),
         (''write_timeout'', print_duration (WriteTimeout (Server c))),
         (''idle_timeout'', print_duration (IdleTimeout (Server c))),
         (''requirepass'', RequirePass (Server c))]),
      (''engine'',
        [(''max_memory'', Itoa (MaxMemory (Engine c))), (''eviction_policy'', EvictionPolicy (Engine c)),
         (''evictor_capacity'', Itoa (EvictorCapacity (Engine c))),
         (''shard_count'', Itoa (ShardCount (Engine c))),
         (''default_ttl'', print_duration (DefaultTTL (Engine c)))]),
      (''persistence.rdb'',
        [(''enabled'', print_bool (RDB_Enabled (RDB (Persistence c)))),
         (''path'', RDB_Path (RDB (Persistence c))),
         (''interval'', print_duration (RDB_Interval (RDB (Persistence c))))]),
      (''persistence.aof'',
        [(''enabled'', print_bool (AOF_Enabled (AOF (Persistence c)))),
         (''path'', FilePath (AOF (Persistence c))),
         (''flush_interval'', print_duration (FlushInterval (AOF (Persistence c)))),
         (''sync_on_write'', print_bool (SyncOnWrite (AOF (Persistence c))))]),
      (''persistence.json'',
        [(''enabled'', print_bool (JSON_Enabled (JSON (Persistence c)))),
         (''path'', JSON_Path (JSON (Persistence c))),
         (''interval'', print_duration (JSON_Interval (JSON (Persistence c)))),
         (''max_snapshots'', Itoa (MaxSnapshots (JSON (Persistence c))))])]"

definition config_strings :: "Config \<Rightarrow> string list" where
  "config_strings c = [Port (Server c), RequirePass (Server c), EvictionPolicy (Engine c),
     RDB_Path (RDB (Persistence c)), FilePath (AOF (Persistence c)), JSON_Path (JSON (Persistence c))]"

definition config_ints :: "Config \<Rightarrow> int list" where
  "config_ints c =
     [MaxConnections (Server c), ReadTimeout (Server c), WriteTimeout (Server c), IdleTimeout (Server c),
      MaxMemory (Engine c), EvictorCapacity (Engine c), ShardCount (Engine c), DefaultTTL (Engine c),
      RDB_Interval (RDB (Persistence c)), FlushInterval (AOF (Persistence c)),
      JSON_Interval (JSON (Persistence c)), MaxSnapshots (JSON (Persistence c))]"

definition config_printable :: "Config \<Rightarrow> bool" where
  "config_printable c \<longleftrightarrow> list_all value_ok (config_strings c) \<and> list_all in_int64 (config_ints c)"

definition config_keys :: "string list" where
  "config_keys =
     [''server'', ''port'', ''max_connections'', ''read_timeout'', ''write_timeout'', ''idle_timeout'',
      ''requirepass'', ''engine'', ''max_memory'', ''eviction_policy'', ''evictor_capacity'', ''shard_count'',
      ''default_ttl'', ''persistence.rdb'', ''enabled'', ''path'', ''interval'', ''persistence.aof'',
      ''flush_interval'', ''sync_on_write'', ''persistence.json'', ''max_snapshots'']"

lemma config_keys_ok: "list_all key_ok config_keys"
  by code_simp

lemma config_sections_ok:
  assumes "config_printable c"
  shows "list_all section_ok (config_sections c)" "distinct (map fst (config_sections c))"
proof -
  note keys = config_keys_ok [unfolded config_keys_def list.pred_inject]
  from assms have "list_all value_ok (config_strings c)" "list_all in_int64 (config_ints c)"
    by (simp_all add: config_printable_def)
  note vals = this [unfolded config_strings_def config_ints_def list.pred_inject]
  show "list_all section_ok (config_sections c)"
    unfolding config_sections_def list.pred_inject section_ok_def fst_conv snd_conv prod.case
    using keys vals Itoa_value print_duration_value print_bool_value by simp
  show "distinct (map fst (config_sections c))" by (simp add: config_sections_def)
qed

lemma GetBool_print: "GetString d sec key = Some (print_bool b) \<Longrightarrow> GetBool d sec key = Some b"
  by (simp add: GetBool_def print_bool_def)

lemma GetInt_print: "GetString d sec key = Some (Itoa i) \<Longrightarrow> in_int64 i \<Longrightarrow> GetInt d sec key = Some i"
  by (simp add: GetInt_def Sscanf_Itoa)

lemma GetDuration_print:
  "GetString d sec key = Some (print_duration i) \<Longrightarrow> in_int64 i \<Longrightarrow> GetDuration frac d sec key = Some i"
  by (simp add: GetDuration_def ParseDuration_print)

lemmas get_print = GetBool_print GetInt_print GetDuration_print GetBytes_Itoa

subsection \<open>Properties\<close>


definition no_frac :: "string \<Rightarrow> int \<Rightarrow> int" where
  "no_frac ds unit = 0"

lemma DefaultConfig_printable: "config_printable DefaultConfig"
proof -
  have g: "graphic CHR ''6''" "graphic CHR ''9''" "graphic CHR ''l''" "graphic CHR ''u''" "graphic CHR ''p''"
    "graphic CHR ''b''" "graphic CHR ''f''" "graphic CHR ''n''" by code_simp+
  then have "value_ok ''6379''" "value_ok []" "value_ok ''lru''" "value_ok ''pendem.rdb''" "value_ok ''pendem.aof''"
    "value_ok ''pendem.snapshot.json''"
    by (simp_all add: value_ok_def trimmed_graphic)
  then show ?thesis
    by (simp add: config_printable_def config_strings_def config_ints_def DefaultConfig_def in_int64_def
        second_def minute_def hour_def)
qed


subsection \<open>What is accepted silently\<close>

lemma Sscanf_garbage:
  assumes "v = [] \<or> \<not> is_digit (hd v) \<and> hd v \<notin> {CHR ''+'', CHR ''-''}"
  shows "Sscanf_d v = 0"
  using assms by (cases v) (auto simp: Sscanf_d_def)

lemma LoadConfig_print:
  assumes "list_all section_ok ss" and "distinct (map fst ss)"
  shows "LoadConfig uni frac (Some (print_ini ss)) =
    (Persistence_update (RDB_update (load_rdb frac ss) \<circ> AOF_update (load_aof frac ss) \<circ> JSON_update (load_json frac ss))
       (Engine_update (load_engine uni frac ss) (Server_update (load_server frac ss) DefaultConfig)), None)"
  by (simp add: LoadConfig_def Parse_print [OF assms])

lemmas load_defs = load_server_def load_engine_def load_rdb_def load_aof_def load_json_def set_field_def
  GetString_def GetInt_def GetBool_def GetDuration_def GetBytes_def Let_def

text \<open>A file with one option.\<close>

definition one_option :: "string \<Rightarrow> string \<Rightarrow> string \<Rightarrow> string" where
  "one_option sec k v = print_ini [(sec, [(k, v)])]"

lemma one_option_ok: "key_ok sec \<Longrightarrow> key_ok k \<Longrightarrow> value_ok v \<Longrightarrow> list_all section_ok [(sec, [(k, v)])]"
  by (simp add: section_ok_def)

text \<open>A number that does not start with a digit or a sign is read as zero, and nothing is
  reported: with such a max_connections, LoadConfig succeeds with a limit of zero.\<close>

theorem bad_number_is_zero:
  assumes "value_ok v" and "v = [] \<or> \<not> is_digit (hd v) \<and> hd v \<notin> {CHR ''+'', CHR ''-''}"
  shows "LoadConfig uni frac (Some (one_option ''server'' ''max_connections'' v))
    = (DefaultConfig\<lparr>Server := Server DefaultConfig\<lparr>MaxConnections := 0\<rparr>\<rparr>, None)"
proof -
  have "list_all section_ok [(''server'', [(''max_connections'', v)])]"
    using config_keys_ok assms(1) by (intro one_option_ok) (simp_all add: config_keys_def)
  then show ?thesis
    by (simp add: one_option_def LoadConfig_print load_defs Sscanf_garbage [OF assms(2)] DefaultConfig_def)
qed

lemma many_ok: "value_ok ''many''" "\<not> is_digit (hd ''many'')"
proof -
  have "graphic CHR ''m''" "graphic CHR ''y''" by code_simp+
  then show "value_ok ''many''" by (simp add: value_ok_def trimmed_graphic)
  show "\<not> is_digit (hd ''many'')" by code_simp
qed

lemma bad_number_is_zero_witness:
  "MaxConnections (Server (fst (LoadConfig id no_frac (Some (one_option ''server'' ''max_connections'' ''many''))))) = 0"
  using bad_number_is_zero [of "''many''" id no_frac] many_ok by simp

lemma day_duration:
  shows "ParseDuration frac (show_nat n @ ''d'') = None"
proof -
  let ?s = "show_nat n @ ''d''"
  have not: "\<not> is_digit CHR ''d''" "\<not> num_or_dot CHR ''d''" by code_simp+
  have tw: "takeWhile is_digit ?s = show_nat n" "dropWhile is_digit ?s = ''d''"
    using show_nat_digits [of n] not by (simp_all add: list_all_iff takeWhile_append dropWhile_append)
  have hd: "num_or_dot (hd ?s)" "hd ?s \<noteq> CHR ''-''" "hd ?s \<noteq> CHR ''+''"
    using hd_show_nat [of n] digit_graphic not_digit_signs(1,2) by (simp, metis hd_append2 show_nat_nonempty)+
  have "unit_of ''d'' = None" by (simp add: unit_of_def)
  then have loop: "duration_loop frac 0 ?s = None"
    using hd(1) by (subst duration_loop.simps) (simp add: tw not Let_def split: option.split)
  have "?s \<noteq> ''0''" by (cases "show_nat n") auto
  with hd(2,3) loop show ?thesis by (simp add: ParseDuration_def Let_def)
qed

text \<open>A duration in days is not understood, although the comment of GetDuration lists it: an
  option such as idle_timeout = 1d is dropped without a word and the default stays.\<close>

theorem days_are_ignored:
  assumes "length (show_nat n) < 1000"
  shows "LoadConfig uni frac (Some (one_option ''server'' ''idle_timeout'' (show_nat n @ ''d''))) = (DefaultConfig, None)"
proof -
  have "graphic CHR ''d''" by code_simp
  moreover have "CHR 0x0A \<notin> set (show_nat n)"
    using show_nat_digits [of n] not_digit_signs(3) by (auto simp: list_all_iff)
  moreover have "graphic (hd (show_nat n))" using hd_show_nat digit_graphic by blast
  ultimately have "value_ok (show_nat n @ ''d'')"
    using assms by (simp add: value_ok_def trimmed_graphic)
  then have "list_all section_ok [(''server'', [(''idle_timeout'', show_nat n @ ''d'')])]"
    using config_keys_ok by (intro one_option_ok) (simp_all add: config_keys_def)
  then show ?thesis
    by (simp add: one_option_def LoadConfig_print load_defs day_duration)
qed

lemma days_are_ignored_witness:
  "IdleTimeout (Server (fst (LoadConfig id no_frac (Some (one_option ''server'' ''idle_timeout'' ''1d''))))) = 10 * minute"
proof -
  have "show_nat 1 = ''1''" by (simp add: show_nat.simps)
  then show ?thesis using days_are_ignored [of 1 id no_frac] by (simp add: DefaultConfig_def)
qed

subsection \<open>Which file\<close>

text \<open>The file that is read is the first one that exists of: the file of the flag followed by the
  default places (when the flag is given), the file of PENDEM_CONFIG followed by the default places
  (when it is set), the default places.  So a flag that names a missing file is not an error, and
  makes a default file win over PENDEM_CONFIG.\<close>

theorem config_path_order:
  assumes "\<And>xs. join xs \<noteq> []"
  shows "config_path join os exists flag =
    (let D = DefaultConfigPaths join os in
     case find exists ((if flag \<noteq> [] then flag # D else [])
         @ (if PENDEM_CONFIG os \<noteq> [] then PENDEM_CONFIG os # D else []) @ D) of
       None \<Rightarrow> [] | Some p \<Rightarrow> p)"
proof -
  let ?D = "DefaultConfigPaths join os"
  have ne: "p \<noteq> []" if "find exists ?D = Some p" for p
    using that assms by (auto simp: find_Some_iff2 DefaultConfigPaths_def dest: nth_mem split: if_splits)
  have app: "find exists (xs @ ys) = (case find exists xs of None \<Rightarrow> find exists ys | Some p \<Rightarrow> Some p)" for xs ys
    by (induction xs) auto
  show ?thesis
    using ne by (auto simp: config_path_def FindConfigFile_def app Let_def split: option.splits)
qed

definition witness_os :: os_env where
  "witness_os = \<lparr>GOOS = ''linux'', HOME = ''/root'', ProgramData = [], APPDATA = [], PENDEM_CONFIG = ''env.conf''\<rparr>"

definition witness_join :: "string list \<Rightarrow> string" where
  "witness_join xs = CHR ''/'' # concat xs"

lemma config_path_order_witness:
  "config_path witness_join witness_os (\<lambda>p. p \<in> {''env.conf'', ''pendem.conf''}) ''missing.conf'' = ''pendem.conf''"
  by (subst config_path_order)
    (simp_all add: witness_join_def witness_os_def DefaultConfigPaths_def Let_def)

end
