(* ===== verification/Lifecycle.thy ===== *)
theory Lifecycle
  imports Sessions Config
begin

section \<open>Connections come and go\<close>

text \<open>
  Models the goroutines of \<^verbatim>\<open>internal/server/server.go\<close> and \<^verbatim>\<open>connection.go\<close>: the accept loop
  of \<open>Start\<close>, the life of a connection in \<open>handleConnection\<close>, its idle monitor, the goroutine that
  closes it when the server quits, and \<open>ShutdownWithTimeout\<close>.  Every event is a step one goroutine
  takes on the shared state; \<open>life_exec\<close> says what it does, and is \<open>None\<close> where the goroutine is
  not at that point or has to wait, so a list of events is an interleaving.  A request (the event
  \<open>Request\<close>) is one step, and runs on the state of the server that the other theories use; a panic in
  it ends the process.

  The clock counts seconds (\<open>time.Now().Unix()\<close>); a \<open>Tick\<close> makes every idle monitor due, and
  the next one waits until all of them have run.  \<open>idle_secs\<close> is \<open>int64(idleTimeout.Seconds())\<close>.
  A refused connection is written an error and closed at once.  Read and write deadlines appear as
  read errors, which may happen at any time.
\<close>

datatype acceptor = AtLoop | Accepting | Accepted conn_id | Checked conn_id | Admitting conn_id | Stopped

datatype phase = Absent | Refused | Spawned | Registered | AtTop | Reading | Ending | Leaving | Gone

datatype shutdown = Serving | Quitting | Waiting | Finished | TimedOut int

record life =
  quit :: bool
  listener_closed :: bool
  activeConn :: int
  wg :: int
  acceptor :: acceptor
  phase :: "conn_id \<Rightarrow> phase"
  ids :: "conn_id list"
  closers :: "conn_id list"
  monitors :: "conn_id list"
  due :: "conn_id list"
  lastActivity :: "conn_id \<Rightarrow> int"
  clock :: int
  shutdown :: shutdown
  srv :: server

definition start_life :: "server \<Rightarrow> life" where
  "start_life s = \<lparr>quit = False, listener_closed = False, activeConn = 0, wg = 0, acceptor = AtLoop,
     phase = (\<lambda>_. Absent), ids = [], closers = [], monitors = [], due = [], lastActivity = (\<lambda>_. 0),
     clock = 0, shutdown = Serving, srv = s\<rparr>"

definition wrap32 :: "int \<Rightarrow> int" where
  "wrap32 x = (x + 2 ^ 31) mod 2 ^ 32 - 2 ^ 31"

definition set_phase :: "conn_id \<Rightarrow> phase \<Rightarrow> life \<Rightarrow> life" where
  "set_phase c p s = s\<lparr>phase := (phase s)(c := p)\<rparr>"

subsection \<open>The accept loop\<close>

datatype life_event =
    LoopCheck | AcceptConn conn_id | AcceptError | QuitCheck | LimitCheck | Admit
  | Register conn_id | StartServing conn_id | TopOfLoop conn_id
  | Request conn_id "nat \<Rightarrow> nat \<Rightarrow> env" RESPValue | ReadError conn_id | Interrupt conn_id
  | Deferred conn_id map_order | WgDone conn_id
  | CloseOnQuit conn_id | CloseWrongPassword conn_id | IdleCheck conn_id
  | CleanupPass int map_order | Tick
  | CloseQuit | CloseListener | WaitDone | WaitTimeout

fun accept_step :: "ServerConfig \<Rightarrow> life_event \<Rightarrow> life \<Rightarrow> life option" where
  "accept_step cfg LoopCheck s =
     (if acceptor s = AtLoop
      then Some (s\<lparr>acceptor := (if quit s then Stopped else Accepting)\<rparr>) else None)"
| "accept_step cfg (AcceptConn c) s =
     (if acceptor s = Accepting \<and> \<not> listener_closed s \<and> c \<notin> set (ids s)
      then Some (s\<lparr>acceptor := Accepted c, ids := ids s @ [c]\<rparr>) else None)"
| "accept_step cfg AcceptError s =
     (if acceptor s = Accepting
      then Some (s\<lparr>acceptor := (if listener_closed s then Stopped else AtLoop)\<rparr>) else None)"
| "accept_step cfg QuitCheck s =
     (case acceptor s of
        Accepted c \<Rightarrow>
          if quit s then Some (set_phase c Refused s\<lparr>acceptor := AtLoop\<rparr>)
          else Some (s\<lparr>acceptor := Checked c\<rparr>)
      | _ \<Rightarrow> None)"
| "accept_step cfg LimitCheck s =
     (case acceptor s of
        Checked c \<Rightarrow>
          if activeConn s \<ge> wrap32 (MaxConnections cfg) then Some (set_phase c Refused s\<lparr>acceptor := AtLoop\<rparr>)
          else Some (s\<lparr>acceptor := Admitting c\<rparr>)
      | _ \<Rightarrow> None)"
| "accept_step cfg Admit s =
     (case acceptor s of
        Admitting c \<Rightarrow> Some (set_phase c Spawned s\<lparr>acceptor := AtLoop, activeConn := activeConn s + 1\<rparr>)
      | _ \<Rightarrow> None)"
| "accept_step cfg _ s = None"

subsection \<open>A connection\<close>

definition UpdateActivity :: "conn_id \<Rightarrow> life \<Rightarrow> life" where
  "UpdateActivity c s = s\<lparr>lastActivity := (lastActivity s)(c := clock s)\<rparr>"

fun conn_step :: "life_event \<Rightarrow> life \<Rightarrow> life option" where
  "conn_step (Register c) s =
     (if phase s c = Spawned
      then Some (set_phase c Registered s\<lparr>wg := wg s + 1, srv := upd_conn c (\<lambda>_. NewConnection) (srv s)\<rparr>)
      else None)"
| "conn_step (StartServing c) s =
     (if phase s c \<noteq> Registered then None
      else if quit s then Some (set_phase c Ending s)
      else Some (UpdateActivity c (set_phase c AtTop s)\<lparr>monitors := c # monitors s, closers := c # closers s\<rparr>))"
| "conn_step (TopOfLoop c) s =
     (if phase s c \<noteq> AtTop then None
      else if IsClosed (conns (srv s) c) \<or> quit s then Some (set_phase c Ending s)
      else Some (set_phase c Reading s))"
| "conn_step (Request c envss v) s =
     (if phase s c \<noteq> Reading then None
      else case handle_value envss c v (srv s) of
        Panic \<Rightarrow> None
      | Ret (out, srv') \<Rightarrow> Some (UpdateActivity c (set_phase c AtTop s)\<lparr>srv := srv'\<rparr>))"
| "conn_step (ReadError c) s = (if phase s c = Reading then Some (set_phase c Ending s) else None)"
| "conn_step (Interrupt c) s =
     (if phase s c = Reading \<and> c \<notin> set (closers s) then Some (set_phase c Ending s) else None)"
| "conn_step (Deferred c it) s =
     (if phase s c = Ending
      then Some (set_phase c Leaving s\<lparr>srv := end_connection it c (srv s), activeConn := activeConn s - 1\<rparr>)
      else None)"
| "conn_step (WgDone c) s =
     (if phase s c = Leaving then Some (set_phase c Gone s\<lparr>wg := wg s - 1\<rparr>) else None)"
| "conn_step _ s = None"

subsection \<open>The goroutines around it\<close>

definition close_conn :: "conn_id \<Rightarrow> life \<Rightarrow> life" where
  "close_conn c s = s\<lparr>srv := upd_conn c Close (srv s)\<rparr>"

text \<open>\<open>MonitorIdle\<close>: one round of its loop.\<close>

definition monitor_step :: "int \<Rightarrow> conn_id \<Rightarrow> life \<Rightarrow> life" where
  "monitor_step idle_secs c s =
     (let s1 = s\<lparr>due := remove1 c (due s)\<rparr> in
      if IsClosed (conns (srv s) c) then s1\<lparr>monitors := remove1 c (monitors s)\<rparr>
      else if clock s - lastActivity s c > idle_secs
        then close_conn c (s1\<lparr>monitors := remove1 c (monitors s)\<rparr>)
      else s1)"

fun other_step :: "int \<Rightarrow> life_event \<Rightarrow> life \<Rightarrow> life option" where
  "other_step idle_secs (CloseOnQuit c) s =
     (if quit s \<and> c \<in> set (closers s) then Some (close_conn c (s\<lparr>closers := removeAll c (closers s)\<rparr>)) else None)"
| "other_step idle_secs (CloseWrongPassword c) s =
     (if close_pending (conns (srv s) c) then Some (close_conn c s) else None)"
| "other_step idle_secs (IdleCheck c) s =
     (if c \<in> set (monitors s) \<and> (c \<in> set (due s) \<or> IsClosed (conns (srv s) c))
      then Some (monitor_step idle_secs c s) else None)"
| "other_step idle_secs (CleanupPass now it) s =
     (if order_ok it
      then Some (s\<lparr>srv := (srv s)\<lparr>s_handler := (s_handler (srv s))\<lparr>h_cache :=
             Cache_cleanup lru_evictor now it (h_cache (s_handler (srv s)))\<rparr>\<rparr>\<rparr>)
      else None)"
| "other_step idle_secs Tick s =
     (if due s = [] then Some (s\<lparr>clock := clock s + 1, due := monitors s\<rparr>) else None)"
| "other_step idle_secs _ s = None"

subsection \<open>Shutdown\<close>

fun shutdown_step :: "life_event \<Rightarrow> life \<Rightarrow> life option" where
  "shutdown_step CloseQuit s =
     (if shutdown s = Serving then Some (s\<lparr>shutdown := Quitting, quit := True\<rparr>) else None)"
| "shutdown_step CloseListener s =
     (if shutdown s = Quitting then Some (s\<lparr>shutdown := Waiting, listener_closed := True\<rparr>) else None)"
| "shutdown_step WaitDone s =
     (if shutdown s = Waiting \<and> wg s = 0 then Some (s\<lparr>shutdown := Finished\<rparr>) else None)"
| "shutdown_step WaitTimeout s =
     (if shutdown s = Waiting then Some (s\<lparr>shutdown := TimedOut (activeConn s)\<rparr>) else None)"
| "shutdown_step _ s = None"

definition life_exec :: "ServerConfig \<Rightarrow> int \<Rightarrow> life_event \<Rightarrow> life \<Rightarrow> life option" where
  "life_exec cfg idle_secs ev s =
     (case accept_step cfg ev s of Some s' \<Rightarrow> Some s'
      | None \<Rightarrow> (case conn_step ev s of Some s' \<Rightarrow> Some s'
      | None \<Rightarrow> (case other_step idle_secs ev s of Some s' \<Rightarrow> Some s'
      | None \<Rightarrow> shutdown_step ev s)))"

fun life_run :: "ServerConfig \<Rightarrow> int \<Rightarrow> life_event list \<Rightarrow> life \<Rightarrow> life option" where
  "life_run cfg idle_secs [] s = Some s"
| "life_run cfg idle_secs (ev # evs) s =
     (case life_exec cfg idle_secs ev s of None \<Rightarrow> None | Some s' \<Rightarrow> life_run cfg idle_secs evs s')"

end
