(* ===== verification/LifecycleProps.thy ===== *)
theory LifecycleProps
  imports Lifecycle
begin

section \<open>What holds in every interleaving\<close>

text \<open>
  The states an interleaving can reach, and the invariants of the two counters, of the goroutines
  and of the shutdown, by induction over the events.
\<close>

inductive live :: "ServerConfig \<Rightarrow> int \<Rightarrow> server \<Rightarrow> life \<Rightarrow> bool" for cfg idle_secs s0 where
  start: "live cfg idle_secs s0 (start_life s0)"
| step: "live cfg idle_secs s0 s \<Longrightarrow> life_exec cfg idle_secs ev s = Some s' \<Longrightarrow> live cfg idle_secs s0 s'"

lemma live_run: "life_run cfg k evs s = Some s' \<Longrightarrow> live cfg k s0 s \<Longrightarrow> live cfg k s0 s'"
  by (induction evs arbitrary: s) (auto split: option.splits intro: live.step)

lemma live_invariant:
  assumes "live cfg k s0 s" and "P (start_life s0)"
    and "\<And>ev s s'. P s \<Longrightarrow> life_exec cfg k ev s = Some s' \<Longrightarrow> P s'"
  shows "P s"
  using assms(1) by induction (use assms(2,3) in blast)+

text \<open>The effect of each event, in one case split.\<close>

lemmas exec_defs = life_exec_def set_phase_def UpdateActivity_def close_conn_def monitor_step_def Let_def

subsection \<open>The server state of an interleaving is one of the sequential model\<close>


lemma live_step_ok: "server_ok (srv s) \<Longrightarrow> life_exec cfg k ev s = Some s' \<Longrightarrow> server_ok (srv s')"
  by (cases ev) (auto simp: exec_defs split: if_splits option.splits outcome.splits acceptor.splits
      intro: server_steps_ok)

subsection \<open>The counters\<close>

definition counted :: "phase set \<Rightarrow> life \<Rightarrow> int" where
  "counted ps s = int (length (filter (\<lambda>c. phase s c \<in> ps) (ids s)))"

definition busy :: "phase set" where
  "busy = {Spawned, Registered, AtTop, Reading, Ending}"

definition waited_for :: "phase set" where
  "waited_for = {Registered, AtTop, Reading, Ending, Leaving}"

definition pending :: "acceptor \<Rightarrow> conn_id set" where
  "pending a = (case a of Accepted c \<Rightarrow> {c} | Checked c \<Rightarrow> {c} | Admitting c \<Rightarrow> {c} | _ \<Rightarrow> {})"

definition counters_ok :: "ServerConfig \<Rightarrow> life \<Rightarrow> bool" where
  "counters_ok cfg s \<longleftrightarrow> distinct (ids s)
     \<and> (\<forall>c. phase s c \<noteq> Absent \<longrightarrow> c \<in> set (ids s))
     \<and> pending (acceptor s) \<subseteq> {c. c \<in> set (ids s) \<and> phase s c = Absent}
     \<and> activeConn s = counted busy s \<and> wg s = counted waited_for s
     \<and> activeConn s \<le> max 0 (wrap32 (MaxConnections cfg))
     \<and> (\<forall>c. acceptor s = Admitting c \<longrightarrow> activeConn s < wrap32 (MaxConnections cfg))"

lemma counted_set_phase:
  assumes "distinct (ids s)" and "c \<in> set (ids s)"
  shows "counted ps (set_phase c p s) =
    counted ps s + (if p \<in> ps then 1 else 0) - (if phase s c \<in> ps then 1 else 0)"
proof -
  obtain xs ys where ids: "ids s = xs @ c # ys" using assms(2) by (metis split_list)
  then have "c \<notin> set xs" "c \<notin> set ys" using assms(1) by auto
  then have "filter (\<lambda>d. ((phase s)(c := p)) d \<in> ps) xs = filter (\<lambda>d. phase s d \<in> ps) xs"
    "filter (\<lambda>d. ((phase s)(c := p)) d \<in> ps) ys = filter (\<lambda>d. phase s d \<in> ps) ys"
    by (auto intro!: filter_cong)
  then show ?thesis by (simp add: counted_def set_phase_def ids)
qed

lemma counted_other [simp]:
  "counted ps (s\<lparr>quit := q\<rparr>) = counted ps s" "counted ps (s\<lparr>listener_closed := q\<rparr>) = counted ps s"
  "counted ps (s\<lparr>activeConn := n\<rparr>) = counted ps s" "counted ps (s\<lparr>wg := n\<rparr>) = counted ps s"
  "counted ps (s\<lparr>acceptor := a\<rparr>) = counted ps s" "counted ps (s\<lparr>closers := l\<rparr>) = counted ps s"
  "counted ps (s\<lparr>monitors := l\<rparr>) = counted ps s" "counted ps (s\<lparr>due := l\<rparr>) = counted ps s"
  "counted ps (s\<lparr>lastActivity := f\<rparr>) = counted ps s" "counted ps (s\<lparr>clock := n\<rparr>) = counted ps s"
  "counted ps (s\<lparr>shutdown := x\<rparr>) = counted ps s" "counted ps (s\<lparr>srv := v\<rparr>) = counted ps s"
  by (simp_all add: counted_def)

lemma counters_ok_start: "counters_ok cfg (start_life s0)"
  by (simp add: counters_ok_def start_life_def counted_def pending_def)

lemma set_phase_sel [simp]:
  "phase (set_phase c p s) = (phase s)(c := p)" "ids (set_phase c p s) = ids s"
  "acceptor (set_phase c p s) = acceptor s" "activeConn (set_phase c p s) = activeConn s"
  "wg (set_phase c p s) = wg s" "quit (set_phase c p s) = quit s"
  "listener_closed (set_phase c p s) = listener_closed s" "closers (set_phase c p s) = closers s"
  "monitors (set_phase c p s) = monitors s" "due (set_phase c p s) = due s"
  "lastActivity (set_phase c p s) = lastActivity s" "clock (set_phase c p s) = clock s"
  "shutdown (set_phase c p s) = shutdown s" "srv (set_phase c p s) = srv s"
  by (simp_all add: set_phase_def)

text \<open>What an event does to the phases and the counters: nothing, the step of one connection, or a
  step of the accept loop.\<close>

definition counter_view :: "life \<Rightarrow> (conn_id \<Rightarrow> phase) \<times> conn_id list \<times> acceptor \<times> int \<times> int" where
  "counter_view s = (phase s, ids s, acceptor s, activeConn s, wg s)"

lemma other_view: "other_step k ev s = Some s' \<Longrightarrow> counter_view s' = counter_view s"
  by (cases ev) (auto simp: counter_view_def monitor_step_def close_conn_def Let_def split: if_splits)

lemma shutdown_view: "shutdown_step ev s = Some s' \<Longrightarrow> counter_view s' = counter_view s"
  by (cases ev) (auto simp: counter_view_def split: if_splits)

definition in_ps :: "phase set \<Rightarrow> phase \<Rightarrow> int" where
  "in_ps ps p = (if p \<in> ps then 1 else 0)"

definition conn_move :: "conn_id \<Rightarrow> phase \<Rightarrow> life \<Rightarrow> life \<Rightarrow> bool" where
  "conn_move c p s s' \<longleftrightarrow> phase s c \<noteq> Absent \<and> p \<noteq> Absent \<and> (p \<in> busy \<longrightarrow> phase s c \<in> busy)
     \<and> counter_view s' = ((phase s)(c := p), ids s, acceptor s,
          activeConn s + in_ps busy p - in_ps busy (phase s c),
          wg s + in_ps waited_for p - in_ps waited_for (phase s c))"

fun conn_of :: "life_event \<Rightarrow> conn_id" where
  "conn_of (Register c) = c" | "conn_of (StartServing c) = c" | "conn_of (TopOfLoop c) = c"
| "conn_of (Request c envss v) = c" | "conn_of (ReadError c) = c" | "conn_of (Interrupt c) = c"
| "conn_of (Deferred c it) = c" | "conn_of (WgDone c) = c" | "conn_of _ = 0"

lemma conn_view:
  "conn_step ev s = Some s' \<Longrightarrow> conn_move (conn_of ev) (phase s' (conn_of ev)) s s'"
  by (cases ev)
    (auto simp: conn_move_def counter_view_def UpdateActivity_def busy_def waited_for_def in_ps_def
      split: if_splits outcome.splits)

lemma conn_step_phase: "conn_step ev s \<noteq> None \<Longrightarrow> phase s (conn_of ev) \<notin> {Absent, Refused}"
  by (cases ev) (auto split: if_splits)

lemma counted_cong: "phase s = phase s' \<Longrightarrow> ids s = ids s' \<Longrightarrow> counted ps s = counted ps s'"
  by (simp add: counted_def)

lemma counters_ok_cong: "counter_view s' = counter_view s \<Longrightarrow> counters_ok cfg s \<Longrightarrow> counters_ok cfg s'"
  by (auto simp: counter_view_def counters_ok_def cong: counted_cong)

lemma counters_ok_conn:
  assumes ok: "counters_ok cfg s" and mv: "conn_move c p s s'"
  shows "counters_ok cfg s'"
proof -
  have known: "phase s c \<noteq> Absent" "distinct (ids s)" "c \<in> set (ids s)"
    using ok mv by (auto simp: counters_ok_def conn_move_def)
  have "counted ps s' = counted ps s + in_ps ps p - in_ps ps (phase s c)" for ps
    using counted_set_phase [OF known(2,3), of ps p] mv
    by (simp add: in_ps_def conn_move_def counter_view_def counted_cong [of s' "set_phase c p s"])
  then show ?thesis
    using ok mv known by (auto simp: counters_ok_def conn_move_def counter_view_def in_ps_def)
qed

lemma counters_ok_accept:
  assumes ok: "counters_ok cfg s" and ev: "accept_step cfg ev s = Some s'"
  shows "counters_ok cfg s'"
proof -
  have phase: "counted ps (set_phase c p s) = counted ps s + in_ps ps p - in_ps ps (phase s c)"
    if "c \<in> pending (acceptor s)" for c p ps
    using that ok unfolding in_ps_def by (intro counted_set_phase) (auto simp: counters_ok_def)
  have new: "counted ps (s\<lparr>acceptor := a, ids := ids s @ [c]\<rparr>) = counted ps s + in_ps ps (phase s c)" for ps a c
    by (simp add: counted_def in_ps_def)
  show ?thesis
    using ev ok
    by (cases ev)
      (auto simp: counters_ok_def phase new pending_def busy_def waited_for_def in_ps_def
        split: if_splits acceptor.splits)
qed

lemma counters_ok_step: "counters_ok cfg s \<Longrightarrow> life_exec cfg k ev s = Some s' \<Longrightarrow> counters_ok cfg s'"
  unfolding life_exec_def
  by (auto split: option.splits dest: counters_ok_accept conn_view other_view shutdown_view
      intro: counters_ok_conn counters_ok_cong)

lemma live_counters: "live cfg k s0 s \<Longrightarrow> counters_ok cfg s"
  by (erule live_invariant [where P = "counters_ok cfg"]) (rule counters_ok_start, rule counters_ok_step)

lemma counted_zero: "counted ps s = 0 \<Longrightarrow> c \<in> set (ids s) \<Longrightarrow> phase s c \<notin> ps"
  by (auto simp: counted_def filter_empty_conv)

definition witness_server :: server where
  "witness_server = NewServer [] (NewHandler (NewCache witness_cfg) False)"

definition admit_run :: "conn_id \<Rightarrow> life_event list" where
  "admit_run c = [LoopCheck, AcceptConn c, QuitCheck, LimitCheck, Admit]"

definition serve_run :: "conn_id \<Rightarrow> life_event list" where
  "serve_run c = admit_run c @ [Register c, StartServing c, TopOfLoop c]"

lemmas run_defs = serve_run_def admit_run_def life_exec_def start_life_def set_phase_def UpdateActivity_def

lemma witness_run_serves:
  "\<exists>s. life_run (Server DefaultConfig) 600 (serve_run 7) (start_life witness_server) = Some s
     \<and> phase s 7 = Reading \<and> activeConn s = 1 \<and> ids s = [7] \<and> quit s = False \<and> shutdown s = Serving
     \<and> closers s = [7] \<and> monitors s = [7] \<and> due s = [] \<and> clock s = 0 \<and> lastActivity s 7 = 0
     \<and> wg s = 1 \<and> conns (srv s) 7 = NewConnection \<and> acceptor s = AtLoop"
  by (simp add: run_defs DefaultConfig_def wrap32_def witness_server_def NewServer_def upd_conn_def
      NewConnection_def IsClosed_def)


subsection \<open>Properties\<close>

text \<open>C23: The connection counter is exact, and the limit holds: in every interleaving activeConn is
  the number of connections between their admission and the end of their deferred clean-up, the
  wait group counts those that have registered and not yet left, and there are never more active
  connections than MaxConnections (as a 32-bit number) allows.\<close>

theorem connection_limit:
  assumes "live cfg idle_secs s0 s"
  shows "activeConn s = int (length (filter (\<lambda>c. phase s c \<in> {Spawned, Registered, AtTop, Reading, Ending}) (ids s)))
    \<and> wg s = int (length (filter (\<lambda>c. phase s c \<in> {Registered, AtTop, Reading, Ending, Leaving}) (ids s)))
    \<and> activeConn s \<le> max 0 (wrap32 (MaxConnections cfg))
    \<and> distinct (ids s) \<and> (\<forall>c. phase s c \<noteq> Absent \<longrightarrow> c \<in> set (ids s))"
  using live_counters [OF assms] by (simp add: counters_ok_def counted_def busy_def waited_for_def)

lemma connection_limit_witness:
  "\<exists>s. live (Server DefaultConfig) 600 witness_server s \<and> activeConn s = 1 \<and> activeConn s \<le> 50000"
proof -
  obtain s where run: "life_run (Server DefaultConfig) 600 (serve_run 7) (start_life witness_server) = Some s"
      and one: "activeConn s = 1"
    using witness_run_serves by blast
  from live_run [OF run live.start] have live: "live (Server DefaultConfig) 600 witness_server s" .
  with connection_limit [OF live] one show ?thesis by (auto simp: DefaultConfig_def wrap32_def)
qed

text \<open>A limit that does not fit 32 bits shuts everybody out: when the low 32 bits of
  MaxConnections are zero or a negative number, every connection is refused, although Validate
  accepts the value.\<close>

theorem wrapped_limit_refuses_all:
  assumes "wrap32 (MaxConnections cfg) \<le> 0" and "live cfg idle_secs s0 s"
  shows "phase s c \<in> {Absent, Refused}"
proof -
  let ?P = "\<lambda>s. (\<forall>c. phase s c \<in> {Absent, Refused}) \<and> activeConn s = 0 \<and> (\<forall>c. acceptor s \<noteq> Admitting c)"
  have "?P s"
    using assms(2)
  proof (rule live_invariant)
    show "?P (start_life s0)" by (simp add: start_life_def)
  next
    fix ev s s'
    assume P: "?P s" and ev: "life_exec cfg idle_secs ev s = Some s'"
    have "conn_step ev s = None" using conn_step_phase [of ev s] P by blast
    moreover have "?P s'" if "accept_step cfg ev s = Some s'"
      using that P assms(1) by (cases ev) (auto simp: set_phase_def split: if_splits acceptor.splits)
    moreover have "?P s'" if "counter_view s' = counter_view s"
      using that P by (auto simp: counter_view_def)
    ultimately show "?P s'"
      using ev by (auto simp: life_exec_def split: option.splits dest: other_view shutdown_view)
  qed
  then show ?thesis by blast
qed

definition many_connections :: Config where
  "many_connections = DefaultConfig\<lparr>Server := Server DefaultConfig\<lparr>MaxConnections := 2 ^ 31\<rparr>\<rparr>"

lemma wrapped_limit_refuses_all_witness:
  "Validate many_connections = None \<and>
   (\<exists>s. live (Server many_connections) 600 witness_server s \<and> phase s 7 = Refused \<and> phase s 8 \<in> {Absent, Refused})"
proof -
  let ?cfg = "Server many_connections"
  have neg: "wrap32 (MaxConnections ?cfg) \<le> 0" by (simp add: many_connections_def wrap32_def)
  obtain s where run: "life_run ?cfg 600 [LoopCheck, AcceptConn 7, QuitCheck, LimitCheck] (start_life witness_server) = Some s"
      and refused: "phase s 7 = Refused"
    by (simp add: run_defs many_connections_def wrap32_def)
  from live_run [OF run live.start] have "live ?cfg 600 witness_server s" .
  with wrapped_limit_refuses_all [OF neg this] refused
  have "\<exists>s. live ?cfg 600 witness_server s \<and> phase s 7 = Refused \<and> phase s 8 \<in> {Absent, Refused}" by blast
  moreover have "Validate many_connections = None"
    using and_pred_power [of 4] by (simp add: Validate_def many_connections_def DefaultConfig_def second_def minute_def hour_def)
  ultimately show ?thesis by blast
qed

text \<open>C27: Once the shutdown has reported that all connections finished, no connection reads or runs
  a request any more: none is in its read loop, and none gets into it.\<close>

theorem no_request_after_shutdown:
  assumes "live cfg idle_secs s0 s" and "shutdown s = Finished"
  shows "phase s c \<notin> {AtTop, Reading} \<and> life_exec cfg idle_secs (Request c envss v) s = None"
proof -
  let ?P = "\<lambda>s. counters_ok cfg s \<and> (shutdown s \<noteq> Serving \<longrightarrow> quit s)
      \<and> (shutdown s = Finished \<longrightarrow> (\<forall>c. phase s c \<notin> {AtTop, Reading}))"
  have "?P s"
    using assms(1)
  proof (rule live_invariant)
    show "?P (start_life s0)" using counters_ok_start by (simp add: start_life_def)
  next
    fix ev s s'
    assume P: "?P s" and ev: "life_exec cfg idle_secs ev s = Some s'"
    have none: "phase s c \<notin> {AtTop, Reading}" if "wg s = 0" for c
      using P that counted_zero [of waited_for s c]
      by (cases "phase s c") (auto simp: counters_ok_def waited_for_def)
    have ok: "counters_ok cfg s'" using P ev counters_ok_step by blast
    have "(shutdown s' \<noteq> Serving \<longrightarrow> quit s') \<and> (shutdown s' = Finished \<longrightarrow> (\<forall>c. phase s' c \<notin> {AtTop, Reading}))"
      using P ev none
      by (cases ev) (auto simp: exec_defs split: if_splits acceptor.splits outcome.splits)
    with ok show "?P s'" by blast
  qed
  with assms(2) have "phase s c \<notin> {AtTop, Reading}" by blast
  then show ?thesis by (simp add: life_exec_def)
qed

definition stop_run :: "conn_id \<Rightarrow> life_event list" where
  "stop_run c = [ReadError c, Deferred c id, WgDone c, CloseQuit, CloseListener, WaitDone]"

lemma no_request_after_shutdown_witness:
  "\<exists>s. live (Server DefaultConfig) 600 witness_server s \<and> shutdown s = Finished \<and> phase s 7 = Gone
     \<and> phase s 8 \<notin> {AtTop, Reading}"
proof -
  obtain s where s: "life_run (Server DefaultConfig) 600 (serve_run 7) (start_life witness_server) = Some s"
      "phase s 7 = Reading" "wg s = 1" "shutdown s = Serving"
    using witness_run_serves by blast
  obtain s' where run: "life_run (Server DefaultConfig) 600 (stop_run 7) s = Some s'"
      and s': "shutdown s' = Finished" "phase s' 7 = Gone"
    using s(2-4) by (simp add: stop_run_def run_defs)
  have "live (Server DefaultConfig) 600 witness_server s'"
    by (rule live_run [OF run live_run [OF s(1) live.start]])
  with no_request_after_shutdown [OF this s'(1), of 8] s' show ?thesis by blast
qed

text \<open>The shutdown may report that all connections finished while one has not begun: the
  goroutine of a connection adds itself to the wait group only when it runs, so a connection that
  was admitted just before the shutdown is not waited for.\<close>

theorem shutdown_misses_connection:
  assumes "0 < wrap32 (MaxConnections cfg)"
  shows "\<exists>s. live cfg idle_secs s0 s \<and> shutdown s = Finished \<and> phase s c = Spawned \<and> activeConn s = 1
    \<and> life_exec cfg idle_secs (Register c) s \<noteq> None"
proof -
  obtain s where run: "life_run cfg idle_secs (admit_run c @ [CloseQuit, CloseListener, WaitDone]) (start_life s0) = Some s"
      and s: "shutdown s = Finished" "phase s c = Spawned" "activeConn s = 1"
    using assms by (simp add: run_defs)
  from live_run [OF run live.start] have "live cfg idle_secs s0 s" .
  moreover have "life_exec cfg idle_secs (Register c) s \<noteq> None" using s by (simp add: life_exec_def)
  ultimately show ?thesis using s by blast
qed

lemma shutdown_misses_connection_witness:
  "\<exists>s. live (Server DefaultConfig) 600 witness_server s \<and> shutdown s = Finished \<and> phase s 3 = Spawned"
proof -
  have "0 < wrap32 (MaxConnections (Server DefaultConfig))" by (simp add: DefaultConfig_def wrap32_def)
  from shutdown_misses_connection [OF this, of 600 witness_server 3] show ?thesis by blast
qed

subsection \<open>A shutdown drains\<close>

fun phase_rank :: "phase \<Rightarrow> nat" where
  "phase_rank Spawned = 6" | "phase_rank Registered = 5" | "phase_rank Reading = 4" | "phase_rank AtTop = 3"
| "phase_rank Ending = 2" | "phase_rank Leaving = 1" | "phase_rank _ = 0"

fun acceptor_rank :: "acceptor \<Rightarrow> nat" where
  "acceptor_rank Stopped = 0" | "acceptor_rank (Accepted c) = 2" | "acceptor_rank (Checked c) = 9"
| "acceptor_rank (Admitting c) = 8" | "acceptor_rank _ = 1"

text \<open>The steps that are left to do.\<close>

definition drain :: "life \<Rightarrow> nat" where
  "drain s = acceptor_rank (acceptor s) + sum_list (map (\<lambda>c. phase_rank (phase s c)) (ids s)) + length (closers s)"

text \<open>The steps of the accept loop and of the connections, and those of them that need no client.\<close>

fun work :: "life_event \<Rightarrow> bool" where
  "work (CloseWrongPassword c) = False" | "work (IdleCheck c) = False" | "work (CleanupPass now it) = False"
| "work Tick = False" | "work CloseQuit = False" | "work CloseListener = False" | "work WaitDone = False"
| "work WaitTimeout = False" | "work _ = True"

fun own :: "life_event \<Rightarrow> bool" where
  "own (Request c envss v) = False" | "own (ReadError c) = False" | "own (AcceptConn c) = False"
| "own ev = work ev"

definition quitting :: "ServerConfig \<Rightarrow> life \<Rightarrow> bool" where
  "quitting cfg s \<longleftrightarrow> counters_ok cfg s \<and> quit s \<and> listener_closed s"

lemma rank_sum_set:
  assumes "distinct xs" and "c \<in> set xs"
  shows "sum_list (map (\<lambda>d. phase_rank ((f(c := p)) d)) xs) + phase_rank (f c)
    = sum_list (map (\<lambda>d. phase_rank (f d)) xs) + phase_rank p"
proof -
  obtain ys zs where xs: "xs = ys @ c # zs" using assms(2) by (metis split_list)
  then have "c \<notin> set ys" "c \<notin> set zs" using assms(1) by auto
  then have "map (\<lambda>d. phase_rank ((f(c := p)) d)) ys = map (\<lambda>d. phase_rank (f d)) ys"
    "map (\<lambda>d. phase_rank ((f(c := p)) d)) zs = map (\<lambda>d. phase_rank (f d)) zs" by auto
  then show ?thesis by (simp add: xs fun_upd_same del: fun_upd_apply map_eq_conv)
qed

lemma drain_accept:
  assumes q: "quitting cfg s" and ev: "accept_step cfg ev s = Some s'"
  shows "quit s' \<and> listener_closed s' \<and> drain s' < drain s"
proof -
  have d: "distinct (ids s)" and p: "\<And>c. c \<in> pending (acceptor s) \<Longrightarrow> c \<in> set (ids s) \<and> phase s c = Absent"
    using q by (auto simp: quitting_def counters_ok_def)
  have "sum_list (map (\<lambda>d. phase_rank (((phase s)(c := x)) d)) (ids s))
      = sum_list (map (\<lambda>d. phase_rank (phase s d)) (ids s)) + phase_rank x" if "c \<in> pending (acceptor s)" for c x
    using rank_sum_set [OF d, of c "phase s" x] p [OF that] by simp
  then show ?thesis
    using q ev by (cases ev) (auto simp: quitting_def drain_def pending_def split: if_splits acceptor.splits)
qed

lemma drain_conn:
  assumes q: "quitting cfg s" and ev: "conn_step ev s = Some s'"
  shows "quit s' \<and> listener_closed s' \<and> drain s' < drain s"
proof -
  let ?c = "conn_of ev"
  have mv: "conn_move ?c (phase s' ?c) s s'" by (rule conn_view [OF ev])
  then have "?c \<in> set (ids s)" "distinct (ids s)"
    using q by (auto simp: quitting_def counters_ok_def conn_move_def)
  from rank_sum_set [OF this(2,1), of "phase s" "phase s' ?c"] mv
  have sum: "sum_list (map (\<lambda>d. phase_rank (phase s' d)) (ids s)) + phase_rank (phase s ?c)
      = sum_list (map (\<lambda>d. phase_rank (phase s d)) (ids s)) + phase_rank (phase s' ?c)"
    unfolding conn_move_def counter_view_def by (metis prod.inject)
  have "phase_rank (phase s' ?c) < phase_rank (phase s ?c)" "closers s' = closers s" "quit s' = quit s"
      "listener_closed s' = listener_closed s"
    using q ev by (cases ev; auto simp: quitting_def UpdateActivity_def split: if_splits outcome.splits)+
  with sum mv q show ?thesis by (simp add: drain_def conn_move_def counter_view_def quitting_def)
qed

lemma drain_other:
  assumes q: "quitting cfg s" and ev: "other_step k ev s = Some s'"
  shows "quit s' \<and> listener_closed s' \<and> drain s' \<le> drain s \<and> (work ev \<longrightarrow> drain s' < drain s)"
proof -
  have less: "length (removeAll c xs) < length xs" if "c \<in> set xs" for c and xs :: "conn_id list"
    using that by (simp add: length_removeAll_less)
  show ?thesis
    using q ev other_view [OF ev]
    by (cases ev)
      (auto simp: quitting_def drain_def counter_view_def monitor_step_def close_conn_def Let_def less split: if_splits)
qed

lemma drain_shutdown:
  assumes q: "quitting cfg s" and ev: "shutdown_step ev s = Some s'"
  shows "quit s' \<and> listener_closed s' \<and> drain s' = drain s \<and> \<not> work ev"
  using assms by (cases ev) (auto simp: quitting_def drain_def split: if_splits)

lemma drain_step:
  assumes q: "quitting cfg s" and ev: "life_exec cfg k ev s = Some s'"
  shows "quitting cfg s' \<and> drain s' \<le> drain s \<and> (work ev \<longrightarrow> drain s' < drain s)"
proof -
  have "counters_ok cfg s'" using q ev counters_ok_step by (auto simp: quitting_def)
  moreover have "quit s' \<and> listener_closed s' \<and> drain s' \<le> drain s \<and> (work ev \<longrightarrow> drain s' < drain s)"
    using ev unfolding life_exec_def
    by (auto split: option.splits dest: drain_accept [OF q] drain_conn [OF q] drain_other [OF q] drain_shutdown [OF q])
  ultimately show ?thesis by (simp add: quitting_def)
qed

lemma drain_run:
  "life_run cfg k evs s = Some s' \<Longrightarrow> quitting cfg s \<Longrightarrow>
     quitting cfg s' \<and> length (filter work evs) + drain s' \<le> drain s"
proof (induction evs arbitrary: s)
  case (Cons ev evs)
  then obtain s1 where s1: "life_exec cfg k ev s = Some s1" "life_run cfg k evs s1 = Some s'"
    by (auto split: option.splits)
  from drain_step [OF Cons.prems(2) s1(1)] Cons.IH [OF s1(2)] show ?case by auto
qed simp

lemma drain_progress:
  assumes q: "quitting cfg s" and "drain s \<noteq> 0"
  shows "\<exists>ev s'. own ev \<and> life_exec cfg k ev s = Some s'"
proof -
  have quit: "quit s" "listener_closed s" using q by (simp_all add: quitting_def)
  consider "acceptor s \<noteq> Stopped" | c where "c \<in> set (closers s)"
    | c where "closers s = []" "phase_rank (phase s c) \<noteq> 0"
    using assms(2) by (cases "acceptor s = Stopped"; cases "closers s") (auto simp: drain_def)
  then show ?thesis
  proof cases
    case 1
    then show ?thesis
    proof (cases "acceptor s")
      case AtLoop
      then show ?thesis by (intro exI [of _ LoopCheck]) (simp add: life_exec_def)
    next
      case Accepting
      then show ?thesis by (intro exI [of _ AcceptError]) (simp add: life_exec_def)
    next
      case (Accepted c)
      then show ?thesis by (intro exI [of _ QuitCheck]) (simp add: life_exec_def quit)
    next
      case (Checked c)
      then show ?thesis by (intro exI [of _ LimitCheck]) (simp add: life_exec_def)
    next
      case (Admitting c)
      then show ?thesis by (intro exI [of _ Admit]) (simp add: life_exec_def)
    qed simp
  next
    case 2
    then show ?thesis by (intro exI [of _ "CloseOnQuit c"]) (simp add: life_exec_def quit)
  next
    case 3
    then show ?thesis
    proof (cases "phase s c")
      case Spawned
      then show ?thesis by (intro exI [of _ "Register c"]) (simp add: life_exec_def)
    next
      case Registered
      then show ?thesis by (intro exI [of _ "StartServing c"]) (simp add: life_exec_def quit)
    next
      case AtTop
      then show ?thesis by (intro exI [of _ "TopOfLoop c"]) (simp add: life_exec_def quit)
    next
      case Reading
      then show ?thesis using 3(1) by (intro exI [of _ "Interrupt c"]) (simp add: life_exec_def)
    next
      case Ending
      then show ?thesis by (intro exI [of _ "Deferred c id"]) (simp add: life_exec_def)
    next
      case Leaving
      then show ?thesis by (intro exI [of _ "WgDone c"]) (simp add: life_exec_def)
    qed (use 3(2) in simp_all)
  qed
qed

lemma own_work: "own ev \<Longrightarrow> work ev"
  by (cases ev) auto

lemma drains:
  "quitting cfg s \<Longrightarrow> \<exists>evs s'. life_run cfg k evs s = Some s' \<and> list_all own evs \<and> quitting cfg s' \<and> drain s' = 0"
proof (induction "drain s" arbitrary: s rule: less_induct)
  case less
  show ?case
  proof (cases "drain s = 0")
    case True
    with less.prems show ?thesis by (intro exI [of _ "[]"]) simp
  next
    case False
    then obtain ev s1 where ev: "own ev" "life_exec cfg k ev s = Some s1"
      using drain_progress [OF less.prems] by blast
    with drain_step [OF less.prems ev(2)] own_work have "quitting cfg s1" "drain s1 < drain s" by auto
    with less.hyps obtain evs s' where "life_run cfg k evs s1 = Some s'" "list_all own evs" "quitting cfg s'" "drain s' = 0"
      by blast
    with ev show ?thesis by (intro exI [of _ "ev # evs"]) simp
  qed
qed

lemma drained:
  assumes "quitting cfg s" and "drain s = 0"
  shows "acceptor s = Stopped" "wg s = 0" "activeConn s = 0" "phase s c \<in> {Absent, Refused, Gone}"
proof -
  have zero: "phase_rank (phase s c) = 0" if "c \<in> set (ids s)" for c using assms(2) that by (simp add: drain_def)
  show "acceptor s = Stopped" using assms(2) by (cases "acceptor s") (auto simp: drain_def)
  have no: "phase s c \<notin> busy \<union> waited_for" if "c \<in> set (ids s)" for c
    using zero [OF that] by (cases "phase s c") (auto simp: busy_def waited_for_def)
  then show "wg s = 0" "activeConn s = 0"
    using assms(1) by (auto simp: quitting_def counters_ok_def counted_def filter_empty_conv)
  show "phase s c \<in> {Absent, Refused, Gone}"
    using no [of c] assms(1) by (cases "phase s c") (auto simp: quitting_def counters_ok_def busy_def waited_for_def)
qed

text \<open>C22: A shutdown drains: after the quit channel and the listener are closed, the accept loop and
  the connections together take at most \<open>drain s\<close> more steps, and whatever has happened since,
  their own steps (without any help from a client) can always bring the server to where the
  accept loop has stopped, every connection is gone and the wait group is empty.\<close>

theorem shutdown_drains:
  assumes "live cfg idle_secs s0 s" and "quit s" and "listener_closed s"
    and "life_run cfg idle_secs evs s = Some s1"
  shows "length (filter work evs) \<le> drain s
    \<and> (\<exists>evs2 s2. life_run cfg idle_secs evs2 s1 = Some s2 \<and> list_all own evs2
        \<and> acceptor s2 = Stopped \<and> wg s2 = 0 \<and> activeConn s2 = 0
        \<and> (\<forall>c. phase s2 c \<in> {Absent, Refused, Gone}))"
proof -
  have "quitting cfg s" using live_counters [OF assms(1)] assms(2,3) by (simp add: quitting_def)
  from drain_run [OF assms(4) this] have "quitting cfg s1" "length (filter work evs) \<le> drain s" by simp_all
  with drains [of cfg s1 idle_secs] drained [of cfg] show ?thesis by blast
qed

lemma shutdown_drains_witness:
  "\<exists>s evs2 s2. live (Server DefaultConfig) 600 witness_server s \<and> phase s 7 = Reading
     \<and> life_run (Server DefaultConfig) 600 evs2 s = Some s2 \<and> list_all own evs2 \<and> wg s2 = 0"
proof -
  let ?cfg = "Server DefaultConfig"
  obtain s where s: "life_run ?cfg 600 (serve_run 7) (start_life witness_server) = Some s"
      "phase s 7 = Reading" "shutdown s = Serving"
    using witness_run_serves by blast
  obtain s' where run: "life_run ?cfg 600 [CloseQuit, CloseListener] s = Some s'"
      and s': "quit s'" "listener_closed s'" "phase s' 7 = Reading"
    using s(2,3) by (simp add: life_exec_def)
  have live: "live ?cfg 600 witness_server s'" by (rule live_run [OF run live_run [OF s(1) live.start]])
  have "life_run ?cfg 600 [] s' = Some s'" by simp
  from shutdown_drains [OF live s'(1,2) this] live s'(3) show ?thesis by blast
qed

subsection \<open>Idle connections\<close>

text \<open>No request closes or reopens a connection.\<close>

definition shut :: "server \<Rightarrow> conn_id \<Rightarrow> bool" where
  "shut s = (\<lambda>c. closed (conns s c))"

lemma shut_upd: "(\<And>x. closed (f x) = closed x) \<Longrightarrow> shut (upd_conn c f s) = shut s"
  by (simp add: shut_def fun_eq_iff)

lemma shut_command: "processCommand env v cmd args s = Ret (r, s') \<Longrightarrow> shut s' = shut s"
  using processCommand_effect [of env v cmd args s r s']
  by (auto simp: shut_def mark_keys_eq fun_eq_iff split: if_splits)

lemma shut_exec_loop: "exec_loop envs i vs s = Ret (rs, s') \<Longrightarrow> shut s' = shut s"
  by (induction vs arbitrary: i s rs) (auto split: outcome.splits prod.splits dest!: shut_command)

lemma shut_watch: "shut (snd (handleWatch c args s)) = shut s"
proof -
  have "shut (foldl (\<lambda>s key. addWatcher key c (upd_conn c (WatchKey key) s)) s args) = shut s"
    by (induction args arbitrary: s) (simp_all add: shut_def fun_eq_iff)
  then show ?thesis by (simp add: handleWatch_def)
qed

lemma shut_tx:
  assumes "handleTxCmd envs c v s = Ret (r, s')"
  shows "shut s' = shut s"
proof -
  have exec: "shut s2 = shut s" if "handleExec envs c args s = Ret (r2, s2)" for args r2 s2
    using that by (auto simp: handleExec_def Let_def shut_upd dest!: shut_exec_loop split: if_splits outcome.splits)
  have "shut (snd (handleMulti c args s)) = shut s" "shut (snd (handleUnwatch c args s)) = shut s"
    "shut (snd (handleDiscard c args s)) = shut s" for args
    by (simp_all add: handleMulti_def handleUnwatch_def handleDiscard_def shut_upd)
  then show ?thesis
    using assms exec shut_watch [of c _ s]
    by (auto simp: handleTxCmd_def case_prod_unfold Let_def shut_upd split: if_splits outcome.splits)
qed

lemma shut_request: "processCommandWithTx envs c v s = Ret (r, s') \<Longrightarrow> shut s' = shut s"
  by (auto simp: processCommandWithTx_def case_prod_unfold shut_upd
      dest!: shut_tx shut_command split: if_splits outcome.splits option.splits)

lemma shut_pipeline: "processPipeline envss j c vs s = Ret (rs, s') \<Longrightarrow> shut s' = shut s"
  by (induction vs arbitrary: j s rs) (auto split: outcome.splits prod.splits dest!: shut_request)

lemma shut_value: "handle_value envss c v s = Ret (out, s') \<Longrightarrow> shut s' = shut s"
  by (auto simp: handle_value_def split: if_splits outcome.splits dest: shut_pipeline shut_request)

lemma shut_end: "shut (end_connection it c s) = (shut s)(c := True)"
  by (simp add: end_connection_def cleanupWatchers_fold shut_def removeWatcherByKeys_other fun_eq_iff)

text \<open>A connection in its loop that is not closed has a monitor, and the monitor has seen every
  second but the last one.\<close>

definition idle_ok :: "int \<Rightarrow> life \<Rightarrow> conn_id \<Rightarrow> bool" where
  "idle_ok k s c \<longleftrightarrow> phase s c \<in> {AtTop, Reading} \<longrightarrow> \<not> shut (srv s) c \<longrightarrow>
       c \<in> set (monitors s) \<and>
       clock s - lastActivity s c \<le> max k 0 + (if c \<in> set (due s) then 1 else 0)"

lemma idle_ok_conn:
  assumes ok: "idle_ok k s c" and ev: "conn_step ev s = Some s'"
  shows "idle_ok k s' c"
proof (cases ev)
  case (Request d envss v)
  then obtain out srv' where r: "handle_value envss d v (srv s) = Ret (out, srv')" "phase s d = Reading"
      "s' = UpdateActivity d (set_phase d AtTop s)\<lparr>srv := srv'\<rparr>"
    using ev by (auto split: if_splits outcome.splits)
  with ok shut_value [OF r(1)] show ?thesis by (cases "c = d") (auto simp: idle_ok_def UpdateActivity_def)
next
  case (Register d)
  with ev ok show ?thesis by (cases "c = d") (auto simp: idle_ok_def shut_def split: if_splits)
next
  case (StartServing d)
  with ev ok show ?thesis by (cases "c = d") (auto simp: idle_ok_def UpdateActivity_def split: if_splits)
next
  case (Deferred d it)
  with ev ok show ?thesis by (cases "c = d") (auto simp: idle_ok_def shut_end split: if_splits)
next
  case (TopOfLoop d)
  with ev ok show ?thesis by (cases "c = d") (auto simp: idle_ok_def split: if_splits)
qed (use ev ok in \<open>auto simp: idle_ok_def split: if_splits\<close>)

lemma idle_ok_other:
  assumes ok: "idle_ok k s c" and ev: "other_step k ev s = Some s'"
  shows "idle_ok k s' c"
proof (cases ev)
  case (IdleCheck d)
  with ev have s': "s' = monitor_step k d s" by (simp split: if_splits)
  show ?thesis
  proof (cases "c = d")
    case True
    with ok show ?thesis unfolding s'
      by (auto simp: idle_ok_def monitor_step_def close_conn_def IsClosed_def shut_def Let_def split: if_splits)
  next
    case False
    then have "c \<in> set (remove1 d xs) \<longleftrightarrow> c \<in> set xs" for xs by simp
    with False ok show ?thesis unfolding s'
      by (simp add: idle_ok_def monitor_step_def close_conn_def shut_def Let_def)
  qed
qed (use ev ok in \<open>auto simp: idle_ok_def close_conn_def shut_def split: if_splits\<close>)

lemma idle_ok_accept:
  assumes ok: "idle_ok k s c" and ev: "accept_step cfg ev s = Some s'"
  shows "idle_ok k s' c"
proof -
  have "srv s' = srv s \<and> monitors s' = monitors s \<and> due s' = due s \<and> clock s' = clock s
      \<and> lastActivity s' = lastActivity s \<and> (phase s' c \<in> {AtTop, Reading} \<longrightarrow> phase s' c = phase s c)"
    using ev by (cases ev) (auto split: if_splits acceptor.splits)
  with ok show ?thesis by (simp add: idle_ok_def)
qed

lemma idle_ok_shutdown:
  assumes ok: "idle_ok k s c" and ev: "shutdown_step ev s = Some s'"
  shows "idle_ok k s' c"
  using ev ok by (cases ev) (auto simp: idle_ok_def split: if_splits)

text \<open>C28: An idle connection is closed in time: at every moment a connection that is in its read loop
  and not closed has been active within the last IdleTimeout (in whole seconds) plus one.\<close>

theorem idle_connection_closed:
  assumes "live cfg idle_secs s0 s" and "phase s c \<in> {AtTop, Reading}" and "\<not> closed (conns (srv s) c)"
  shows "clock s - lastActivity s c \<le> max idle_secs 0 + 1"
proof -
  have "idle_ok idle_secs s c"
    using assms(1)
  proof (rule live_invariant)
    show "idle_ok idle_secs (start_life s0) c" by (simp add: idle_ok_def start_life_def)
  next
    fix ev s s'
    assume "idle_ok idle_secs s c" "life_exec cfg idle_secs ev s = Some s'"
    then show "idle_ok idle_secs s' c"
      unfolding life_exec_def
      by (auto split: option.splits dest: idle_ok_accept idle_ok_conn idle_ok_other idle_ok_shutdown)
  qed
  with assms(2,3) show ?thesis by (auto simp: idle_ok_def shut_def split: if_splits)
qed

lemma idle_connection_closed_witness:
  "\<exists>s. live (Server DefaultConfig) 600 witness_server s \<and> phase s 7 = Reading \<and> clock s = 2
     \<and> clock s - lastActivity s 7 \<le> 601"
proof -
  let ?cfg = "Server DefaultConfig"
  obtain s where s: "life_run ?cfg 600 (serve_run 7) (start_life witness_server) = Some s"
      "phase s 7 = Reading" "monitors s = [7]" "due s = []" "clock s = 0" "lastActivity s 7 = 0"
      "conns (srv s) 7 = NewConnection"
    using witness_run_serves by blast
  obtain s' where run: "life_run ?cfg 600 [Tick, IdleCheck 7, Tick] s = Some s'"
      and s': "phase s' 7 = Reading" "clock s' = 2" "\<not> closed (conns (srv s') 7)"
    using s(2-7) by (simp add: life_exec_def monitor_step_def IsClosed_def NewConnection_def Let_def)
  have "live ?cfg 600 witness_server s'" by (rule live_run [OF run live_run [OF s(1) live.start]])
  from idle_connection_closed [OF this _ s'(3)] this s' show ?thesis by auto
qed

subsection \<open>A goroutine leak\<close>

text \<open>Every connection that has been served leaves a goroutine behind until the shutdown: the one
  that waits for the quit channel does not end with its connection.\<close>

theorem closers_leak:
  assumes "live cfg idle_secs s0 s" and "\<not> quit s" and "phase s c \<in> {Leaving, Gone}"
  shows "c \<in> set (closers s)"
proof -
  let ?P = "\<lambda>s. \<not> quit s \<longrightarrow> phase s c \<notin> {Absent, Refused, Spawned, Registered} \<longrightarrow> c \<in> set (closers s)"
  have "?P s"
    using assms(1)
  proof (rule live_invariant)
    show "?P (start_life s0)" by (simp add: start_life_def)
  next
    fix ev s s'
    assume "?P s" "life_exec cfg idle_secs ev s = Some s'"
    then show "?P s'"
      by (cases ev) (auto simp: exec_defs split: if_splits acceptor.splits outcome.splits)
  qed
  with assms(2,3) show ?thesis by auto
qed

lemma closers_leak_witness:
  "\<exists>s. live (Server DefaultConfig) 600 witness_server s \<and> activeConn s = 0 \<and> phase s 7 = Gone \<and> 7 \<in> set (closers s)"
proof -
  let ?cfg = "Server DefaultConfig"
  obtain s where s: "life_run ?cfg 600 (serve_run 7) (start_life witness_server) = Some s"
      "phase s 7 = Reading" "activeConn s = 1" "quit s = False"
    using witness_run_serves by blast
  obtain s' where run: "life_run ?cfg 600 [ReadError 7, Deferred 7 id, WgDone 7] s = Some s'"
      and s': "phase s' 7 = Gone" "activeConn s' = 0" "\<not> quit s'"
    using s(2-4) by (simp add: life_exec_def)
  have "live ?cfg 600 witness_server s'" by (rule live_run [OF run live_run [OF s(1) live.start]])
  with closers_leak [OF this s'(3), of 7] s' show ?thesis by blast
qed

end
