(* ===== verification/Startup.thy ===== *)
theory Startup
  imports ManagerProps ConfigProps LifecycleProps
begin

section \<open>From the files on disk to the running server\<close>

text \<open>
  Models the start of the program in \<^verbatim>\<open>cmd/main.go\<close>: the configuration is read, the cache made,
  the persistence manager loads what it finds and the server gets the handlers.  What \<open>Validate\<close>
  reports is only printed.  The lemmas show that a start that returns leaves a well-formed cache
  whatever bytes the configuration, the log and the snapshots hold, and that every interleaving of
  the running server keeps it so.
\<close>

definition boot ::
    "(string \<Rightarrow> string) \<Rightarrow> (string \<Rightarrow> int \<Rightarrow> int) \<Rightarrow> (string list \<Rightarrow> string) \<Rightarrow> os_env \<Rightarrow> (string \<Rightarrow> bool) \<Rightarrow> string
       \<Rightarrow> load_world \<Rightarrow> files \<Rightarrow> (Config \<times> manager \<times> files \<times> server) outcome" where
  "boot uni frac join os exists flag w f =
     (let cfg = startup_config uni frac join os exists f flag;
          cache = NewCache (Engine cfg);
          persistence = NewManager (Persistence cfg)
      in case Manager_Start w f persistence cache of
           Panic \<Rightarrow> Panic
         | Ret (m, f', cache') \<Rightarrow>
             Ret (cfg, m, f', NewServer (RequirePass (Server cfg)) (NewHandler cache' True)))"

subsection \<open>Loading keeps the cache well formed\<close>

lemma LRU_Add_inv: "lru_ok l \<Longrightarrow> lru_ok (LRU_Add k i l)"
  using lru.inv_Add [of l k i] by simp

lemma Shard_Restore_ok: "shard_ok lru_ok s \<Longrightarrow> shard_ok lru_ok (Shard_Restore lru_evictor it its s)"
proof -
  have "lru_ok (foldl (\<lambda>e (k, i). LRU_Add k i e) l xs)" if "lru_ok l" for l xs
    using that by (induction xs arbitrary: l) (auto simp: LRU_Add_inv)
  then show "shard_ok lru_ok s \<Longrightarrow> shard_ok lru_ok (Shard_Restore lru_evictor it its s)"
    by (simp add: Shard_Restore_def shard_ok_evictor shard_ok_inv)
qed

lemma Cache_Restore_ok:
  assumes "cache_ok lru_ok c" and "Cache_Restore it sid its c = Ret c'"
  shows "cache_ok lru_ok c'"
proof -
  have sid: "0 \<le> sid" "sid < int (length (shards c))"
    and c': "c' = c\<lparr>shards := (shards c)[nat sid := Shard_Restore lru_evictor it its (shards c ! nat sid)]\<rparr>"
    using assms(2) by (auto simp: Cache_Restore_def Cache_GetShard_def split: if_splits)
  then have "shard_ok lru_ok (Shard_Restore lru_evictor it its (shards c ! nat sid))"
    using assms(1) by (intro Shard_Restore_ok) (simp add: cache_ok_def)
  then show ?thesis
    using assms(1) set_update_subset_insert [of "shards c" "nat sid"]
    unfolding c' by (fastforce simp: cache_ok_def cache_size_ok_def)
qed

lemma load_shards_ok: "load_shards E r s c = Ret (e, c') \<Longrightarrow> cache_ok lru_ok c \<Longrightarrow> cache_ok lru_ok c'"
proof (induction E r s c rule: load_shards.induct)
  case (1 E r s c)
  show ?case
    using 1(2,3) 1(1) Cache_Restore_ok
    by (subst (asm) load_shards.simps)
      (auto split: if_splits option.splits outcome.splits sum.splits prod.splits)
qed

lemma RDB_Load_ok: "RDB_Load E cfg f c = Ret (e, c') \<Longrightarrow> cache_ok lru_ok c \<Longrightarrow> cache_ok lru_ok c'"
  by (auto simp: RDB_Load_def rdb_parse_def dest: load_shards_ok
      split: if_splits option.splits list.splits)

lemma restore_shards_ok: "restore_shards E r rs c = Ret c' \<Longrightarrow> cache_ok lru_ok c \<Longrightarrow> cache_ok lru_ok c'"
  by (induction E r rs c rule: restore_shards.induct) (auto dest: Cache_Restore_ok split: outcome.splits)

lemma JSON_Load_ok: "JSON_Load E un cfg f c = Ret (e, c') \<Longrightarrow> cache_ok lru_ok c \<Longrightarrow> cache_ok lru_ok c'"
  by (auto simp: JSON_Load_def restoreData_def dest: restore_shards_ok
      split: if_splits option.splits outcome.splits)

lemma replay_containers_ok:
  assumes ok: "cache_ok lru_ok c"
  shows "cache_ok lru_ok (snd (replay_hash cmd args c))" "cache_ok lru_ok (snd (replay_list cmd args c))"
    "cache_ok lru_ok (snd (replay_set cmd args c))" "cache_ok lru_ok (snd (replay_sorted_set env cmd args c))"
proof -
  note facts = ok Cache_or_empty_ok [OF ok] Cache_get_ok [OF ok]
  note simps = Let_def Cache_GetOrCreate_eqs Cache_put_containers_ok NewHash_def NewSet_def NewSortedSet_def
    hash.put_all_ok hash.del_all_ok zset.del_all_ok zadd_loop_ok Set_Add_put_all Set_Remove_def
    goset.put_all_ok goset.del_all_ok
  show "cache_ok lru_ok (snd (replay_hash cmd args c))" "cache_ok lru_ok (snd (replay_list cmd args c))"
    "cache_ok lru_ok (snd (replay_set cmd args c))"
    using facts by (auto simp: replay_hash_def replay_list_def replay_set_def simps split: option.split)
  show "cache_ok lru_ok (snd (replay_sorted_set env cmd args c))"
    using facts by (auto simp: replay_sorted_set_def simps case_prod_unfold split: option.split)
qed

lemma replayCommand_ok: "cache_ok lru_ok c \<Longrightarrow> cache_ok lru_ok (snd (replayCommand env v c))"
proof -
  assume ok: "cache_ok lru_ok c"
  have "cache_ok lru_ok (snd (replay_strings env cmd args c))" "cache_ok lru_ok (snd (replay_batch env cmd args c))" for cmd args
    using ok by (auto simp: replay_strings_def replay_batch_def lru.Cache_Set_ok mset_loop_ok
        count_delete_ok simp flip: count_loop_snd)
  with replay_containers_ok [OF ok] ok show ?thesis
    by (simp add: replayCommand_def replay_cmd_def)
qed

lemma load_loop_ok: "load_loop envs n s k c = Ret (j, c') \<Longrightarrow> cache_ok lru_ok c \<Longrightarrow> cache_ok lru_ok c'"
proof (induction envs n s k c rule: load_loop.induct)
  case (1 envs n s k c)
  show ?case
  proof (cases "resp_Read 0 s")
    case (Got v rest)
    obtain ok c1 where r: "replayCommand (envs n) v c = (ok, c1)" by force
    have "cache_ok lru_ok c1" using replayCommand_ok [OF 1(3), of "envs n" v] r by simp
    moreover have "load_loop envs (n + 1) rest (if ok then k + 1 else k) c1 = Ret (j, c')"
      using 1(2) by (simp add: load_loop.simps [of envs n s] Got r)
    ultimately show ?thesis using 1(1) [OF Got r [symmetric]] by blast
  qed (use 1(2,3) in \<open>simp_all add: load_loop.simps [of envs n s]\<close>)
qed

lemma AOF_Load_ok: "AOF_Load envs f c = Ret (b, c') \<Longrightarrow> cache_ok lru_ok c \<Longrightarrow> cache_ok lru_ok c'"
  by (auto simp: AOF_Load_def Load_def dest: load_loop_ok split: option.splits outcome.splits)

lemma loadData_ok: "loadData w f m c = Ret c' \<Longrightarrow> cache_ok lru_ok c \<Longrightarrow> cache_ok lru_ok c'"
  unfolding loadData_def Let_def
  by (auto split: if_splits outcome.splits bool.splits option.splits dest!: AOF_Load_ok RDB_Load_ok JSON_Load_ok)

lemma Manager_Start_ok: "Manager_Start w f m c = Ret (m', f', c') \<Longrightarrow> cache_ok lru_ok c \<Longrightarrow> cache_ok lru_ok c'"
  by (auto simp: Manager_Start_def Let_def dest: loadData_ok split: outcome.splits if_splits option.splits)

subsection \<open>Properties\<close>

text \<open>C1: The server's invariant, from start to end: whatever the configuration file, the log and the
  snapshots hold, if the start returns then every state that any interleaving of connections, idle
  monitors, clean-up passes and the shutdown reaches has a well-formed cache (the LRU's list, map
  and accounting agree, and its capacity holds) and complete watcher lists (every open connection
  that watches a key and is not dirty is registered for it).\<close>

theorem boot_invariant:
  assumes "boot uni frac join os exists flag w f = Ret (cfg, m, f', s0)"
    and "live (Server cfg) idle_secs s0 s"
  shows "server_ok (srv s)"
proof -
  let ?cfg = "startup_config uni frac join os exists f flag"
  obtain c where start: "Manager_Start w f (NewManager (Persistence ?cfg)) (NewCache (Engine ?cfg)) = Ret (m, f', c)"
      and s0: "s0 = NewServer (RequirePass (Server ?cfg)) (NewHandler c True)"
    using assms(1) by (auto simp: boot_def Let_def split: outcome.splits)
  have "cache_ok lru_ok c" by (rule Manager_Start_ok [OF start NewCache_ok])
  moreover have "server_ok (srv s)" if "cache_ok lru_ok c"
    using assms(2)
  proof (rule live_invariant)
    show "server_ok (srv (start_life s0))"
      using that by (simp add: start_life_def s0 NewServer_ok NewHandler_def)
  next
    fix ev x x'
    assume "server_ok (srv x)" "life_exec (Server cfg) idle_secs ev x = Some x'"
    then show "server_ok (srv x')" using live_step_ok by blast
  qed
  ultimately show ?thesis by blast
qed

text \<open>The start of a server without any file.\<close>

definition no_files :: files where
  "no_files = (\<lambda>_. None)"

lemma NewManager_sel:
  "pm_config (NewManager p) = p" "pm_aof (NewManager p) = (if AOF_Enabled (AOF p) then Some None else None)"
  by (simp_all add: NewManager_def)

lemma config_path_none: "config_path join os (\<lambda>_. False) flag = []"
proof -
  have "find (\<lambda>_. False) xs = None" for xs :: "string list" by (simp add: find_None_iff)
  then show ?thesis by (simp add: config_path_def FindConfigFile_def Let_def)
qed

lemma boot_default:
  "\<exists>m f'. boot uni frac join os (\<lambda>_. False) flag witness_world no_files
     = Ret (DefaultConfig, m, f', NewServer [] (NewHandler (NewCache (Engine DefaultConfig)) True))"
proof -
  have cfg: "startup_config uni frac join os (\<lambda>_. False) no_files flag = DefaultConfig"
    by (simp add: startup_config_def config_path_none LoadConfig_def Parse_def no_files_def)
  have "loadData witness_world no_files (NewManager (Persistence DefaultConfig)) c = Ret c" for c
    by (simp add: loadData_def AOF_Load_def Load_def RDB_Load_def JSON_Load_def no_files_def Let_def)
  then have "\<exists>m f'. Manager_Start witness_world no_files (NewManager (Persistence DefaultConfig)) c = Ret (m, f', c)" for c
    by (simp add: Manager_Start_def Let_def AOF_Start_def no_files_def witness_world_def NewManager_sel DefaultConfig_log)
  then obtain m f' where "Manager_Start witness_world no_files (NewManager (Persistence DefaultConfig))
      (NewCache (Engine DefaultConfig)) = Ret (m, f', NewCache (Engine DefaultConfig))" by blast
  moreover have "RequirePass (Server DefaultConfig) = []" by (simp add: DefaultConfig_def)
  ultimately show ?thesis by (simp add: boot_def cfg Let_def)
qed

lemma boot_invariant_witness:
  "\<exists>m f' s0 s. boot id no_frac witness_join witness_os (\<lambda>_. False) [] witness_world no_files = Ret (DefaultConfig, m, f', s0)
     \<and> live (Server DefaultConfig) 600 s0 s \<and> phase s 7 = Spawned \<and> server_ok (srv s)"
proof -
  obtain m f' s0 where b: "boot id no_frac witness_join witness_os (\<lambda>_. False) [] witness_world no_files = Ret (DefaultConfig, m, f', s0)"
    using boot_default by blast
  obtain s where run: "life_run (Server DefaultConfig) 600 (admit_run 7) (start_life s0) = Some s" and s: "phase s 7 = Spawned"
    by (simp add: run_defs DefaultConfig_def wrap32_def)
  have live: "live (Server DefaultConfig) 600 s0 s" by (rule live_run [OF run live.start])
  from boot_invariant [OF b live] b live s show ?thesis by blast
qed

text \<open>A typing error locks every client out: with a configuration file that sets max_connections
  to something that does not start with a digit or a sign, the server starts (the validation
  only prints a warning) with a limit of zero and refuses every connection.\<close>

theorem typo_locks_out:
  assumes "f (config_path join os exists flag) = Some (one_option ''server'' ''max_connections'' v)"
    and "value_ok v" and "v = [] \<or> \<not> is_digit (hd v) \<and> hd v \<notin> {CHR ''+'', CHR ''-''}"
    and "boot uni frac join os exists flag w f = Ret (cfg, m, f', s0)"
    and "live (Server cfg) idle_secs s0 s"
  shows "Validate cfg = Some BadMaxConnections \<and> phase s c \<in> {Absent, Refused}"
proof -
  have "startup_config uni frac join os exists f flag = DefaultConfig\<lparr>Server := Server DefaultConfig\<lparr>MaxConnections := 0\<rparr>\<rparr>"
    by (simp add: startup_config_def assms(1) bad_number_is_zero [OF assms(2,3)])
  then have zero: "MaxConnections (Server cfg) = 0"
    using assms(4) by (auto simp: boot_def Let_def split: outcome.splits)
  then have "wrap32 (MaxConnections (Server cfg)) \<le> 0" by (simp add: wrap32_def)
  from wrapped_limit_refuses_all [OF this assms(5)] zero show ?thesis by (simp add: Validate_def)
qed

definition typo_files :: files where
  "typo_files = [''pendem.conf'' \<mapsto> one_option ''server'' ''max_connections'' ''many'']"

lemma pendem_conf: "config_path witness_join witness_os (\<lambda>p. p = ''pendem.conf'') [] = ''pendem.conf''"
  by (simp add: config_path_def FindConfigFile_def DefaultConfigPaths_def witness_os_def Let_def)

lemma typo_locks_out_witness:
  "\<exists>cfg m f' s0 s. boot id no_frac witness_join witness_os (\<lambda>p. p = ''pendem.conf'') [] witness_world typo_files
       = Ret (cfg, m, f', s0) \<and> live (Server cfg) 600 s0 s \<and> 7 \<in> set (ids s) \<and> phase s 7 = Refused"
proof -
  let ?cfg = "DefaultConfig\<lparr>Server := Server DefaultConfig\<lparr>MaxConnections := 0\<rparr>\<rparr>"
  have f: "typo_files (config_path witness_join witness_os (\<lambda>p. p = ''pendem.conf'') [])
      = Some (one_option ''server'' ''max_connections'' ''many'')"
    by (simp add: pendem_conf typo_files_def)
  have bad: "''many'' = [] \<or> \<not> is_digit (hd ''many'') \<and> hd ''many'' \<notin> {CHR ''+'', CHR ''-''}"
    using many_ok(2) by simp
  have cfg: "startup_config id no_frac witness_join witness_os (\<lambda>p. p = ''pendem.conf'') typo_files [] = ?cfg"
    by (simp add: startup_config_def f bad_number_is_zero [OF many_ok(1) bad])
  have "loadData witness_world typo_files (NewManager (Persistence ?cfg)) c = Ret c" for c
    by (simp add: loadData_def AOF_Load_def Load_def RDB_Load_def JSON_Load_def typo_files_def AOF_name_def
        NewManager_def DefaultConfig_def Let_def)
  then have "\<exists>m f'. Manager_Start witness_world typo_files (NewManager (Persistence ?cfg)) c = Ret (m, f', c)" for c
    by (simp add: Manager_Start_def Let_def AOF_Start_def typo_files_def AOF_name_def witness_world_def NewManager_sel DefaultConfig_log)
  then obtain m f' where "Manager_Start witness_world typo_files (NewManager (Persistence ?cfg))
      (NewCache (Engine ?cfg)) = Ret (m, f', NewCache (Engine ?cfg))" by blast
  then obtain s0 where b: "boot id no_frac witness_join witness_os (\<lambda>p. p = ''pendem.conf'') [] witness_world typo_files
      = Ret (?cfg, m, f', s0)"
    unfolding boot_def cfg Let_def by simp
  obtain s where run: "life_run (Server ?cfg) 600 [LoopCheck, AcceptConn 7, QuitCheck, LimitCheck] (start_life s0) = Some s"
      and s: "7 \<in> set (ids s)" "phase s 7 \<noteq> Absent"
    by (simp add: run_defs wrap32_def)
  have live: "live (Server ?cfg) 600 s0 s" by (rule live_run [OF run live.start])
  with typo_locks_out [OF f many_ok(1) bad b live, of 7] b s show ?thesis by blast
qed

text \<open>A flush interval of zero keeps the server from running: Validate reports it, but main goes
  on, and the goroutine that flushes the log panics when it makes its ticker.\<close>

theorem zero_flush_interval_panics:
  assumes "f (config_path join os exists flag) = Some (one_option ''persistence.aof'' ''flush_interval'' ''0'')"
    and "lw_opens w"
  shows "Validate (startup_config uni frac join os exists f flag) = Some BadFlushInterval
    \<and> boot uni frac join os exists flag w f = Panic"
proof -
  let ?cfg = "Persistence_update (AOF_update (FlushInterval_update (\<lambda>_. 0))) DefaultConfig"
  have "graphic CHR ''0''" by code_simp
  then have "value_ok ''0''" by (simp add: value_ok_def trimmed_graphic)
  then have ok: "list_all section_ok [(''persistence.aof'', [(''flush_interval'', ''0'')])]"
    using config_keys_ok by (intro one_option_ok) (simp_all add: config_keys_def)
  have cfg: "startup_config uni frac join os exists f flag = ?cfg"
    by (simp add: startup_config_def assms(1) one_option_def LoadConfig_print [OF ok] load_defs
        ParseDuration_def DefaultConfig_def)
  have "Validate ?cfg = Some BadFlushInterval"
    using and_pred_power [of 4]
    by (simp add: Validate_def DefaultConfig_def second_def minute_def hour_def)
  moreover have "Manager_Start w f (NewManager (Persistence ?cfg)) c = Panic" for c
    using assms(2) DefaultConfig_log(1)
    by (simp add: Manager_Start_def Let_def AOF_Start_def NewManager_def split: outcome.split)
  ultimately show ?thesis by (simp add: boot_def cfg Let_def)
qed

lemma zero_flush_interval_panics_witness:
  "boot id no_frac witness_join witness_os (\<lambda>p. p = ''pendem.conf'') [] witness_world
     [''pendem.conf'' \<mapsto> one_option ''persistence.aof'' ''flush_interval'' ''0''] = Panic"
  using zero_flush_interval_panics [of "[''pendem.conf'' \<mapsto> one_option ''persistence.aof'' ''flush_interval'' ''0'']"
      witness_join witness_os "\<lambda>p. p = ''pendem.conf''" "[]" witness_world id no_frac]
  by (simp add: pendem_conf witness_world_def)

end
