(* ===== verification/Races.thy ===== *)
theory Races
  imports Sessions AofProps
begin

section \<open>Requests that interleave\<close>

text \<open>
  In \<^verbatim>\<open>internal/server/server.go\<close> and \<^verbatim>\<open>transaction.go\<close> a request is not one step: \<open>processCommand\<close>
  first marks the connections that watch the written keys, under the lock of the watcher registry,
  and then runs the handler, which takes the locks of the shards; EXEC looks at the dirty mark and
  takes the queue, and then runs the queued commands one by one.  Other connections run in
  between.  Here a connection has a list of tasks left to do, each of them one step, and a schedule
  says which connection takes the next one, in which environment.  A connection on its own does
  what the theory Server says (\<open>alone_is_atomic\<close>), and the server's invariant holds at every
  step of every schedule; what the sequential model guarantees beyond that can be lost.
\<close>

datatype task = Receive RESPValue | Mark RESPValue | Run string "string list" | Answer | AnswerAll

record race =
  base :: server
  todo :: "conn_id \<Rightarrow> task list"
  results :: "conn_id \<Rightarrow> RESPValue list"
  answers :: "conn_id \<Rightarrow> RESPValue list"

definition add_result :: "conn_id \<Rightarrow> RESPValue \<Rightarrow> race \<Rightarrow> race" where
  "add_result c r x = x\<lparr>results := (results x)(c := results x c @ [r])\<rparr>"

definition set_todo :: "conn_id \<Rightarrow> task list \<Rightarrow> race \<Rightarrow> race" where
  "set_todo c ts x = x\<lparr>todo := (todo x)(c := ts)\<rparr>"

definition answer :: "conn_id \<Rightarrow> RESPValue \<Rightarrow> race \<Rightarrow> race" where
  "answer c r x = x\<lparr>answers := (answers x)(c := answers x c @ [r]), results := (results x)(c := [])\<rparr>"

text \<open>Whether a request is the EXEC of a transaction that is not dirty.\<close>

definition commits :: "env \<Rightarrow> conn_id \<Rightarrow> RESPValue \<Rightarrow> server \<Rightarrow> bool" where
  "commits env c v s \<longleftrightarrow> Type v = Array \<and> Elems v \<noteq> [] \<and> fst (parseCmd env v) = ''EXEC''
     \<and> allowed c s \<and> inTransaction (conns s c) \<and> \<not> IsDirty (conns s c)"

text \<open>One step of connection \<open>c\<close>: its task, and the tasks \<open>ts\<close> behind it.\<close>

fun task_step :: "env \<Rightarrow> conn_id \<Rightarrow> task \<Rightarrow> task list \<Rightarrow> race \<Rightarrow> race outcome" where
  "task_step env c (Receive v) ts x =
     (if commits env c v (base x) then
        Ret (set_todo c (map Mark (queuedCommands (conns (base x) c)) @ AnswerAll # ts)
          (x\<lparr>base := upd_conn c (\<lambda>conn. conn\<lparr>queuedCommands := [], inTransaction := False\<rparr>) (base x)\<rparr>))
      else if ordinary env v \<and> allowed c (base x) \<and> \<not> inTransaction (conns (base x) c) then
        Ret (set_todo c (Mark v # Answer # ts) x)
      else (case processCommandWithTx (\<lambda>_. env) c v (base x) of
         Panic \<Rightarrow> Panic
       | Ret (r, s) \<Rightarrow> Ret (answer c r (set_todo c ts (x\<lparr>base := s\<rparr>)))))"
| "task_step env c (Mark v) ts x =
     (if Type v \<noteq> Array \<or> length (Elems v) < 1 then Ret (add_result c invalid_command (set_todo c ts x))
      else case parseCmd env v of (cmd, args) \<Rightarrow>
        (case GetHandler cmd of
           None \<Rightarrow> Ret (add_result c (err (''ERR unknown command '' @ quoted cmd)) (set_todo c ts x))
         | Some _ \<Rightarrow>
             let keys = extractKeys cmd args in
             Ret (set_todo c (Run cmd args # ts)
               (if isWriteCommand cmd \<and> length keys > 0 then x\<lparr>base := markWatchedKeysDirty keys (base x)\<rparr> else x))))"
| "task_step env c (Run cmd args) ts x =
     (case GetHandler cmd of
        None \<Rightarrow> Ret (set_todo c ts x)
      | Some handler \<Rightarrow>
          (case handler env args (s_handler (base x)) of
             Panic \<Rightarrow> Panic
           | Ret (r, h) \<Rightarrow> Ret (add_result c r (set_todo c ts (x\<lparr>base := (base x)\<lparr>s_handler := h\<rparr>\<rparr>)))))"
| "task_step env c Answer ts x = Ret (answer c (hd (results x c)) (set_todo c ts x))"
| "task_step env c AnswerAll ts x = Ret (answer c (array (results x c)) (set_todo c ts x))"

text \<open>A schedule; \<open>None\<close> when a connection without a task is to take a step.\<close>

fun race_run :: "(conn_id \<times> env) list \<Rightarrow> race \<Rightarrow> race outcome option" where
  "race_run [] x = Some (Ret x)"
| "race_run ((c, env) # sched) x =
     (case todo x c of
        [] \<Rightarrow> None
      | t # ts \<Rightarrow>
          (case task_step env c t ts x of
             Panic \<Rightarrow> Some Panic
           | Ret x' \<Rightarrow> race_run sched x'))"

lemma race_sel [simp]:
  "base (add_result c r x) = base x" "base (set_todo c ts x) = base x" "base (answer c r x) = base x"
  "todo (add_result c r x) = todo x" "todo (set_todo c ts x) = (todo x)(c := ts)" "todo (answer c r x) = todo x"
  "results (add_result c r x) = (results x)(c := results x c @ [r])" "results (set_todo c ts x) = results x"
  "results (answer c r x) = (results x)(c := [])"
  "answers (add_result c r x) = answers x" "answers (set_todo c ts x) = answers x"
  "answers (answer c r x) = (answers x)(c := answers x c @ [r])"
  by (simp_all add: add_result_def set_todo_def answer_def)

subsection \<open>The invariant holds in between\<close>

lemma task_step_ok:
  assumes "task_step env c t ts x = Ret x'" and "server_ok (base x)"
  shows "server_ok (base x')"
proof (cases t)
  case (Receive v)
  have "server_ok (upd_conn c (\<lambda>conn. conn\<lparr>queuedCommands := [], inTransaction := False\<rparr>) (base x))"
    using assms(2) by (simp add: server_ok_conn)
  with assms Receive show ?thesis
    by (auto split: if_splits outcome.splits prod.splits dest: processCommandWithTx_ok)
next
  case (Mark v)
  with assms show ?thesis
    by (auto simp: Let_def server_ok_mark split: if_splits option.splits prod.splits)
next
  case (Run cmd args)
  have "cache_ok lru_ok (h_cache (s_handler (base x)))" using assms(2) by (simp add: server_ok_def)
  with assms Run command_keeps_ok server_ok_handler show ?thesis
    by (fastforce split: option.splits outcome.splits prod.splits)
qed (use assms in auto)

text \<open>C16: The invariant of the server (a well-formed cache, complete watcher lists) holds at every step
  of every schedule, also between the marking of the watchers and the handler, and between the
  commands of a transaction.\<close>

theorem race_invariant:
  assumes "race_run sched x = Some (Ret x')" and "server_ok (base x)"
  shows "server_ok (base x')"
  using assms
proof (induction sched arbitrary: x)
  case (Cons e sched)
  obtain c env where e: "e = (c, env)" by force
  with Cons.prems(1) obtain t ts x1 where "task_step env c t ts x = Ret x1" "race_run sched x1 = Some (Ret x')"
    by (auto split: list.splits outcome.splits)
  with Cons.IH task_step_ok Cons.prems(2) show ?case by blast
qed simp

subsection \<open>Alone, a request is what the sequential model says\<close>

definition then_run :: "'a outcome \<Rightarrow> ('a \<Rightarrow> race) \<Rightarrow> (conn_id \<times> env) list \<Rightarrow> race outcome option" where
  "then_run out f sched = (case out of Panic \<Rightarrow> Some Panic | Ret a \<Rightarrow> race_run sched (f a))"

lemma race_run_Cons: "todo x c = t # ts \<Longrightarrow>
    race_run ((c, env) # sched) x = (case task_step env c t ts x of Panic \<Rightarrow> Some Panic | Ret x' \<Rightarrow> race_run sched x')"
  by simp

text \<open>One command: its marking and its handler.\<close>

lemma mark_run:
  assumes "todo x c = Mark v # ts"
  shows "\<exists>k. \<forall>sched. race_run (replicate k (c, env) @ sched) x =
    then_run (processCommand env v [] [] (base x))
      (\<lambda>(r, s). add_result c r (set_todo c ts (x\<lparr>base := s\<rparr>))) sched"
proof -
  obtain cmd args where p: "parseCmd env v = (cmd, args)" by force
  consider (bad) "Type v \<noteq> Array \<or> length (Elems v) < 1"
    | (unknown) "\<not> (Type v \<noteq> Array \<or> length (Elems v) < 1)" "GetHandler cmd = None"
    | (known) f where "\<not> (Type v \<noteq> Array \<or> length (Elems v) < 1)" "GetHandler cmd = Some f" by blast
  then show ?thesis
  proof cases
    case bad
    then show ?thesis using assms
      by (intro exI [of _ 1]) (simp add: then_run_def processCommand_def)
  next
    case unknown
    then show ?thesis using assms p
      by (intro exI [of _ 1]) (simp add: then_run_def processCommand_def)
  next
    case known
    then show ?thesis using assms p
      by (intro exI [of _ 2])
        (auto simp: then_run_def processCommand_def numeral_2_eq_2 Let_def set_todo_def add_result_def
          mark_keys_eq split: outcome.split)
  qed
qed

text \<open>The queued commands of a transaction.\<close>

lemma marks_run:
  assumes "todo x c = map Mark vs @ ts"
  shows "\<exists>k. \<forall>sched. race_run (replicate k (c, env) @ sched) x =
    then_run (exec_loop (\<lambda>_. env) i vs (base x))
      (\<lambda>(rs, s). set_todo c ts (x\<lparr>base := s, results := (results x)(c := results x c @ rs)\<rparr>)) sched"
  using assms
proof (induction vs arbitrary: x i)
  case Nil
  have "(results x)(c := results x c) = results x" "(todo x)(c := ts) = todo x" using Nil by auto
  then have "set_todo c ts (x\<lparr>base := base x, results := (results x)(c := results x c @ [])\<rparr>) = x"
    by (simp add: set_todo_def)
  then show ?case by (intro exI [of _ 0]) (simp only: then_run_def exec_loop.simps outcome.case prod.case
      replicate_0 append_Nil simp_thms)
next
  case (Cons v vs)
  then have "todo x c = Mark v # map Mark vs @ ts" by simp
  from mark_run [OF this] obtain k1 where k1: "race_run (replicate k1 (c, env) @ sched) x =
      then_run (processCommand env v [] [] (base x))
        (\<lambda>(r, s). add_result c r (set_todo c (map Mark vs @ ts) (x\<lparr>base := s\<rparr>))) sched" for sched
    by blast
  show ?case
  proof (cases "processCommand env v [] [] (base x)")
    case Panic
    with k1 show ?thesis by (intro exI [of _ k1]) (simp add: then_run_def)
  next
    case (Ret p)
    obtain r s where p: "p = (r, s)" by force
    let ?x1 = "add_result c r (set_todo c (map Mark vs @ ts) (x\<lparr>base := s\<rparr>))"
    have "todo ?x1 c = map Mark vs @ ts" by simp
    from Cons.IH [OF this] obtain k2 where k2: "race_run (replicate k2 (c, env) @ sched) ?x1 =
        then_run (exec_loop (\<lambda>_. env) (i + 1) vs s) (\<lambda>(rs, s). set_todo c ts
          (?x1\<lparr>base := s, results := (results ?x1)(c := results ?x1 c @ rs)\<rparr>)) sched" for sched
      by fastforce
    have "race_run (replicate (k1 + k2) (c, env) @ sched) x = race_run (replicate k2 (c, env) @ sched) ?x1" for sched
      using k1 [of "replicate k2 (c, env) @ sched"] Ret p by (simp add: replicate_add then_run_def)
    moreover have "set_todo c ts (?x1\<lparr>base := s', results := (results ?x1)(c := results ?x1 c @ rs)\<rparr>)
        = set_todo c ts (x\<lparr>base := s', results := (results x)(c := results x c @ r # rs)\<rparr>)" for s' rs
      by (cases x) (simp add: set_todo_def add_result_def)
    ultimately show ?thesis
      using k2 Ret p
      by (intro exI [of _ "k1 + k2"], cases "exec_loop (\<lambda>_. env) (i + 1) vs s")
        (simp_all only: then_run_def exec_loop.simps outcome.case prod.case case_prod_unfold fst_conv snd_conv simp_thms)
  qed
qed

text \<open>C17: A connection that runs alone behaves as the sequential model: some number of its own steps
  takes a request from its arrival to its answer, with the reply, the data and the watchers that
  \<open>processCommandWithTx\<close> gives, or panics where that panics.\<close>

theorem alone_is_atomic:
  assumes "todo x c = Receive v # ts" and "results x c = []"
  shows "\<exists>k. race_run (replicate k (c, env)) x =
    (case processCommandWithTx (\<lambda>_. env) c v (base x) of
       Panic \<Rightarrow> Some Panic
     | Ret (r, s) \<Rightarrow> Some (Ret (answer c r (set_todo c ts (x\<lparr>base := s\<rparr>)))))"
proof -
  let ?s = "base x"
  obtain args where parse: "parseCmd env v = (fst (parseCmd env v), args)" by (metis prod.collapse)
  consider (exec) "commits env c v ?s"
    | (command) "\<not> commits env c v ?s" "ordinary env v \<and> allowed c ?s \<and> \<not> inTransaction (conns ?s c)"
    | (other) "\<not> commits env c v ?s" "\<not> (ordinary env v \<and> allowed c ?s \<and> \<not> inTransaction (conns ?s c))" by blast
  then show ?thesis
  proof cases
    case exec
    let ?vs = "queuedCommands (conns ?s c)"
    let ?s1 = "upd_conn c (\<lambda>conn. conn\<lparr>queuedCommands := [], inTransaction := False\<rparr>) ?s"
    let ?x1 = "set_todo c (map Mark ?vs @ AnswerAll # ts) (x\<lparr>base := ?s1\<rparr>)"
    have "todo ?x1 c = map Mark ?vs @ AnswerAll # ts" by simp
    from marks_run [OF this, of env 0] obtain k where k: "race_run (replicate k (c, env) @ sched) ?x1 =
        then_run (exec_loop (\<lambda>_. env) 0 ?vs ?s1) (\<lambda>(rs, s). set_todo c (AnswerAll # ts)
          (?x1\<lparr>base := s, results := (results ?x1)(c := results ?x1 c @ rs)\<rparr>)) sched" for sched
      by fastforce
    have "processCommandWithTx (\<lambda>_. env) c v ?s = handleExec (\<lambda>_. env) c args ?s"
      using tx_request(1) [of v c ?s "\<lambda>_. env" args] exec parse by (simp add: commits_def)
    then have whole: "processCommandWithTx (\<lambda>_. env) c v ?s =
        (case exec_loop (\<lambda>_. env) 0 ?vs ?s1 of Panic \<Rightarrow> Panic | Ret (rs, s) \<Rightarrow> Ret (array rs, s))"
      using exec by (simp add: commits_def handleExec_def)
    have "race_run (replicate (Suc (k + 1)) (c, env)) x = race_run (replicate k (c, env) @ [(c, env)]) ?x1"
      using assms(1) exec by (simp add: replicate_append_same)
    then show ?thesis
      unfolding whole k
      by (intro exI [of _ "Suc (k + 1)"])
        (auto simp: then_run_def assms(2) set_todo_def answer_def split: outcome.split)
  next
    case command
    from mark_run [of "set_todo c (Mark v # Answer # ts) x" c v "Answer # ts" env]
    obtain k where k: "race_run (replicate k (c, env) @ sched) (set_todo c (Mark v # Answer # ts) x) =
        then_run (processCommand env v [] [] ?s) (\<lambda>(r, s). add_result c r (set_todo c (Answer # ts)
          (set_todo c (Mark v # Answer # ts) x\<lparr>base := s\<rparr>))) sched" for sched
      by fastforce
    have whole: "processCommandWithTx (\<lambda>_. env) c v ?s = processCommand env v [] [] ?s"
      using ordinary_request [of "\<lambda>_. env" v c ?s] command by simp
    have "race_run (replicate (Suc (k + 1)) (c, env)) x
        = race_run (replicate k (c, env) @ [(c, env)]) (set_todo c (Mark v # Answer # ts) x)"
      using assms(1) command by (simp add: replicate_append_same)
    then show ?thesis
      unfolding whole k
      by (intro exI [of _ "Suc (k + 1)"])
        (auto simp: then_run_def assms(2) set_todo_def answer_def add_result_def split: outcome.split)
  next
    case other
    then show ?thesis using assms(1)
      by (intro exI [of _ 1]) (auto split: outcome.split)
  qed
qed

subsection \<open>Runs from the start\<close>

text \<open>The connections \<open>c\<close> and \<open>d\<close> at the start of their requests.\<close>

definition start_race :: "conn_id \<Rightarrow> RESPValue list \<Rightarrow> conn_id \<Rightarrow> RESPValue list \<Rightarrow> server \<Rightarrow> race" where
  "start_race c vs d ws s = \<lparr>base = s, todo = (\<lambda>_. [])(c := map Receive vs, d := map Receive ws),
     results = (\<lambda>_. []), answers = (\<lambda>_. [])\<rparr>"

definition in_order :: "env \<Rightarrow> conn_id list \<Rightarrow> (conn_id \<times> env) list" where
  "in_order env cs = map (\<lambda>c. (c, env)) cs"

lemma handlers [simp]:
  "GetHandler ''SET'' = Some (total h_Set)" "GetHandler ''GET'' = Some (total h_Get)"
  by (simp_all add: GetHandler_def commands_def)

lemma handler_total [simp]: "total f env args h = Ret (f env args h)"
  by (simp add: total_def)

lemmas tx_defs = processCommandWithTx_def handleTxCmd_def handleWatch_def handleMulti_def
lemmas race_defs = start_race_def in_order_def commits_def ordinary_def tx_names_def allowed_def
  add_result_def set_todo_def answer_def

lemma SET_keys [simp]: "extractKeys ''SET'' (k # args) = [k]" "isWriteCommand ''SET''" "\<not> isWriteCommand ''GET''"
  by (simp_all add: extractKeys_def isWriteCommand_def)

text \<open>A run that stops between the marking and the handler, and one that goes on to the answer.\<close>

lemma race_invariant_witness:
  "\<exists>x. race_run (in_order witness_env [1, 1]) (start_race 1 [request [''SET'', ''k'', ''v'']] 0 [] (watched_server witness_cfg))
       = Some (Ret x)
     \<and> todo x 1 = [Run ''SET'' [''k'', ''v''], Answer] \<and> server_ok (base x)"
proof -
  let ?x = "start_race 1 [request [''SET'', ''k'', ''v'']] 0 [] (watched_server witness_cfg)"
  obtain x where x: "race_run (in_order witness_env [1, 1]) ?x = Some (Ret x)" "todo x 1 = [Run ''SET'' [''k'', ''v''], Answer]"
    by (simp add: race_defs NewConnection_def)
  have "server_ok (base ?x)"
    using reachable_ok [OF watched_server_reachable NewHandler_ok] by (simp add: start_race_def)
  from race_invariant [OF x(1) this] x show ?thesis by blast
qed

lemma alone_is_atomic_witness:
  "\<exists>k x. race_run (replicate k (1, witness_env)) (start_race 1 [request [''SET'', ''k'', ''v'']] 0 [] (watched_server witness_cfg))
       = Some (Ret x) \<and> answers x 1 = [simple ''OK'']"
proof -
  let ?x = "start_race 1 [request [''SET'', ''k'', ''v'']] 0 [] (watched_server witness_cfg)"
  have x: "todo ?x 1 = Receive (request [''SET'', ''k'', ''v'']) # []" "results ?x 1 = []" "answers ?x 1 = []"
      "base ?x = watched_server witness_cfg"
    by (simp_all add: start_race_def)
  obtain s where "processCommandWithTx (\<lambda>_. witness_env) 1 (request [''SET'', ''k'', ''v'']) (base ?x) = Ret (simple ''OK'', s)"
    unfolding x(4) using set_runs by blast
  with alone_is_atomic [OF x(1,2), of witness_env] obtain k where
    "race_run (replicate k (1, witness_env)) ?x
      = Some (Ret (answer 1 (simple ''OK'') (set_todo 1 [] (?x\<lparr>base := s\<rparr>))))" by auto
  then show ?thesis using x(3) by fastforce
qed

subsection \<open>What interleaving breaks\<close>

text \<open>C34: The lost update.  A client watches a key, reads it, and writes it in a transaction; another
  client's SET of the key marks the watchers before the WATCH and stores its value after the GET.
  EXEC succeeds: it overwrites a value its client has never seen, although the mark exists to make
  it fail (which it does when requests do not interleave, \<open>watch_detects\<close>).\<close>

theorem lost_update:
  assumes "requirepass s = []" and "c \<noteq> d" and "conns s c = NewConnection" and "conns s d = NewConnection"
    and "c \<notin> watching s k"
  shows "\<exists>x. race_run (in_order env [d, d, c, c, c, c, c, d, d, c, c, c, c, c, c])
      (start_race c [request [''WATCH'', k], request [''GET'', k], request [''MULTI''],
          request [''SET'', k, new], request [''EXEC'']] d [request [''SET'', k, other]] s) = Some (Ret x)
    \<and> answers x d = [simple ''OK'']
    \<and> answers x c = [simple ''OK'', fst (h_Get env [k] (s_handler s)), simple ''OK'', simple ''QUEUED'',
        array [simple ''OK'']]
    \<and> s_handler (base x) = snd (h_Set env [k, new] (snd (h_Set env [k, other] (snd (h_Get env [k] (s_handler s))))))"
  using assms
  by (simp add: race_defs tx_defs case_prod_unfold Let_def mark_keys_eq NewConnection_def WatchKey_def IsDirty_def h_Set_def [of _ "[k, v]" for v])

lemma lost_update_witness:
  "\<exists>x. race_run (in_order witness_env [1, 1, 0, 0, 0, 0, 0, 1, 1, 0, 0, 0, 0, 0, 0])
      (start_race 0 [request [''WATCH'', ''k''], request [''GET'', ''k''], request [''MULTI''],
          request [''SET'', ''k'', ''mine''], request [''EXEC'']] 1 [request [''SET'', ''k'', ''theirs'']]
        (NewServer [] (NewHandler (NewCache witness_cfg) False))) = Some (Ret x)
    \<and> last (answers x 0) = array [simple ''OK'']"
proof -
  let ?s = "NewServer [] (NewHandler (NewCache witness_cfg) False)"
  have "0 \<notin> watching ?s ''k''" by (simp add: watching_def NewServer_def)
  moreover have "requirepass ?s = []" "conns ?s c = NewConnection" for c by (simp_all add: NewServer_def)
  ultimately obtain x where x: "race_run (in_order witness_env [1, 1, 0, 0, 0, 0, 0, 1, 1, 0, 0, 0, 0, 0, 0])
      (start_race 0 [request [''WATCH'', ''k''], request [''GET'', ''k''], request [''MULTI''],
          request [''SET'', ''k'', ''mine''], request [''EXEC'']] 1 [request [''SET'', ''k'', ''theirs'']] ?s) = Some (Ret x)"
      "answers x 0 = [simple ''OK'', fst (h_Get witness_env [''k''] (s_handler ?s)), simple ''OK'', simple ''QUEUED'',
        array [simple ''OK'']]"
    using lost_update [of ?s 0 1 "''k''" witness_env "''mine''" "''theirs''"] by (metis zero_neq_one)
  show ?thesis by (rule exI [of _ x]) (simp only: x last.simps list.distinct if_False if_True simp_thms)
qed

text \<open>EXEC is not isolated either: the SET of another connection runs between two commands of a
  transaction, and its GET shows the other value.\<close>

lemma exec_not_isolated:
  assumes "requirepass s = []" and "c \<noteq> d" and "conns s d = NewConnection"
    and "conns s c = NewConnection\<lparr>inTransaction := True, queuedCommands := [request [''SET'', k, a], request [''GET'', k]]\<rparr>"
    and "cache_ok lru_ok (h_cache (s_handler s))"
  shows "\<exists>x. race_run (in_order env [c, c, c, d, d, d, d, c, c, c])
      (start_race c [request [''EXEC'']] d [request [''SET'', k, b]] s) = Some (Ret x)
    \<and> answers x c = [array [simple ''OK'', bulk b]]"
proof -
  let ?h = "snd (h_Set env [k, a] (s_handler s))"
  have "cache_ok lru_ok (h_cache ?h)" by (rule string_commands_ok(2) [OF assms(5)])
  then have "fst (h_Get env [k] (snd (h_Set env [k, b] ?h))) = bulk b"
    using Get_after_Set [of ?h env k env b "[]"] by (simp add: set_ttl_def bulk_or_null_def)
  moreover have "fst (h_Set env [k, v] h) = simple ''OK''" for v h
    by (simp add: h_Set_def)
  ultimately show ?thesis
    using assms(1-4)
    by (simp add: race_defs tx_defs case_prod_unfold Let_def mark_keys_eq NewConnection_def IsDirty_def)
qed

text \<open>C35: Each write starts a goroutine that logs it, and nothing orders the goroutines: after two SETs
  of a key, acknowledged one after the other (even to the same client), the log may hold them the
  other way round, and the next start restores the older value.\<close>

theorem log_order_lost:
  assumes "cache_ok lru_ok (h_cache h)" and "h_mgr h" and "h_spawned h = []"
    and "entry_ok (''SET'', [k, old])" and "entry_ok (''SET'', [k, new])"
    and "h1 = snd (h_Set env [k, old] h)" and "h2 = snd (h_Set env [k, new] h1)"
    and "log = Flush (LogCommand ''SET'' [k, old] (LogCommand ''SET'' [k, new] \<lparr>disk = [], buf = []\<rparr>))"
  shows "h_spawned h2 = [(''SET'', [k, old]), (''SET'', [k, new])]
    \<and> fst (h_Get env' [k] h2) = bulk new
    \<and> (\<exists>c. Load envs (Some (disk log)) (NewCache cfg) = Ret (True, c) \<and> fst (Cache_Get lru_evictor t k c) = Some old)"
proof -
  let ?es = "[(''SET'', [k, new]), (''SET'', [k, old])]"
  have ok1: "cache_ok lru_ok (h_cache h1)" unfolding assms(6) by (rule string_commands_ok(2) [OF assms(1)])
  have spawned: "h_spawned h2 = [(''SET'', [k, old]), (''SET'', [k, new])]"
    using assms(2,3) by (simp add: assms(6,7) h_Set_def go_log_def)
  have get: "fst (h_Get env' [k] h2) = bulk new"
    unfolding assms(7) using Get_after_Set [OF ok1, of env' k env new "[]"]
    by (simp add: set_ttl_def bulk_or_null_def)
  have "disk log = log_all ?es"
    using aof_run_bytes [of "\<lparr>disk = [], buf = []\<rparr>" "[Log ''SET'' [k, new], Log ''SET'' [k, old]]"]
    by (simp add: assms(8) Flush_def)
  then have "load_loop envs 0 (disk log) 0 (NewCache cfg) = Ret (replay_all envs 0 ?es 0 (NewCache cfg))"
    using load_loop_prefix [of ?es "log_all ?es" envs 0 0 "NewCache cfg"] assms(4,5) by auto
  moreover have replay: "replayCommand e (request [''SET'', k, v]) c = (True, Cache_Set lru_evictor (clk e 0) k v 0 c)" for e v c
    by (simp add: replayCommand_def request_def replay_cmd_def replay_strings_def replay_ttl_def)
  moreover have "fst (Cache_Get lru_evictor t k (Cache_Set lru_evictor now k old 0 c)) = Some old"
    if "cache_ok lru_ok c" for now c
    using lru.Cache_Get_eq(1) [OF lru.Cache_Set_ok [OF that]] lru.Cache_Set_hit [OF that] by simp
  ultimately show ?thesis
    using spawned get NewCache_ok by (simp add: Load_def lru.Cache_Set_ok)
qed

lemma log_order_lost_witness:
  "fst (h_Get witness_env [''k''] (snd (h_Set witness_env [''k'', ''2''] (snd (h_Set witness_env [''k'', ''1'']
      (NewHandler (NewCache witness_cfg) True)))))) = bulk ''2''
   \<and> (\<exists>c. Load (\<lambda>_. witness_env) (Some (disk (Flush (LogCommand ''SET'' [''k'', ''1'']
          (LogCommand ''SET'' [''k'', ''2''] \<lparr>disk = [], buf = []\<rparr>))))) (NewCache witness_cfg) = Ret (True, c)
        \<and> fst (Cache_Get lru_evictor 7 ''k'' c) = Some ''1'')"
proof -
  have "cache_ok lru_ok (h_cache (NewHandler (NewCache witness_cfg) True))" by (rule NewHandler_ok)
  moreover have "entry_ok (''SET'', [''k'', [d]])" for d by (simp add: entry_ok_def MaxBulkStringSize_def)
  moreover have "h_mgr (NewHandler (NewCache witness_cfg) True)" "h_spawned (NewHandler (NewCache witness_cfg) True) = []"
    by (simp_all add: NewHandler_def)
  ultimately show ?thesis
    using log_order_lost [OF _ _ _ _ _ refl refl refl, where h = "NewHandler (NewCache witness_cfg) True" and k = "''k''"
        and old = "''1''" and new = "''2''" and env = witness_env and env' = witness_env and envs = "\<lambda>_. witness_env"
        and cfg = witness_cfg and t = 7] by blast
qed

end
