(* ===== verification/Sections.thy ===== *)
theory Sections
  imports Commands
begin

section \<open>Handlers as programs of critical sections\<close>

text \<open>
  A command handler is not atomic: the shards of \<^verbatim>\<open>internal/engine/shard.go\<close> and the containers
  of \<^verbatim>\<open>hash.go\<close>, \<^verbatim>\<open>list.go\<close>, \<^verbatim>\<open>set.go\<close> and \<^verbatim>\<open>sortedset.go\<close> have a lock each, and a handler of
  \<^verbatim>\<open>internal/handler\<close> takes and releases several of them, one after the other.  \<open>Get\<close> alone takes
  two: it looks the item up under the read lock and removes it, when it has expired, under the
  write lock.  Here a handler is a program: a sequence of sections, each of which updates the
  state in one step and says, from the state it found, how the program goes on.  A schedule says
  whose section comes next.

  A container is reached through the pointer that the lookup returned; no operation takes a
  container out of its shard or replaces it, so the pointer and the key name the same container,
  and a section on the container is written as an update at the key.  A goroutine that logs is
  started by a step of its own.

  Sections are taken to be atomic.  For the sections of the read lock that is an assumption the
  code does not justify: \<open>evictor.Get\<close> moves the item to the front of the LRU list, and readers do
  not exclude one another.
\<close>

subsection \<open>Programs and schedules\<close>

datatype ('s, 'r) prog = Done 'r | Section "'s \<Rightarrow> 's" "'s \<Rightarrow> ('s, 'r) prog"

primrec prog_run :: "('s, 'r) prog \<Rightarrow> 's \<Rightarrow> 'r \<times> 's" where
  "prog_run (Done r) s = (r, s)"
| "prog_run (Section u n) s = prog_run (n s) (u s)"

primrec prog_bind :: "('s, 'a) prog \<Rightarrow> ('a \<Rightarrow> ('s, 'r) prog) \<Rightarrow> ('s, 'r) prog" where
  "prog_bind (Done r) k = k r"
| "prog_bind (Section u n) k = Section u (\<lambda>s. prog_bind (n s) k)"

definition section_of :: "('s \<Rightarrow> 'r \<times> 's) \<Rightarrow> ('s, 'r) prog" where
  "section_of f = Section (\<lambda>s. snd (f s)) (\<lambda>s. Done (fst (f s)))"

primrec prog_count :: "('x \<Rightarrow> ('s, bool) prog) \<Rightarrow> 'x list \<Rightarrow> int \<Rightarrow> ('s, int) prog" where
  "prog_count body [] n = Done n"
| "prog_count body (x # xs) n =
     prog_bind (body x) (\<lambda>b. prog_count body xs (if b then n + 1 else n))"

fun weave :: "nat list \<Rightarrow> ('s, 'r) prog list \<Rightarrow> 's \<Rightarrow> ('s, 'r) prog list \<times> 's" where
  "weave [] ps s = (ps, s)"
| "weave (i # sched) ps s =
     (if i < length ps then
        (case ps ! i of
           Done r \<Rightarrow> weave sched ps s
         | Section u n \<Rightarrow> weave sched (ps[i := n s]) (u s))
      else weave sched ps s)"

text \<open>Every section of the program keeps \<open>P\<close>, whatever the others do in between, as long as they
  keep it too.\<close>

primrec safe :: "('s \<Rightarrow> bool) \<Rightarrow> ('s, 'r) prog \<Rightarrow> bool" where
  "safe P (Done r) \<longleftrightarrow> True"
| "safe P (Section u n) \<longleftrightarrow> (\<forall>s. P s \<longrightarrow> P (u s) \<and> safe P (n s))"

lemma prog_run_bind [simp]:
  "prog_run (prog_bind p k) s = (case prog_run p s of (r, s') \<Rightarrow> prog_run (k r) s')"
  by (induction p arbitrary: s) auto

lemma prog_run_section [simp]: "prog_run (section_of f) s = f s"
  by (simp add: section_of_def)

lemma safe_bind: "safe P p \<Longrightarrow> (\<And>r. safe P (k r)) \<Longrightarrow> safe P (prog_bind p k)"
  by (induction p) auto

lemma safe_section: "(\<And>s. P s \<Longrightarrow> P (snd (f s))) \<Longrightarrow> safe P (section_of f)"
  by (simp add: section_of_def)

lemma safe_count: "(\<And>x. safe P (body x)) \<Longrightarrow> safe P (prog_count body xs n)"
  by (induction xs arbitrary: n) (auto intro: safe_bind)

lemma weave_safe:
  "\<forall>p \<in> set ps. safe P p \<Longrightarrow> P s \<Longrightarrow>
     P (snd (weave sched ps s)) \<and> (\<forall>p \<in> set (fst (weave sched ps s)). safe P p)"
proof (induction sched arbitrary: ps s)
  case (Cons i sched)
  show ?case
  proof (cases "i < length ps")
    case True
    then have p: "safe P (ps ! i)" using Cons.prems(1) by simp
    show ?thesis
    proof (cases "ps ! i")
      case (Section u n)
      with p Cons.prems(2) have "P (u s)" and "safe P (n s)" by simp_all
      moreover have "\<forall>p \<in> set (ps[i := n s]). safe P p"
        using Cons.prems(1) \<open>safe P (n s)\<close> set_update_subset_insert [of ps i "n s"] by auto
      ultimately show ?thesis using Cons.IH True Section by simp
    qed (use Cons True in simp)
  qed (use Cons in simp)
qed simp

lemma weave_append: "weave (xs @ ys) ps s = (case weave xs ps s of (ps', s') \<Rightarrow> weave ys ps' s')"
  by (induction xs arbitrary: ps s) (auto split: prog.split)

subsection \<open>Sections on the cache\<close>

definition cache_section :: "(lru cache \<Rightarrow> 'r \<times> lru cache) \<Rightarrow> (handler, 'r) prog" where
  "cache_section f = section_of (\<lambda>h. case f (h_cache h) of (r, c) \<Rightarrow> (r, h\<lparr>h_cache := c\<rparr>))"

definition logged :: "string \<Rightarrow> string list \<Rightarrow> RESPValue \<Rightarrow> (handler, RESPValue) prog" where
  "logged cmd args r = section_of (\<lambda>h. (r, go_log cmd args h))"

text \<open>The first section of \<open>Shard.Get\<close> and \<open>Shard.TTL\<close>: \<open>evictor.Get\<close> under the read lock.\<close>

definition Cache_lookup :: "string \<Rightarrow> lru cache \<Rightarrow> item option \<times> lru cache" where
  "Cache_lookup key c =
     (let s = Cache_shard key c in
      case ev_Get lru_evictor key (evictor s) of (found, e) \<Rightarrow> (found, Cache_put key (s\<lparr>evictor := e\<rparr>) c))"

definition get_prog :: "int \<Rightarrow> string \<Rightarrow> (handler, string option) prog" where
  "get_prog now key =
     prog_bind (cache_section (Cache_lookup key)) (\<lambda>found. case found of
       None \<Rightarrow> Done None
     | Some item \<Rightarrow>
         if IsExpired now item
         then prog_bind (cache_section (Cache_Delete lru_evictor key)) (\<lambda>_. Done None)
         else Done (Some (Value item)))"

definition ttl_prog :: "int \<Rightarrow> int \<Rightarrow> string \<Rightarrow> (handler, int) prog" where
  "ttl_prog t1 t2 key =
     prog_bind (cache_section (Cache_lookup key)) (\<lambda>found. case found of
       None \<Rightarrow> Done (-2)
     | Some item \<Rightarrow>
         if IsExpired t1 item
         then prog_bind (cache_section (Cache_Delete lru_evictor key)) (\<lambda>_. Done (-2))
         else let ttl = Item_TTL t2 item in Done (if ttl < 0 then -1 else ttl div 1000000000))"

definition set_prog :: "int \<Rightarrow> string \<Rightarrow> string \<Rightarrow> int \<Rightarrow> (handler, unit) prog" where
  "set_prog now key value ttl = cache_section (\<lambda>c. ((), Cache_Set lru_evictor now key value ttl c))"

definition has_prog :: "string \<Rightarrow> (handler, bool) prog" where
  "has_prog key = cache_section (\<lambda>c. (Cache_HasKey lru_evictor key c, c))"

text \<open>A container: looked up or created under the shard's lock, then used under its own.\<close>

definition find_prog :: "(string \<Rightarrow> lru cache \<Rightarrow> 'x option) \<Rightarrow> string \<Rightarrow> (handler, bool) prog" where
  "find_prog get key = cache_section (\<lambda>c. (get key c \<noteq> None, c))"

definition create_prog :: "(string \<Rightarrow> lru cache \<Rightarrow> 'x \<times> bool \<times> lru cache) \<Rightarrow> string \<Rightarrow> (handler, unit) prog" where
  "create_prog create key = cache_section (\<lambda>c. case create key c of (_, _, c') \<Rightarrow> ((), c'))"

definition update_prog ::
  "(string \<Rightarrow> lru cache \<Rightarrow> 'x list option) \<Rightarrow> (string \<Rightarrow> 'x list \<Rightarrow> lru cache \<Rightarrow> lru cache)
     \<Rightarrow> string \<Rightarrow> ('x list \<Rightarrow> 'r \<times> 'x list) \<Rightarrow> (handler, 'r) prog" where
  "update_prog get put key f =
     cache_section (\<lambda>c. case f (or_empty (get key c)) of (r, x) \<Rightarrow> (r, put key x c))"

definition read_prog ::
  "(string \<Rightarrow> lru cache \<Rightarrow> 'x list option) \<Rightarrow> string \<Rightarrow> ('x list \<Rightarrow> 'r) \<Rightarrow> (handler, 'r) prog" where
  "read_prog get key f = cache_section (\<lambda>c. (f (or_empty (get key c)), c))"

subsection \<open>String and batch commands\<close>

definition p_Get :: "env \<Rightarrow> string list \<Rightarrow> (handler, RESPValue) prog" where
  "p_Get env args =
     (if length args < 1 then Done (wrong_args ''get'')
      else prog_bind (get_prog (clk env 0) (args ! 0)) (\<lambda>found. Done (bulk_or_null found)))"

definition p_Exists :: "env \<Rightarrow> string list \<Rightarrow> (handler, RESPValue) prog" where
  "p_Exists env args =
     (if length args < 1 then Done (wrong_args ''exists'')
      else prog_bind (prog_count has_prog args 0) (\<lambda>n. Done (integer n)))"

definition p_Set :: "env \<Rightarrow> string list \<Rightarrow> (handler, RESPValue) prog" where
  "p_Set env args =
     (if length args < 2 then Done (wrong_args ''set'')
      else prog_bind (set_prog (clk env 0) (args ! 0) (args ! 1) (set_ttl env args))
        (\<lambda>_. logged ''SET'' args (simple ''OK'')))"

definition p_Delete :: "env \<Rightarrow> string list \<Rightarrow> (handler, RESPValue) prog" where
  "p_Delete env args =
     (if length args < 1 then Done (wrong_args ''del'')
      else prog_bind (prog_count (\<lambda>key. cache_section (Cache_Delete lru_evictor key)) args 0)
        (\<lambda>n. logged ''DEL'' args (integer n)))"

definition p_TTL :: "env \<Rightarrow> string list \<Rightarrow> (handler, RESPValue) prog" where
  "p_TTL env args =
     (if length args < 1 then Done (wrong_args ''ttl'')
      else prog_bind (ttl_prog (clk env 0) (clk env 1) (args ! 0)) (\<lambda>ttl. Done (integer ttl)))"

definition p_Append :: "env \<Rightarrow> string list \<Rightarrow> (handler, RESPValue) prog" where
  "p_Append env args =
     (if length args < 2 then Done (wrong_args ''append'')
      else prog_bind (get_prog (clk env 0) (args ! 0)) (\<lambda>old.
        let newVal = (case old of Some v \<Rightarrow> v @ args ! 1 | None \<Rightarrow> args ! 1) in
        prog_bind (set_prog (clk env 1) (args ! 0) newVal 0)
          (\<lambda>_. logged ''APPEND'' args (integer (int (length newVal))))))"

definition p_Strlen :: "env \<Rightarrow> string list \<Rightarrow> (handler, RESPValue) prog" where
  "p_Strlen env args =
     (if length args < 1 then Done (wrong_args ''strlen'')
      else prog_bind (get_prog (clk env 0) (args ! 0)) (\<lambda>found.
        Done (case found of None \<Rightarrow> integer 0 | Some v \<Rightarrow> integer (int (length v)))))"

fun mget_prog :: "env \<Rightarrow> nat \<Rightarrow> string list \<Rightarrow> (handler, RESPValue list) prog" where
  "mget_prog env i [] = Done []"
| "mget_prog env i (key # keys) =
     prog_bind (get_prog (clk env i) key) (\<lambda>found.
       prog_bind (mget_prog env (i + 1) keys) (\<lambda>rs. Done (bulk_or_null found # rs)))"

definition p_MGet :: "env \<Rightarrow> string list \<Rightarrow> (handler, RESPValue) prog" where
  "p_MGet env args =
     (if length args < 1 then Done (wrong_args ''mget'')
      else prog_bind (mget_prog env 0 args) (\<lambda>rs. Done (array rs)))"

fun mset_prog :: "env \<Rightarrow> nat \<Rightarrow> (string \<times> string) list \<Rightarrow> (handler, unit) prog" where
  "mset_prog env i [] = Done ()"
| "mset_prog env i ((k, v) # kvs) =
     prog_bind (set_prog (clk env i) k v 0) (\<lambda>_. mset_prog env (i + 1) kvs)"

definition p_MSet :: "env \<Rightarrow> string list \<Rightarrow> (handler, RESPValue) prog" where
  "p_MSet env args =
     (if length args < 2 then Done (wrong_args ''mset'')
      else if length args mod 2 \<noteq> 0 then Done (wrong_args ''mset'')
      else prog_bind (mset_prog env 0 (arg_pairs args)) (\<lambda>_. logged ''MSET'' args (simple ''OK'')))"

text \<open>The loop that looks for a key that exists stops at the first one.\<close>

fun any_prog :: "string list \<Rightarrow> (handler, bool) prog" where
  "any_prog [] = Done False"
| "any_prog (key # keys) = prog_bind (has_prog key) (\<lambda>b. if b then Done True else any_prog keys)"

definition p_MSetNX :: "env \<Rightarrow> string list \<Rightarrow> (handler, RESPValue) prog" where
  "p_MSetNX env args =
     (if length args < 2 then Done (wrong_args ''msetnx'')
      else if length args mod 2 \<noteq> 0 then Done (wrong_args ''msetnx'')
      else prog_bind (any_prog (map fst (arg_pairs args))) (\<lambda>b.
        if b then Done (integer 0)
        else prog_bind (mset_prog env 0 (arg_pairs args)) (\<lambda>_. logged ''MSETNX'' args (integer 1))))"

subsection \<open>Hashes\<close>

text \<open>\<open>HSet\<close> asks whether the field is there and stores it in two sections.\<close>

definition hset_prog :: "string \<Rightarrow> string \<times> string \<Rightarrow> (handler, bool) prog" where
  "hset_prog key fv = (case fv of (field, value) \<Rightarrow>
     prog_bind (read_prog Cache_GetHash key (Hash_Has field)) (\<lambda>has.
       prog_bind (update_prog Cache_GetHash Cache_put_hash key (\<lambda>hash. ((), Hash_Set field value hash)))
         (\<lambda>_. Done (\<not> has))))"

definition p_HSet :: "env \<Rightarrow> string list \<Rightarrow> (handler, RESPValue) prog" where
  "p_HSet env args =
     (if length args < 3 then Done (wrong_args ''hset'')
      else let key = args ! 0; fields = drop 1 args in
        if length fields mod 2 \<noteq> 0 then Done (wrong_args ''hset'')
        else prog_bind (create_prog Cache_GetOrCreateHash key) (\<lambda>_.
          prog_bind (prog_count (hset_prog key) (arg_pairs fields) 0) (\<lambda>n.
            logged ''HSET'' args (integer n))))"

definition p_HGet :: "env \<Rightarrow> string list \<Rightarrow> (handler, RESPValue) prog" where
  "p_HGet env args =
     (if length args < 2 then Done (wrong_args ''hget'')
      else prog_bind (find_prog Cache_GetHash (args ! 0)) (\<lambda>found.
        if \<not> found then Done null_bulk
        else prog_bind (read_prog Cache_GetHash (args ! 0) (Hash_Get (args ! 1)))
          (\<lambda>r. Done (bulk_or_null r))))"

definition p_HGetAll :: "env \<Rightarrow> string list \<Rightarrow> (handler, RESPValue) prog" where
  "p_HGetAll env args =
     (if length args < 1 then Done (wrong_args ''hgetall'')
      else prog_bind (find_prog Cache_GetHash (args ! 0)) (\<lambda>found.
        if \<not> found then Done (array [])
        else prog_bind (read_prog Cache_GetHash (args ! 0) (Hash_GetAll (iter env)))
          (\<lambda>r. Done (array (foldl (\<lambda>result (field, value). result @ [bulk field, bulk value]) []
          (range_map (iter env) r))))))"

definition p_HDel :: "env \<Rightarrow> string list \<Rightarrow> (handler, RESPValue) prog" where
  "p_HDel env args =
     (if length args < 2 then Done (wrong_args ''hdel'')
      else prog_bind (find_prog Cache_GetHash (args ! 0)) (\<lambda>found.
        if \<not> found then Done (integer 0)
        else prog_bind (prog_count (\<lambda>field.
            update_prog Cache_GetHash Cache_put_hash (args ! 0) (Hash_Delete field)) (drop 1 args) 0)
          (\<lambda>n. logged ''HDEL'' args (integer n))))"

definition p_HLen :: "env \<Rightarrow> string list \<Rightarrow> (handler, RESPValue) prog" where
  "p_HLen env args =
     (if length args < 1 then Done (wrong_args ''hlen'')
      else prog_bind (find_prog Cache_GetHash (args ! 0)) (\<lambda>found.
        if \<not> found then Done (integer 0)
        else prog_bind (read_prog Cache_GetHash (args ! 0) Hash_Len) (\<lambda>r. Done (integer r))))"

definition p_HExists :: "env \<Rightarrow> string list \<Rightarrow> (handler, RESPValue) prog" where
  "p_HExists env args =
     (if length args < 2 then Done (wrong_args ''hexists'')
      else prog_bind (find_prog Cache_GetHash (args ! 0)) (\<lambda>found.
        if \<not> found then Done (integer 0)
        else prog_bind (read_prog Cache_GetHash (args ! 0) (Hash_Get (args ! 1)))
          (\<lambda>r. Done (if r \<noteq> None then integer 1 else integer 0))))"

definition p_HKeys :: "env \<Rightarrow> string list \<Rightarrow> (handler, RESPValue) prog" where
  "p_HKeys env args =
     (if length args < 1 then Done (wrong_args ''hkeys'')
      else prog_bind (find_prog Cache_GetHash (args ! 0)) (\<lambda>found.
        if \<not> found then Done (array [])
        else prog_bind (read_prog Cache_GetHash (args ! 0) (Hash_Keys (iter env)))
          (\<lambda>r. Done (array (map bulk r)))))"

definition p_HVals :: "env \<Rightarrow> string list \<Rightarrow> (handler, RESPValue) prog" where
  "p_HVals env args =
     (if length args < 1 then Done (wrong_args ''hvals'')
      else prog_bind (find_prog Cache_GetHash (args ! 0)) (\<lambda>found.
        if \<not> found then Done (array [])
        else prog_bind (read_prog Cache_GetHash (args ! 0) (Hash_Values (iter env)))
          (\<lambda>r. Done (array (map bulk r)))))"

subsection \<open>Lists\<close>

definition p_LPush :: "env \<Rightarrow> string list \<Rightarrow> (handler, RESPValue) prog" where
  "p_LPush env args =
     (if length args < 2 then Done (wrong_args ''lpush'')
      else prog_bind (create_prog Cache_GetOrCreateList (args ! 0)) (\<lambda>_.
        prog_bind (update_prog Cache_GetList Cache_put_list (args ! 0) (List_LPush (drop 1 args))) (\<lambda>n.
          logged ''LPUSH'' args (integer n))))"

definition p_RPush :: "env \<Rightarrow> string list \<Rightarrow> (handler, RESPValue) prog" where
  "p_RPush env args =
     (if length args < 2 then Done (wrong_args ''rpush'')
      else prog_bind (create_prog Cache_GetOrCreateList (args ! 0)) (\<lambda>_.
        prog_bind (update_prog Cache_GetList Cache_put_list (args ! 0) (List_RPush (drop 1 args))) (\<lambda>n.
          logged ''RPUSH'' args (integer n))))"

definition p_LPop :: "env \<Rightarrow> string list \<Rightarrow> (handler, RESPValue) prog" where
  "p_LPop env args =
     (if length args < 1 then Done (wrong_args ''lpop'')
      else prog_bind (find_prog Cache_GetList (args ! 0)) (\<lambda>found.
        if \<not> found then Done null_bulk
        else prog_bind (update_prog Cache_GetList Cache_put_list (args ! 0) List_LPop) (\<lambda>r. case r of
            None \<Rightarrow> Done null_bulk
          | Some v \<Rightarrow> logged ''LPOP'' args (bulk v))))"

definition p_RPop :: "env \<Rightarrow> string list \<Rightarrow> (handler, RESPValue) prog" where
  "p_RPop env args =
     (if length args < 1 then Done (wrong_args ''rpop'')
      else prog_bind (find_prog Cache_GetList (args ! 0)) (\<lambda>found.
        if \<not> found then Done null_bulk
        else prog_bind (update_prog Cache_GetList Cache_put_list (args ! 0) List_RPop) (\<lambda>r. case r of
            None \<Rightarrow> Done null_bulk
          | Some v \<Rightarrow> logged ''RPOP'' args (bulk v))))"

definition p_LRange :: "env \<Rightarrow> string list \<Rightarrow> (handler, RESPValue) prog" where
  "p_LRange env args =
     (if length args < 3 then Done (wrong_args ''lrange'')
      else case (Atoi (args ! 1), Atoi (args ! 2)) of
        (Some start, Some stop) \<Rightarrow>
          prog_bind (find_prog Cache_GetList (args ! 0)) (\<lambda>found.
            if \<not> found then Done (array [])
            else prog_bind (read_prog Cache_GetList (args ! 0) (List_LRange start stop))
              (\<lambda>r. Done (array (map bulk r))))
      | _ \<Rightarrow> Done not_an_integer)"

definition p_LLen :: "env \<Rightarrow> string list \<Rightarrow> (handler, RESPValue) prog" where
  "p_LLen env args =
     (if length args < 1 then Done (wrong_args ''llen'')
      else prog_bind (find_prog Cache_GetList (args ! 0)) (\<lambda>found.
        if \<not> found then Done (integer 0)
        else prog_bind (read_prog Cache_GetList (args ! 0) List_LLen) (\<lambda>r. Done (integer r))))"

subsection \<open>Sets\<close>

definition p_SAdd :: "env \<Rightarrow> string list \<Rightarrow> (handler, RESPValue) prog" where
  "p_SAdd env args =
     (if length args < 2 then Done (wrong_args ''sadd'')
      else prog_bind (create_prog Cache_GetOrCreateSet (args ! 0)) (\<lambda>_.
        prog_bind (update_prog Cache_GetSet Cache_put_set (args ! 0) (Set_Add (drop 1 args))) (\<lambda>n.
          logged ''SADD'' args (integer n))))"

definition p_SRem :: "env \<Rightarrow> string list \<Rightarrow> (handler, RESPValue) prog" where
  "p_SRem env args =
     (if length args < 2 then Done (wrong_args ''srem'')
      else prog_bind (find_prog Cache_GetSet (args ! 0)) (\<lambda>found.
        if \<not> found then Done (integer 0)
        else prog_bind (update_prog Cache_GetSet Cache_put_set (args ! 0) (Set_Remove (drop 1 args)))
          (\<lambda>n. logged ''SREM'' args (integer n))))"

definition p_SMembers :: "env \<Rightarrow> string list \<Rightarrow> (handler, RESPValue) prog" where
  "p_SMembers env args =
     (if length args < 1 then Done (wrong_args ''smembers'')
      else prog_bind (find_prog Cache_GetSet (args ! 0)) (\<lambda>found.
        if \<not> found then Done (array [])
        else prog_bind (read_prog Cache_GetSet (args ! 0) (Set_Members (iter env)))
          (\<lambda>r. Done (array (map bulk r)))))"

definition p_SIsMember :: "env \<Rightarrow> string list \<Rightarrow> (handler, RESPValue) prog" where
  "p_SIsMember env args =
     (if length args < 2 then Done (wrong_args ''sismember'')
      else prog_bind (find_prog Cache_GetSet (args ! 0)) (\<lambda>found.
        if \<not> found then Done (integer 0)
        else prog_bind (read_prog Cache_GetSet (args ! 0) (Set_IsMember (args ! 1)))
          (\<lambda>r. Done (if r then integer 1 else integer 0))))"

definition p_SCard :: "env \<Rightarrow> string list \<Rightarrow> (handler, RESPValue) prog" where
  "p_SCard env args =
     (if length args < 1 then Done (wrong_args ''scard'')
      else prog_bind (find_prog Cache_GetSet (args ! 0)) (\<lambda>found.
        if \<not> found then Done (integer 0)
        else prog_bind (read_prog Cache_GetSet (args ! 0) Set_Len) (\<lambda>r. Done (integer r))))"

subsection \<open>Sorted sets\<close>

fun zadd_prog :: "env \<Rightarrow> string \<Rightarrow> (string \<times> string) list \<Rightarrow> int \<Rightarrow> (handler, int option) prog" where
  "zadd_prog env key [] n = Done (Some n)"
| "zadd_prog env key ((score, member) # rest) n =
     (case parse_float env score of
        None \<Rightarrow> Done None
      | Some x \<Rightarrow>
          prog_bind (update_prog Cache_GetSortedSet Cache_put_sorted_set key (SortedSet_Add x member))
            (\<lambda>b. zadd_prog env key rest (if b then n + 1 else n)))"

definition p_ZAdd :: "env \<Rightarrow> string list \<Rightarrow> (handler, RESPValue) prog" where
  "p_ZAdd env args =
     (if length args < 3 then Done (wrong_args ''zadd'')
      else let key = args ! 0; pairs = drop 1 args in
        if length pairs mod 2 \<noteq> 0 then Done (wrong_args ''zadd'')
        else prog_bind (create_prog Cache_GetOrCreateSortedSet key) (\<lambda>_.
          prog_bind (zadd_prog env key (arg_pairs pairs) 0) (\<lambda>r. case r of
            None \<Rightarrow> Done (err ''ERR value is not a valid float'')
          | Some n \<Rightarrow> logged ''ZADD'' args (integer n))))"

definition p_ZRange :: "env \<Rightarrow> string list \<Rightarrow> (handler, RESPValue) prog" where
  "p_ZRange env args =
     (if length args < 3 then Done (wrong_args ''zrange'')
      else case (Atoi (args ! 1), Atoi (args ! 2)) of
        (Some start, Some stop) \<Rightarrow>
          (let withScores = (length args \<ge> 4 \<and> args ! 3 = ''WITHSCORES'') in
           prog_bind (find_prog Cache_GetSortedSet (args ! 0)) (\<lambda>found.
            if \<not> found then Done (array [])
            else prog_bind (read_prog Cache_GetSortedSet (args ! 0) (SortedSet_Range (iter env) start stop))
              (\<lambda>members. Done (array (foldl (\<lambda>result m.
                  result @ [bulk (Member m)]
                    @ (if withScores then [bulk (format_float env (Score m))] else []))
                  [] members)))))
      | _ \<Rightarrow> Done not_an_integer)"

definition p_ZRem :: "env \<Rightarrow> string list \<Rightarrow> (handler, RESPValue) prog" where
  "p_ZRem env args =
     (if length args < 2 then Done (wrong_args ''zrem'')
      else prog_bind (find_prog Cache_GetSortedSet (args ! 0)) (\<lambda>found.
        if \<not> found then Done (integer 0)
        else prog_bind (prog_count (\<lambda>member.
            update_prog Cache_GetSortedSet Cache_put_sorted_set (args ! 0) (SortedSet_Remove member)) (drop 1 args) 0)
          (\<lambda>n. logged ''ZREM'' args (integer n))))"

definition p_ZCard :: "env \<Rightarrow> string list \<Rightarrow> (handler, RESPValue) prog" where
  "p_ZCard env args =
     (if length args < 1 then Done (wrong_args ''zcard'')
      else prog_bind (find_prog Cache_GetSortedSet (args ! 0)) (\<lambda>found.
        if \<not> found then Done (integer 0)
        else prog_bind (read_prog Cache_GetSortedSet (args ! 0) SortedSet_Len)
          (\<lambda>r. Done (integer r))))"

definition p_ZScore :: "env \<Rightarrow> string list \<Rightarrow> (handler, RESPValue) prog" where
  "p_ZScore env args =
     (if length args < 2 then Done (wrong_args ''zscore'')
      else prog_bind (find_prog Cache_GetSortedSet (args ! 0)) (\<lambda>found.
        if \<not> found then Done null_bulk
        else prog_bind (read_prog Cache_GetSortedSet (args ! 0) (SortedSet_Score (args ! 1)))
          (\<lambda>r. Done (bulk_or_null (map_option (format_float env) r)))))"

subsection \<open>The table\<close>

text \<open>The handlers that use the data: all but PING and ECHO, which take no lock, and MEMORY, POLICY
  and SCAN, which read the shards one after the other.\<close>

definition programs :: "(string \<times> (env \<Rightarrow> string list \<Rightarrow> (handler, RESPValue) prog)) list" where
  "programs =
    [(''GET'', p_Get), (''EXISTS'', p_Exists), (''SET'', p_Set), (''DEL'', p_Delete),
     (''TTL'', p_TTL), (''APPEND'', p_Append), (''STRLEN'', p_Strlen), (''HSET'', p_HSet),
     (''HGET'', p_HGet), (''HGETALL'', p_HGetAll), (''HDEL'', p_HDel), (''HLEN'', p_HLen),
     (''HEXISTS'', p_HExists), (''HKEYS'', p_HKeys), (''HVALS'', p_HVals), (''LPUSH'', p_LPush),
     (''RPUSH'', p_RPush), (''LPOP'', p_LPop), (''RPOP'', p_RPop), (''LRANGE'', p_LRange),
     (''LLEN'', p_LLen), (''SADD'', p_SAdd), (''SREM'', p_SRem), (''SMEMBERS'', p_SMembers),
     (''SISMEMBER'', p_SIsMember), (''SCARD'', p_SCard), (''ZADD'', p_ZAdd), (''ZRANGE'', p_ZRange),
     (''ZREM'', p_ZRem), (''ZCARD'', p_ZCard), (''ZSCORE'', p_ZScore), (''MGET'', p_MGet),
     (''MSET'', p_MSet), (''MSETNX'', p_MSetNX)]"

end
