(* ===== verification/SectionProps.thy ===== *)
theory SectionProps
  imports Sections
begin

section \<open>What the sections of a handler do, alone and interleaved\<close>

text \<open>
  A handler whose sections run one after the other without interruption is the handler of the
  theories Handler and HandlerData; the invariant of the cache holds after every section of every
  schedule.  The four kinds of containers share a locale: the laws of looking up, storing and
  creating a container under its key.
\<close>

abbreviation data_ok :: "handler \<Rightarrow> bool" where
  "data_ok h \<equiv> cache_ok lru_ok (h_cache h)"

subsection \<open>Containers under their keys\<close>

locale slot =
  fixes get :: "string \<Rightarrow> lru cache \<Rightarrow> 'x list option"
    and put :: "string \<Rightarrow> 'x list \<Rightarrow> lru cache \<Rightarrow> lru cache"
    and create :: "string \<Rightarrow> lru cache \<Rightarrow> 'x list \<times> bool \<times> lru cache"
    and ok :: "'x list \<Rightarrow> bool"
  assumes get_put: "cache_size_ok c \<Longrightarrow> get k (put k x c) = Some x"
    and put_put: "cache_size_ok c \<Longrightarrow> put k y (put k x c) = put k y c"
    and put_get: "cache_size_ok c \<Longrightarrow> get k c = Some x \<Longrightarrow> put k x c = c"
    and put_size: "cache_size_ok (put k x c) = cache_size_ok c"
    and create_eq: "create k c = (or_empty (get k c), get k c = None, if get k c = None then put k [] c else c)"
    and put_ok: "cache_ok lru_ok c \<Longrightarrow> ok x \<Longrightarrow> cache_ok lru_ok (put k x c)"
    and get_ok: "cache_ok lru_ok c \<Longrightarrow> ok (or_empty (get k c))"
    and ok_empty: "ok []"
begin

lemma run_find [simp]: "prog_run (find_prog get k) h = (get k (h_cache h) \<noteq> None, h)"
  by (simp add: find_prog_def cache_section_def)

lemma run_read [simp]: "prog_run (read_prog get k f) h = (f (or_empty (get k (h_cache h))), h)"
  by (simp add: read_prog_def cache_section_def)

lemma run_update [simp]: "prog_run (update_prog get put k f) h
    = (fst (f (or_empty (get k (h_cache h)))),
       h\<lparr>h_cache := put k (snd (f (or_empty (get k (h_cache h))))) (h_cache h)\<rparr>)"
  by (simp add: update_prog_def cache_section_def case_prod_unfold)

lemma run_create: "prog_run (create_prog create k) h
    = ((), if get k (h_cache h) = None then h\<lparr>h_cache := put k [] (h_cache h)\<rparr> else h)"
  by (simp add: create_prog_def cache_section_def create_eq)

text \<open>After the creation the container is there.\<close>

lemma created:
  assumes "cache_size_ok (h_cache h)"
  shows "\<exists>h'. prog_run (create_prog create k) h = ((), h') \<and> cache_size_ok (h_cache h')
    \<and> get k (h_cache h') = Some (or_empty (get k (h_cache h)))
    \<and> (\<forall>x. h'\<lparr>h_cache := put k x (h_cache h')\<rparr>
         = h\<lparr>h_cache := put k x (snd (snd (create k (h_cache h))))\<rparr>)"
  using assms by (auto simp: run_create put_size get_put create_eq)

text \<open>A loop of updates of one container.\<close>

lemma run_count:
  assumes "\<And>a h x. cache_size_ok (h_cache h) \<Longrightarrow> get k (h_cache h) = Some x \<Longrightarrow>
      prog_run (body a) h = (fst (f a x), h\<lparr>h_cache := put k (snd (f a x)) (h_cache h)\<rparr>)"
    and "cache_size_ok (h_cache h)" and "get k (h_cache h) = Some x"
  shows "prog_run (prog_count body xs n) h
    = (n + fst (count_loop f xs x), h\<lparr>h_cache := put k (snd (count_loop f xs x)) (h_cache h)\<rparr>)"
  using assms(2,3)
proof (induction xs arbitrary: n h x)
  case Nil
  then show ?case by (simp add: put_get)
next
  case (Cons a xs)
  let ?h = "h\<lparr>h_cache := put k (snd (f a x)) (h_cache h)\<rparr>"
  from Cons.IH [of ?h "snd (f a x)"] Cons.prems show ?case
    by (simp add: assms(1) put_size get_put put_put)
qed

lemma run_count_update:
  assumes "cache_size_ok (h_cache h)" and "get k (h_cache h) = Some x"
  shows "prog_run (prog_count (\<lambda>a. update_prog get put k (f a)) xs n) h
    = (n + fst (count_loop f xs x), h\<lparr>h_cache := put k (snd (count_loop f xs x)) (h_cache h)\<rparr>)"
  by (rule run_count) (simp_all add: assms)

lemma safe_find: "safe data_ok (find_prog get k)" "safe data_ok (read_prog get k f)"
  by (simp_all add: find_prog_def read_prog_def cache_section_def safe_section)

lemma safe_create: "safe data_ok (create_prog create k)"
  by (auto simp: create_prog_def cache_section_def create_eq put_ok ok_empty intro!: safe_section)

lemma safe_update: "(\<And>x. ok x \<Longrightarrow> ok (snd (f x))) \<Longrightarrow> safe data_ok (update_prog get put k f)"
  by (auto simp: update_prog_def cache_section_def case_prod_unfold put_ok get_ok intro!: safe_section)

end

lemma map_put_twice [simp]: "map_put k y (map_put k x m) = map_put k y m"
  by (induction m) auto

lemma map_put_same: "map_of m k = Some x \<Longrightarrow> map_put k x m = m"
  by (induction m) auto

lemma Cache_put_over: "Cache_put k s (Cache_put k s' c) = Cache_put k s c"
  by (simp add: Cache_put_def getShard_def)

lemma Shard_put_laws:
  "Shard_put_hash k h (Shard_put_hash k h' s) = Shard_put_hash k h s"
  "Shard_put_list k l (Shard_put_list k l' s) = Shard_put_list k l s"
  "Shard_put_set k x (Shard_put_set k x' s) = Shard_put_set k x s"
  "Shard_put_sorted_set k z (Shard_put_sorted_set k z' s) = Shard_put_sorted_set k z s"
  "Shard_GetHash k s = Some h \<Longrightarrow> Shard_put_hash k h s = s"
  "Shard_GetList k s = Some l \<Longrightarrow> Shard_put_list k l s = s"
  "Shard_GetSet k s = Some x \<Longrightarrow> Shard_put_set k x s = s"
  "Shard_GetSortedSet k s = Some z \<Longrightarrow> Shard_put_sorted_set k z s = s"
  by (simp_all add: Shard_put_hash_def Shard_put_list_def Shard_put_set_def Shard_put_sorted_set_def
      Shard_GetHash_def Shard_GetList_def Shard_GetSet_def Shard_GetSortedSet_def map_put_same)

lemma Cache_put_laws:
  assumes "cache_size_ok c"
  shows "Cache_put_hash k h (Cache_put_hash k h' c) = Cache_put_hash k h c"
    and "Cache_put_list k l (Cache_put_list k l' c) = Cache_put_list k l c"
    and "Cache_put_set k x (Cache_put_set k x' c) = Cache_put_set k x c"
    and "Cache_put_sorted_set k z (Cache_put_sorted_set k z' c) = Cache_put_sorted_set k z c"
  by (simp_all add: Cache_put_hash_def Cache_put_list_def Cache_put_set_def Cache_put_sorted_set_def
      Cache_shard_put [OF assms] Shard_put_laws Cache_put_over)

lemma Cache_put_same:
  "Cache_GetHash k c = Some h \<Longrightarrow> Cache_put_hash k h c = c"
  "Cache_GetList k c = Some l \<Longrightarrow> Cache_put_list k l c = c"
  "Cache_GetSet k c = Some x \<Longrightarrow> Cache_put_set k x c = c"
  "Cache_GetSortedSet k c = Some z \<Longrightarrow> Cache_put_sorted_set k z c = c"
  by (simp_all add: Cache_put_hash_def Cache_put_list_def Cache_put_set_def Cache_put_sorted_set_def
      Cache_GetHash_def Cache_GetList_def Cache_GetSet_def Cache_GetSortedSet_def Shard_put_laws)

lemma Cache_put_size [simp]:
  "cache_size_ok (Cache_put_hash k h c) = cache_size_ok c"
  "cache_size_ok (Cache_put_list k l c) = cache_size_ok c"
  "cache_size_ok (Cache_put_set k x c) = cache_size_ok c"
  "cache_size_ok (Cache_put_sorted_set k z c) = cache_size_ok c"
  by (simp_all add: Cache_put_hash_def Cache_put_list_def Cache_put_set_def Cache_put_sorted_set_def)

interpretation hash_slot: slot Cache_GetHash Cache_put_hash Cache_GetOrCreateHash map_ok
  by unfold_locales (simp_all add: Cache_put_laws Cache_put_same Cache_GetOrCreate_eqs
      Cache_put_containers_ok Cache_or_empty_ok NewHash_def)

interpretation list_slot: slot Cache_GetList Cache_put_list Cache_GetOrCreateList "\<lambda>_. True"
  by unfold_locales (simp_all add: Cache_put_laws Cache_put_same Cache_GetOrCreate_eqs
      Cache_put_containers_ok NewList_def)

interpretation set_slot: slot Cache_GetSet Cache_put_set Cache_GetOrCreateSet map_ok
  by unfold_locales (simp_all add: Cache_put_laws Cache_put_same Cache_GetOrCreate_eqs
      Cache_put_containers_ok Cache_or_empty_ok NewSet_def)

interpretation zset_slot: slot Cache_GetSortedSet Cache_put_sorted_set Cache_GetOrCreateSortedSet map_ok
  by unfold_locales (simp_all add: Cache_put_laws Cache_put_same Cache_GetOrCreate_eqs
      Cache_put_containers_ok Cache_or_empty_ok NewSortedSet_def)

subsection \<open>Strings\<close>

lemma run_cache_section [simp]:
  "prog_run (cache_section f) h = (fst (f (h_cache h)), h\<lparr>h_cache := snd (f (h_cache h))\<rparr>)"
  by (simp add: cache_section_def case_prod_unfold)

lemma run_logged [simp]: "prog_run (logged cmd args r) h = (r, go_log cmd args h)"
  by (simp add: logged_def)

lemma run_set [simp]:
  "prog_run (set_prog now k v ttl) h = ((), h\<lparr>h_cache := Cache_Set lru_evictor now k v ttl (h_cache h)\<rparr>)"
  by (simp add: set_prog_def)

lemma run_has [simp]: "prog_run (has_prog k) h = (Cache_HasKey lru_evictor k (h_cache h), h)"
  by (simp add: has_prog_def)

lemma Cache_lookup_parts:
  assumes "cache_size_ok c"
  shows "fst (Cache_lookup k c) = fst (ev_Get lru_evictor k (evictor (Cache_shard k c)))"
    and "Cache_shard k (snd (Cache_lookup k c))
      = (Cache_shard k c)\<lparr>evictor := snd (ev_Get lru_evictor k (evictor (Cache_shard k c)))\<rparr>"
    and "Cache_put k s (snd (Cache_lookup k c)) = Cache_put k s c"
  by (simp_all add: Cache_lookup_def Let_def case_prod_unfold Cache_shard_put assms Cache_put_over)

lemma run_get:
  assumes "cache_size_ok (h_cache h)"
  shows "prog_run (get_prog now k) h = (fst (Cache_Get lru_evictor now k (h_cache h)),
    h\<lparr>h_cache := snd (Cache_Get lru_evictor now k (h_cache h))\<rparr>)"
  by (simp add: get_prog_def Cache_Get_def Shard_Get_def Cache_Delete_def Shard_Delete_def
      Cache_lookup_parts [OF assms] case_prod_unfold split: option.split)
    (simp add: Cache_lookup_def Let_def case_prod_unfold)

lemma run_ttl:
  assumes "cache_size_ok (h_cache h)"
  shows "prog_run (ttl_prog t1 t2 k) h = (fst (Cache_TTL lru_evictor t1 t2 k (h_cache h)),
    h\<lparr>h_cache := snd (Cache_TTL lru_evictor t1 t2 k (h_cache h))\<rparr>)"
  by (simp add: ttl_prog_def Cache_TTL_def Shard_TTL_def Cache_Delete_def Shard_Delete_def
      Cache_lookup_parts [OF assms] case_prod_unfold Let_def split: option.split)
    (simp add: Cache_lookup_def Let_def case_prod_unfold)

lemma Cache_size_strings [simp]:
  "cache_size_ok (snd (Cache_Get E now k c)) = cache_size_ok c"
  "cache_size_ok (Cache_Set E now k v ttl c) = cache_size_ok c"
  "cache_size_ok (snd (Cache_Delete E k c)) = cache_size_ok c"
  by (simp_all add: Cache_Get_def Cache_Set_def Cache_Delete_def case_prod_unfold)

lemma run_delete_loop:
  "prog_run (prog_count (\<lambda>k. cache_section (Cache_Delete E k)) ks n) h
    = (n + fst (count_loop (Cache_Delete E) ks (h_cache h)),
       h\<lparr>h_cache := snd (count_loop (Cache_Delete E) ks (h_cache h))\<rparr>)"
  by (induction ks arbitrary: n h) auto

lemma run_has_loop:
  "prog_run (prog_count has_prog ks n) h
    = (foldl (\<lambda>n k. if Cache_HasKey lru_evictor k (h_cache h) then n + 1 else n) n ks, h)"
  by (induction ks arbitrary: n) auto

lemma run_mget_loop:
  "cache_size_ok (h_cache h) \<Longrightarrow> prog_run (mget_prog env i ks) h
    = (fst (mget_loop env i ks (h_cache h)), h\<lparr>h_cache := snd (mget_loop env i ks (h_cache h))\<rparr>)"
  by (induction env i ks arbitrary: h rule: mget_prog.induct) (simp_all add: run_get case_prod_unfold)

lemma run_mset_loop:
  "prog_run (mset_prog env i kvs) h = ((), h\<lparr>h_cache := mset_loop env i kvs (h_cache h)\<rparr>)"
  by (induction env i kvs arbitrary: h rule: mset_prog.induct) simp_all

lemma run_any:
  "prog_run (any_prog ks) h = (list_ex (\<lambda>k. Cache_HasKey lru_evictor k (h_cache h)) ks, h)"
  by (induction ks) auto

lemma run_hset:
  "prog_run (hset_prog k fv) h = (fst ((\<lambda>(f, v). Hash_Put f v) fv (or_empty (Cache_GetHash k (h_cache h)))),
    h\<lparr>h_cache := Cache_put_hash k (snd ((\<lambda>(f, v). Hash_Put f v) fv (or_empty (Cache_GetHash k (h_cache h))))) (h_cache h)\<rparr>)"
  by (simp add: hset_prog_def Hash_Put_def case_prod_unfold)

lemma run_zadd:
  assumes "cache_size_ok (h_cache h)" and "Cache_GetSortedSet k (h_cache h) = Some ss"
  shows "prog_run (zadd_prog env k ps n) h = (fst (zadd_loop env ps n ss),
    h\<lparr>h_cache := Cache_put_sorted_set k (snd (zadd_loop env ps n ss)) (h_cache h)\<rparr>)"
  using assms
proof (induction env k ps n arbitrary: h ss rule: zadd_prog.induct)
  case (2 env k score member rest n)
  then show ?case
    by (simp add: case_prod_unfold Cache_put_same Cache_put_laws split: option.split)
qed (simp add: Cache_put_same)

subsection \<open>Alone, a program is its handler\<close>

lemma list_ex_fst: "list_ex P (map fst kvs) = list_ex (\<lambda>p. P (fst p)) kvs"
  by (induction kvs) auto

lemma run_strings:
  assumes "cache_size_ok (h_cache h)"
  shows "prog_run (p_Get env args) h = h_Get env args h"
    and "prog_run (p_Exists env args) h = h_Exists env args h"
    and "prog_run (p_Set env args) h = h_Set env args h"
    and "prog_run (p_Delete env args) h = h_Delete env args h"
    and "prog_run (p_TTL env args) h = h_TTL env args h"
    and "prog_run (p_Append env args) h = h_Append env args h"
    and "prog_run (p_Strlen env args) h = h_Strlen env args h"
    and "prog_run (p_MGet env args) h = h_MGet env args h"
    and "prog_run (p_MSet env args) h = h_MSet env args h"
    and "prog_run (p_MSetNX env args) h = h_MSetNX env args h"
  by (simp_all add: p_Get_def h_Get_def p_Exists_def h_Exists_def p_Set_def h_Set_def p_Delete_def
      h_Delete_def p_TTL_def h_TTL_def p_Append_def h_Append_def p_Strlen_def h_Strlen_def
      p_MGet_def h_MGet_def p_MSet_def h_MSet_def p_MSetNX_def h_MSetNX_def run_get run_ttl
      run_delete_loop run_has_loop run_mget_loop run_mset_loop run_any list_ex_fst case_prod_unfold
      Let_def assms)

lemma run_reads:
  "prog_run (p_HGet env args) h = h_HGet env args h"
  "prog_run (p_HGetAll env args) h = h_HGetAll env args h"
  "prog_run (p_HLen env args) h = h_HLen env args h"
  "prog_run (p_HExists env args) h = h_HExists env args h"
  "prog_run (p_HKeys env args) h = h_HKeys env args h"
  "prog_run (p_HVals env args) h = h_HVals env args h"
  "prog_run (p_LRange env args) h = h_LRange env args h"
  "prog_run (p_LLen env args) h = h_LLen env args h"
  "prog_run (p_SMembers env args) h = h_SMembers env args h"
  "prog_run (p_SIsMember env args) h = h_SIsMember env args h"
  "prog_run (p_SCard env args) h = h_SCard env args h"
  "prog_run (p_ZRange env args) h = h_ZRange env args h"
  "prog_run (p_ZCard env args) h = h_ZCard env args h"
  "prog_run (p_ZScore env args) h = h_ZScore env args h"
  by (auto simp: p_HGet_def h_HGet_def p_HGetAll_def h_HGetAll_def p_HLen_def h_HLen_def
      p_HExists_def h_HExists_def p_HKeys_def h_HKeys_def p_HVals_def h_HVals_def
      p_LRange_def h_LRange_def p_LLen_def h_LLen_def p_SMembers_def h_SMembers_def
      p_SIsMember_def h_SIsMember_def p_SCard_def h_SCard_def p_ZRange_def h_ZRange_def
      p_ZCard_def h_ZCard_def p_ZScore_def h_ZScore_def Let_def split: option.split)

lemma run_hashes:
  assumes "cache_size_ok (h_cache h)"
  shows "prog_run (p_HSet env args) h = h_HSet env args h"
    and "prog_run (p_HDel env args) h = h_HDel env args h"
proof -
  obtain h' where h': "prog_run (create_prog Cache_GetOrCreateHash (args ! 0)) h = ((), h')"
      "cache_size_ok (h_cache h')"
      "Cache_GetHash (args ! 0) (h_cache h') = Some (or_empty (Cache_GetHash (args ! 0) (h_cache h)))"
      "\<And>x. h'\<lparr>h_cache := Cache_put_hash (args ! 0) x (h_cache h')\<rparr>
         = h\<lparr>h_cache := Cache_put_hash (args ! 0) x (snd (snd (Cache_GetOrCreateHash (args ! 0) (h_cache h))))\<rparr>"
    using hash_slot.created [OF assms, of "args ! 0"] by blast
  have "prog_run (prog_count (hset_prog (args ! 0)) fvs 0) h'
      = (0 + fst (count_loop (\<lambda>(f, v). Hash_Put f v) fvs (or_empty (Cache_GetHash (args ! 0) (h_cache h)))),
         h'\<lparr>h_cache := Cache_put_hash (args ! 0)
           (snd (count_loop (\<lambda>(f, v). Hash_Put f v) fvs (or_empty (Cache_GetHash (args ! 0) (h_cache h))))) (h_cache h')\<rparr>)" for fvs
    by (rule hash_slot.run_count [OF _ h'(2,3)]) (simp add: run_hset)
  then show "prog_run (p_HSet env args) h = h_HSet env args h"
    by (simp add: p_HSet_def h_HSet_def Let_def h'(1,4) case_prod_unfold Cache_GetOrCreate_eqs)
  show "prog_run (p_HDel env args) h = h_HDel env args h"
    by (auto simp: p_HDel_def h_HDel_def Let_def case_prod_unfold hash_slot.run_count_update assms
        split: option.split)
qed

lemma run_lists:
  assumes "cache_size_ok (h_cache h)"
  shows "prog_run (p_LPush env args) h = h_LPush env args h"
    and "prog_run (p_RPush env args) h = h_RPush env args h"
    and "prog_run (p_LPop env args) h = h_LPop env args h"
    and "prog_run (p_RPop env args) h = h_RPop env args h"
proof -
  obtain h' where h': "prog_run (create_prog Cache_GetOrCreateList (args ! 0)) h = ((), h')"
      "Cache_GetList (args ! 0) (h_cache h') = Some (or_empty (Cache_GetList (args ! 0) (h_cache h)))"
      "\<And>x. h'\<lparr>h_cache := Cache_put_list (args ! 0) x (h_cache h')\<rparr>
         = h\<lparr>h_cache := Cache_put_list (args ! 0) x (snd (snd (Cache_GetOrCreateList (args ! 0) (h_cache h))))\<rparr>"
    using list_slot.created [OF assms, of "args ! 0"] by blast
  show "prog_run (p_LPush env args) h = h_LPush env args h"
    by (simp add: p_LPush_def h_LPush_def Let_def h' case_prod_unfold Cache_GetOrCreate_eqs)
  show "prog_run (p_RPush env args) h = h_RPush env args h"
    by (simp add: p_RPush_def h_RPush_def Let_def h' case_prod_unfold Cache_GetOrCreate_eqs)
  show "prog_run (p_LPop env args) h = h_LPop env args h"
    by (auto simp: p_LPop_def h_LPop_def case_prod_unfold List_LPop_def Cache_put_same
        split: option.split list.split)
  show "prog_run (p_RPop env args) h = h_RPop env args h"
    by (auto simp: p_RPop_def h_RPop_def case_prod_unfold List_RPop_def Cache_put_same
        split: option.split)
qed

lemma run_sets:
  assumes "cache_size_ok (h_cache h)"
  shows "prog_run (p_SAdd env args) h = h_SAdd env args h"
    and "prog_run (p_SRem env args) h = h_SRem env args h"
proof -
  obtain h' where h': "prog_run (create_prog Cache_GetOrCreateSet (args ! 0)) h = ((), h')"
      "Cache_GetSet (args ! 0) (h_cache h') = Some (or_empty (Cache_GetSet (args ! 0) (h_cache h)))"
      "\<And>x. h'\<lparr>h_cache := Cache_put_set (args ! 0) x (h_cache h')\<rparr>
         = h\<lparr>h_cache := Cache_put_set (args ! 0) x (snd (snd (Cache_GetOrCreateSet (args ! 0) (h_cache h))))\<rparr>"
    using set_slot.created [OF assms, of "args ! 0"] by blast
  show "prog_run (p_SAdd env args) h = h_SAdd env args h"
    by (simp add: p_SAdd_def h_SAdd_def Let_def h' case_prod_unfold Cache_GetOrCreate_eqs)
  show "prog_run (p_SRem env args) h = h_SRem env args h"
    by (auto simp: p_SRem_def h_SRem_def Let_def case_prod_unfold split: option.split)
qed

lemma run_zsets:
  assumes "cache_size_ok (h_cache h)"
  shows "prog_run (p_ZAdd env args) h = h_ZAdd env args h"
    and "prog_run (p_ZRem env args) h = h_ZRem env args h"
proof -
  obtain h' where h': "prog_run (create_prog Cache_GetOrCreateSortedSet (args ! 0)) h = ((), h')"
      "cache_size_ok (h_cache h')"
      "Cache_GetSortedSet (args ! 0) (h_cache h') = Some (or_empty (Cache_GetSortedSet (args ! 0) (h_cache h)))"
      "\<And>x. h'\<lparr>h_cache := Cache_put_sorted_set (args ! 0) x (h_cache h')\<rparr>
         = h\<lparr>h_cache := Cache_put_sorted_set (args ! 0) x (snd (snd (Cache_GetOrCreateSortedSet (args ! 0) (h_cache h))))\<rparr>"
    using zset_slot.created [OF assms, of "args ! 0"] by blast
  show "prog_run (p_ZAdd env args) h = h_ZAdd env args h"
    by (simp add: p_ZAdd_def h_ZAdd_def Let_def h'(1,4) run_zadd [OF h'(2,3)] case_prod_unfold
        Cache_GetOrCreate_eqs split: option.split)
  show "prog_run (p_ZRem env args) h = h_ZRem env args h"
    by (auto simp: p_ZRem_def h_ZRem_def Let_def case_prod_unfold zset_slot.run_count_update assms
        split: option.split)
qed

lemmas run_programs = run_strings run_reads run_hashes run_lists run_sets run_zsets

definition runs_as :: "string \<Rightarrow> (env \<Rightarrow> string list \<Rightarrow> (handler, RESPValue) prog) \<Rightarrow> bool" where
  "runs_as n p \<longleftrightarrow> (\<exists>f. GetHandler n = Some (total f)
     \<and> (\<forall>env args h. cache_size_ok (h_cache h) \<longrightarrow> prog_run (p env args) h = f env args h))"

lemma runs_asI:
  "(\<And>env args h. cache_size_ok (h_cache h) \<Longrightarrow> prog_run (p env args) h = f env args h) \<Longrightarrow>
     GetHandler n = Some (total f) \<Longrightarrow> runs_as n p"
  by (auto simp: runs_as_def)

lemma programs_run: "list_all (\<lambda>(n, p). runs_as n p) programs"
  unfolding programs_def
  by (simp only: list.pred_inject prod.case simp_thms, intro conjI;
      rule runs_asI, rule run_programs, assumption?, simp add: GetHandler_def commands_def)

lemma programs_all: "list_all (\<lambda>(n, p). P n p) programs \<Longrightarrow> map_of programs cmd = Some p \<Longrightarrow> P cmd p"
  by (auto simp: list_all_iff dest!: map_of_SomeD)

text \<open>C11: A handler whose sections run one after the other, with no section of another handler in
  between, gives the reply and the state of the handler as the other theories have it: for every
  command of the table that has a program.\<close>

theorem sections_alone:
  assumes "map_of programs cmd = Some p" and "cache_size_ok (h_cache h)"
  shows "\<exists>f. GetHandler cmd = Some f \<and> f env args h = Ret (prog_run (p env args) h)"
  using programs_all [OF programs_run assms(1)] assms(2) by (auto simp: runs_as_def total_def)

subsection \<open>Every section keeps the invariant\<close>

lemma safe_cache_section:
  "(\<And>c. cache_ok lru_ok c \<Longrightarrow> cache_ok lru_ok (snd (f c))) \<Longrightarrow> safe data_ok (cache_section f)"
  by (auto simp: cache_section_def case_prod_unfold intro!: safe_section)

lemma safe_logged: "safe data_ok (logged cmd args r)"
  by (auto simp: logged_def intro!: safe_section)

lemma Cache_lookup_ok:
  assumes "cache_ok lru_ok c"
  shows "cache_ok lru_ok (snd (Cache_lookup k c))"
proof -
  have s: "shard_ok lru_ok (Cache_shard k c)" by (rule cache_ok_shard [OF assms])
  have "lru_ok (snd (ev_Get lru_evictor k (evictor (Cache_shard k c))))"
    by (rule lru.inv_Get) (rule shard_ok_inv [OF s])
  then show ?thesis
    unfolding Cache_lookup_def Let_def case_prod_unfold snd_conv
    by (rule cache_ok_put [OF assms shard_ok_evictor [OF s]])
qed

lemma safe_parts:
  "safe data_ok (cache_section (Cache_lookup k))"
  "safe data_ok (cache_section (Cache_Delete lru_evictor k))"
  "safe data_ok (set_prog now k v ttl)"
  "safe data_ok (has_prog k)"
  unfolding set_prog_def has_prog_def
  by (rule safe_cache_section; simp add: Cache_lookup_ok lru.Cache_Delete_eq(2) lru.Cache_Set_ok)+

lemma safe_get: "safe data_ok (get_prog now k)"
  unfolding get_prog_def by (intro safe_bind safe_parts) (auto intro!: safe_bind safe_parts split: option.split)

lemma safe_ttl: "safe data_ok (ttl_prog t1 t2 k)"
  unfolding ttl_prog_def Let_def
  by (intro safe_bind safe_parts) (auto intro!: safe_bind safe_parts split: option.split)

lemma safe_mget: "safe data_ok (mget_prog env i ks)"
  by (induction env i ks rule: mget_prog.induct) (auto intro!: safe_bind safe_get)

lemma safe_mset: "safe data_ok (mset_prog env i kvs)"
  by (induction env i kvs rule: mset_prog.induct) (auto intro!: safe_bind safe_parts)

lemma safe_any: "safe data_ok (any_prog ks)"
  by (induction ks) (auto intro!: safe_bind safe_parts)

lemma safe_hset: "safe data_ok (hset_prog k fv)"
  unfolding hset_prog_def
  by (auto simp: Hash_Set_def intro!: safe_bind hash_slot.safe_find hash_slot.safe_update split: prod.split)

lemma safe_zadd: "safe data_ok (zadd_prog env k ps n)"
  by (induction env k ps n rule: zadd_prog.induct)
    (auto simp: SortedSet_Add_def intro!: safe_bind zset_slot.safe_update split: option.split)

lemmas safe_intros = safe_bind safe_count safe_logged safe_parts safe_get safe_ttl safe_mget safe_mset
  safe_any safe_hset safe_zadd hash_slot.safe_find list_slot.safe_find set_slot.safe_find zset_slot.safe_find
  hash_slot.safe_create list_slot.safe_create set_slot.safe_create zset_slot.safe_create
  hash_slot.safe_update list_slot.safe_update set_slot.safe_update zset_slot.safe_update

lemma container_steps_ok:
  "map_ok x \<Longrightarrow> map_ok (snd (Hash_Delete f x))"
  "map_ok y \<Longrightarrow> map_ok (snd (Set_Add ms y))"
  "map_ok y \<Longrightarrow> map_ok (snd (Set_Remove ms y))"
  "map_ok z \<Longrightarrow> map_ok (snd (SortedSet_Remove m z))"
  by (simp_all add: Hash_Delete_def SortedSet_Remove_def Set_Add_spec Set_Remove_spec)

lemma programs_safe: "list_all (\<lambda>(n, p). \<forall>env args. safe data_ok (p env args)) programs"
  unfolding programs_def p_Get_def p_Exists_def p_Set_def p_Delete_def p_TTL_def p_Append_def p_Strlen_def p_MGet_def
    p_MSet_def p_MSetNX_def p_HSet_def p_HGet_def p_HGetAll_def p_HDel_def p_HLen_def p_HExists_def
    p_HKeys_def p_HVals_def p_LPush_def p_RPush_def p_LPop_def p_RPop_def p_LRange_def p_LLen_def
    p_SAdd_def p_SRem_def p_SMembers_def p_SIsMember_def p_SCard_def p_ZAdd_def p_ZRange_def p_ZRem_def
    p_ZCard_def p_ZScore_def Let_def
  by (simp only: list.pred_inject prod.case simp_thms, intro conjI;
      auto intro!: safe_intros container_steps_ok split: option.split)


subsection \<open>Witnesses\<close>

definition witness_handler :: handler where
  "witness_handler = NewHandler (NewCache (Engine DefaultConfig)) True"

lemma witness_handler_ok:
  "cache_ok lru_ok (h_cache witness_handler)" "cache_size_ok (h_cache witness_handler)"
  "h_mgr witness_handler" "h_spawned witness_handler = []" "lru_item (h_cache witness_handler) k = None"
  by (simp_all add: witness_handler_def NewHandler_def NewCache_ok NewCache_size NewCache_item)

lemma sections_alone_witness:
  "\<exists>f. GetHandler ''APPEND'' = Some f
     \<and> f witness_env [''k'', ''v''] witness_handler = Ret (prog_run (p_Append witness_env [''k'', ''v'']) witness_handler)"
  by (rule sections_alone) (simp_all add: programs_def witness_handler_ok)


end
