(* ===== verification/SectionRaces.thy ===== *)
theory SectionRaces
  imports SectionProps
begin

section \<open>What handlers that interleave can and cannot lose\<close>

text \<open>
  Two handlers of the theory Sections on the same key: what the code loses when the sections of
  APPEND, MSETNX, HSET, MGET and of a GET that meets an expired item interleave with those of
  another command, and what it keeps: the commands of one section are linearizable, and pushes to
  a list are never lost, although a push has two sections.
\<close>

lemma Cache_lookup_result: "cache_ok lru_ok c \<Longrightarrow> fst (Cache_lookup k c) = lru_item c k"
  using lru.Get_result [OF shard_ok_inv [OF cache_ok_shard, of lru_ok c k], of k]
  by (simp add: Cache_lookup_parts(1) [OF cache_okD] cache_item_def)

lemma Cache_lookup_keeps:
  assumes "cache_ok lru_ok c"
  shows "lru_item (snd (Cache_lookup k c)) = lru_item c"
proof -
  have "map_of (lru_abs (snd (ev_Get lru_evictor k (evictor (Cache_shard k c)))))
      = map_of (lru_abs (evictor (Cache_shard k c)))"
    by (rule lru.Get_contents [OF shard_ok_inv [OF cache_ok_shard [OF assms]]])
  then show ?thesis
    by (auto simp: Cache_lookup_def Let_def case_prod_unfold fun_eq_iff cache_item_def
        Cache_shard_put [OF cache_okD [OF assms]] getShard_def) (metis Cache_shard_def getShard_def)
qed

lemma section_parts:
  "cache_section f = Section (\<lambda>h. h\<lparr>h_cache := snd (f (h_cache h))\<rparr>) (\<lambda>h. Done (fst (f (h_cache h))))"
  "logged cmd args r = Section (go_log cmd args) (\<lambda>_. Done r)"
  by (simp_all add: cache_section_def logged_def section_of_def case_prod_unfold)

lemmas prog_simps = section_parts get_prog_def set_prog_def has_prog_def update_prog_def read_prog_def
  create_prog_def case_prod_unfold

lemma get_after_set:
  "cache_ok lru_ok c \<Longrightarrow> fst (Cache_Get lru_evictor t k (Cache_Set lru_evictor now k v 0 c)) = Some v"
  by (simp add: lru.Cache_Get_eq(1) [OF lru.Cache_Set_ok] lru.Cache_Set_hit)



text \<open>Two MSETNX of the same key that interleave both find it free and both answer 1, although
  MSETNX promises that only the first one sets it.\<close>

theorem msetnx_both:
  assumes "cache_ok lru_ok (h_cache h)" and "lru_item (h_cache h) k = None"
    and "weave [0, 1, 0, 0, 1, 1] [p_MSetNX env1 [k, a], p_MSetNX env2 [k, b]] h = (qs, h')"
  shows "qs = [Done (integer 1), Done (integer 1)]
    \<and> fst (Cache_Get lru_evictor t k (h_cache h')) = Some b"
  using assms(3)
  by (auto simp: p_MSetNX_def prog_simps lru.Cache_HasKey_eq get_after_set lru.Cache_Set_ok assms(1,2))

lemma msetnx_both_witness:
  "\<exists>h'. weave [0, 1, 0, 0, 1, 1] [p_MSetNX witness_env [''k'', ''a''], p_MSetNX witness_env [''k'', ''b'']] witness_handler
     = ([Done (integer 1), Done (integer 1)], h')"
proof -
  obtain qs h' where "weave [0, 1, 0, 0, 1, 1] [p_MSetNX witness_env [''k'', ''a''], p_MSetNX witness_env [''k'', ''b'']]
      witness_handler = (qs, h')" by fastforce
  with msetnx_both [OF witness_handler_ok(1) witness_handler_ok(5) this] show ?thesis by simp
qed

text \<open>C37: A read can delete an acknowledged write.  GET finds an expired item and lets go of the lock;
  a SET of the key stores a new value and is acknowledged; GET then takes the lock again and
  removes whatever the key holds now.\<close>

theorem expired_get_deletes_write:
  assumes "cache_ok lru_ok (h_cache h)" and "lru_item (h_cache h) k = Some i"
    and "IsExpired (clk env1 0) i"
    and "weave [0, 1, 1, 0] [p_Get env1 [k], p_Set env2 (k # v # rest)] h = (qs, h')"
  shows "qs = [Done null_bulk, Done (simple ''OK'')] \<and> lru_item (h_cache h') k = None"
  using assms(4)
  by (auto simp: p_Get_def p_Set_def prog_simps Cache_lookup_result Cache_lookup_ok Cache_lookup_keeps
      lru.Cache_Set_ok lru.Cache_Delete_eq bulk_or_null_def assms(1-3))

lemma expired_get_deletes_write_witness:
  "\<exists>h'. weave [0, 1, 1, 0] [p_Get (witness_env\<lparr>clk := \<lambda>_. 200\<rparr>) [''k''], p_Set witness_env [''k'', ''new'']]
       (witness_handler\<lparr>h_cache := Cache_Set lru_evictor 100 ''k'' ''old'' 1 (h_cache witness_handler)\<rparr>)
     = ([Done null_bulk, Done (simple ''OK'')], h') \<and> lru_item (h_cache h') ''k'' = None"
proof -
  let ?h = "witness_handler\<lparr>h_cache := Cache_Set lru_evictor 100 ''k'' ''old'' 1 (h_cache witness_handler)\<rparr>"
  obtain qs h' where w: "weave [0, 1, 1, 0] [p_Get (witness_env\<lparr>clk := \<lambda>_. 200\<rparr>) [''k''], p_Set witness_env [''k'', ''new'']] ?h
      = (qs, h')" by fastforce
  have "lru_item (h_cache ?h) ''k'' = Some (NewItem 100 ''old'' 1)"
    by (simp add: lru.Cache_Set_hit witness_handler_ok)
  from expired_get_deletes_write [OF _ this _ w] w show ?thesis
    by (auto simp: lru.Cache_Set_ok witness_handler_ok IsExpired_def wrap64_def NewItem_def)
qed

text \<open>Two HSETs of a new field both count it as new.\<close>

lemma hset_both:
  assumes "cache_size_ok (h_cache h)" and "Cache_GetHash k (h_cache h) = None"
    and "weave [0, 1, 0, 1, 0, 1, 0, 1] [p_HSet env1 [k, f, a], p_HSet env2 [k, f, b]] h = (qs, h')"
  shows "qs = [Done (integer 1), Done (integer 1)] \<and> Cache_GetHash k (h_cache h') = Some [(f, b)]"
  using assms(3)
  by (auto simp: p_HSet_def hset_prog_def prog_simps Cache_GetOrCreate_eqs Hash_Has_def Hash_Set_def
      NewHash_def map_has_def assms(1,2))

text \<open>MGET can see half of an MSET.\<close>

lemma mget_torn:
  assumes "cache_ok lru_ok (h_cache h)" and "lru_item (h_cache h) k2 = Some i"
    and "\<not> IsExpired (clk env2 (Suc 0)) i" and "getShard k2 (h_cache h) \<noteq> getShard k1 (h_cache h)"
    and "weave [0, 1, 1, 0, 0] [p_MSet env1 [k1, a, k2, b], p_MGet env2 [k1, k2]] h = (qs, h')"
  shows "qs = [Done (simple ''OK''), Done (array [bulk a, bulk (Value i)])]"
  using assms(5)
  by (auto simp: p_MSet_def p_MGet_def prog_simps Cache_lookup_result Cache_lookup_ok Cache_lookup_keeps
      lru.Cache_Set_ok lru.Cache_Set_hit lru.Cache_Set_elsewhere bulk_or_null_def assms(1-4))

subsection \<open>Commands of one section\<close>

text \<open>One section of the cache, and a step that starts the goroutine of the log.\<close>

definition one_section ::
  "(lru cache \<Rightarrow> RESPValue \<times> lru cache) \<Rightarrow> (string \<times> string list) option \<Rightarrow> (handler, RESPValue) prog" where
  "one_section f l = prog_bind (cache_section f) (\<lambda>r. case l of
     None \<Rightarrow> Done r
   | Some (cmd, args) \<Rightarrow> logged cmd args r)"

definition one_section_request :: "string \<Rightarrow> string list \<Rightarrow> bool" where
  "one_section_request cmd args \<longleftrightarrow> (cmd = ''SET'' \<and> length args \<ge> 2) \<or> (cmd = ''MSET'' \<and> length args = 2)
     \<or> ((cmd = ''DEL'' \<or> cmd = ''EXISTS'') \<and> length args = 1)"

definition request_prog :: "string \<times> string list \<times> env \<Rightarrow> (handler, RESPValue) prog" where
  "request_prog q = (case q of (cmd, args, env) \<Rightarrow> the (map_of programs cmd) env args)"

lemma one_section_commands:
  "length args \<ge> 2 \<Longrightarrow> p_Set env args = one_section
     (\<lambda>c. (simple ''OK'', Cache_Set lru_evictor (clk env 0) (args ! 0) (args ! 1) (set_ttl env args) c)) (Some (''SET'', args))"
  "p_MSet env [k, v] = one_section
     (\<lambda>c. (simple ''OK'', Cache_Set lru_evictor (clk env 0) k v 0 c)) (Some (''MSET'', [k, v]))"
  "p_Delete env [k] = one_section (\<lambda>c. (integer (if fst (Cache_Delete lru_evictor k c) then 1 else 0),
     snd (Cache_Delete lru_evictor k c))) (Some (''DEL'', [k]))"
  "p_Exists env [k] = one_section
     (\<lambda>c. (integer (if Cache_HasKey lru_evictor k c then 1 else 0), c)) None"
  by (auto simp: p_Set_def p_MSet_def p_Delete_def p_Exists_def one_section_def prog_simps fun_eq_iff)

lemma request_one_section:
  "one_section_request cmd args \<Longrightarrow> \<exists>f l. request_prog (cmd, args, env) = one_section f l"
proof -
  assume "one_section_request cmd args"
  then consider (set) "cmd = ''SET''" "length args \<ge> 2"
    | (mset) k v where "cmd = ''MSET''" "args = [k, v]"
    | (del) k where "cmd = ''DEL''" "args = [k]" | (exi) k where "cmd = ''EXISTS''" "args = [k]"
    by (auto simp: one_section_request_def numeral_2_eq_2 length_Suc_conv)
  then show ?thesis
  proof cases
    case set
    then have "request_prog (cmd, args, env) = p_Set env args" by (simp add: request_prog_def programs_def)
    then show ?thesis unfolding one_section_commands(1) [OF set(2)] by blast
  next
    case mset
    then have "request_prog (cmd, args, env) = p_MSet env [k, v]" by (simp add: request_prog_def programs_def)
    then show ?thesis unfolding one_section_commands(2) by blast
  next
    case del
    then have "request_prog (cmd, args, env) = p_Delete env [k]" by (simp add: request_prog_def programs_def)
    then show ?thesis unfolding one_section_commands(3) by blast
  next
    case exi
    then have "request_prog (cmd, args, env) = p_Exists env [k]" by (simp add: request_prog_def programs_def)
    then show ?thesis unfolding one_section_commands(4) by blast
  qed
qed

text \<open>The programs one after the other, in the given order.\<close>

fun in_turn :: "('s, 'r) prog list \<Rightarrow> nat list \<Rightarrow> 's \<Rightarrow> (nat \<times> 'r) list \<times> 's" where
  "in_turn ps [] s = ([], s)"
| "in_turn ps (i # turns) s =
     (case prog_run (ps ! i) s of (r, s1) \<Rightarrow> case in_turn ps turns s1 of (rs, s2) \<Rightarrow> ((i, r) # rs, s2))"

lemma run_one_section: "prog_run (one_section f l) h = (fst (f (h_cache h)),
    (case l of None \<Rightarrow> id | Some (cmd, args) \<Rightarrow> go_log cmd args) (h\<lparr>h_cache := snd (f (h_cache h))\<rparr>))"
  by (auto simp: one_section_def split: option.split)

lemma cache_one_section: "h_cache (snd (prog_run (one_section f l) h)) = snd (f (h_cache h))"
  by (auto simp: run_one_section split: option.split)

text \<open>Their replies and the cache depend on the cache they start with, not on what is logged.\<close>

lemma in_turn_cache:
  assumes "\<forall>p \<in> set ps. \<exists>f l. p = one_section f l" and "set turns \<subseteq> {..<length ps}"
    and "h_cache h1 = h_cache h2"
  shows "fst (in_turn ps turns h1) = fst (in_turn ps turns h2)
    \<and> h_cache (snd (in_turn ps turns h1)) = h_cache (snd (in_turn ps turns h2))"
  using assms(2,3)
proof (induction turns arbitrary: h1 h2)
  case (Cons i turns)
  obtain f l where p: "ps ! i = one_section f l" using assms(1) Cons.prems(1) nth_mem [of i ps] by (metis insert_subset lessThan_iff list.simps(15))
  have "h_cache (snd (prog_run (ps ! i) h1)) = h_cache (snd (prog_run (ps ! i) h2))"
    by (simp add: p cache_one_section Cons.prems(2))
  moreover have "fst (prog_run (ps ! i) h1) = fst (prog_run (ps ! i) h2)"
    by (simp add: p run_one_section Cons.prems(2))
  ultimately show ?case
    using Cons.IH [of "snd (prog_run (ps ! i) h1)" "snd (prog_run (ps ! i) h2)"] Cons.prems(1)
    by (simp add: case_prod_unfold)
qed simp

fun firsts :: "nat \<Rightarrow> nat set \<Rightarrow> nat list \<Rightarrow> nat list" where
  "firsts n S [] = []"
| "firsts n S (i # sched) = (if i < n \<and> i \<notin> S then i # firsts n (insert i S) sched else firsts n S sched)"

lemma firsts_range: "set (firsts n S sched) \<subseteq> {..<n} - S" "distinct (firsts n S sched)"
  by (induction n S sched rule: firsts.induct) auto

text \<open>In the middle of a run: the requests in \<open>S\<close> have had their section and have their replies \<open>R\<close>.\<close>

definition in_progress ::
  "(handler, RESPValue) prog list \<Rightarrow> nat set \<Rightarrow> (nat \<Rightarrow> RESPValue) \<Rightarrow> (handler, RESPValue) prog list \<Rightarrow> bool" where
  "in_progress ps S R qs \<longleftrightarrow> length qs = length ps \<and> (\<forall>i < length ps.
     if i \<in> S then qs ! i = Done (R i) \<or> (\<exists>cmd args. qs ! i = logged cmd args (R i)) else qs ! i = ps ! i)"

lemma weave_in_turn:
  assumes "\<forall>p \<in> set ps. \<exists>f l. p = one_section f l" and "in_progress ps S R qs"
    and "weave sched qs h = (qs', h')" and "turns = firsts (length ps) S sched"
  shows "h_cache h' = h_cache (snd (in_turn ps turns h))
    \<and> (\<forall>i < length ps. \<forall>r. qs' ! i = Done r \<longrightarrow> (if i \<in> S then r = R i else (i, r) \<in> set (fst (in_turn ps turns h))))"
  using assms(2-4)
proof (induction sched arbitrary: S R qs h turns)
  case Nil
  have "\<not> (\<exists>f l r. one_section f l = Done r)" by (simp add: one_section_def section_parts)
  then have "\<exists>u n. ps ! i = Section u n" if "i < length ps" for i
    using assms(1) that nth_mem [OF that] by (metis prog.exhaust)
  with Nil show ?case by (auto simp: in_progress_def section_parts split: if_splits) (metis prog.distinct(1))
next
  case (Cons i sched)
  note len = Cons.prems(1) [unfolded in_progress_def, THEN conjunct1]
  show ?case
  proof (cases "i < length ps \<and> i \<notin> S")
    case True
    then obtain f l where p: "ps ! i = one_section f l" using assms(1) by (metis nth_mem)
    have qi: "qs ! i = one_section f l" using Cons.prems(1) True p by (auto simp: in_progress_def)
    let ?r = "fst (f (h_cache h))" and ?h = "h\<lparr>h_cache := snd (f (h_cache h))\<rparr>"
    let ?q = "case l of None \<Rightarrow> Done ?r | Some (cmd, args) \<Rightarrow> logged cmd args ?r"
    have w: "weave sched (qs[i := ?q]) ?h = (qs', h')"
      using Cons.prems(2) True len qi by (simp add: one_section_def section_parts)
    have prog: "in_progress ps (insert i S) (R(i := ?r)) (qs[i := ?q])"
      using Cons.prems(1) True by (auto simp: in_progress_def nth_list_update split: option.split)
    let ?o = "firsts (length ps) (insert i S) sched"
    have o: "turns = i # ?o" using Cons.prems(3) True by simp
    have "h_cache (snd (prog_run (ps ! i) h)) = h_cache ?h" by (simp add: p cache_one_section)
    from in_turn_cache [OF assms(1) _ this, of ?o] firsts_range(1) [of "length ps" "insert i S" sched]
    have same: "fst (in_turn ps ?o (snd (prog_run (ps ! i) h))) = fst (in_turn ps ?o ?h)"
      "h_cache (snd (in_turn ps ?o (snd (prog_run (ps ! i) h)))) = h_cache (snd (in_turn ps ?o ?h))" by auto
    have "fst (prog_run (ps ! i) h) = ?r" by (simp add: p run_one_section)
    with Cons.IH [OF prog w refl] same True show ?thesis
      unfolding o by (auto simp: case_prod_unfold split: if_splits)
  next
    case False
    have o: "turns = firsts (length ps) S sched" using Cons.prems(3) False by auto
    have sub: "set (firsts (length ps) S sched) \<subseteq> {..<length ps}" using firsts_range(1) by blast
    consider (out) "\<not> i < length ps" | (finished) "i < length ps" "i \<in> S" "qs ! i = Done (R i)"
      | (logging) cmd args where "i < length ps" "i \<in> S" "qs ! i = logged cmd args (R i)"
      using False Cons.prems(1) unfolding in_progress_def by metis
    then show ?thesis
    proof cases
      case (logging cmd args)
      have w: "weave sched (qs[i := Done (R i)]) (go_log cmd args h) = (qs', h')"
        using Cons.prems(2) logging len by (simp add: section_parts)
      have "in_progress ps S R (qs[i := Done (R i)])"
        using Cons.prems(1) logging by (auto simp: in_progress_def nth_list_update)
      note IH = Cons.IH [OF this w refl]
      have eqs: "fst (in_turn ps (firsts (length ps) S sched) (go_log cmd args h)) = fst (in_turn ps (firsts (length ps) S sched) h)"
        "h_cache (snd (in_turn ps (firsts (length ps) S sched) (go_log cmd args h)))
          = h_cache (snd (in_turn ps (firsts (length ps) S sched) h))"
        using in_turn_cache [OF assms(1) sub, of "go_log cmd args h" h] by simp_all
      show ?thesis unfolding o by (rule IH [unfolded eqs])
    qed (use Cons.IH [OF Cons.prems(1) _ o] Cons.prems(2) len in auto)
  qed
qed

text \<open>C15: Commands that touch the cache in one section (SET, MSET of one pair, DEL and EXISTS of one
  key) are linearizable: whatever the schedule, the cache and the replies of the handlers that have
  returned are those of the same handlers run one after the other, in some order.\<close>

theorem one_section_linearizable:
  assumes "\<forall>(cmd, args, env) \<in> set reqs. one_section_request cmd args"
    and "weave sched (map request_prog reqs) h = (qs, h')"
  shows "\<exists>turns. distinct turns \<and> set turns \<subseteq> {..<length reqs}
    \<and> h_cache h' = h_cache (snd (in_turn (map request_prog reqs) turns h))
    \<and> (\<forall>i < length reqs. \<forall>r. qs ! i = Done r \<longrightarrow> (i, r) \<in> set (fst (in_turn (map request_prog reqs) turns h)))"
proof -
  let ?ps = "map request_prog reqs"
  have ps: "\<forall>p \<in> set ?ps. \<exists>f l. p = one_section f l"
    using assms(1) request_one_section by fastforce
  have "in_progress ?ps {} (\<lambda>_. simple []) ?ps" by (simp add: in_progress_def)
  from weave_in_turn [OF ps this assms(2) refl] firsts_range [of "length reqs" "{}" sched]
  show ?thesis by (intro exI [of _ "firsts (length reqs) {} sched"]) auto
qed

subsection \<open>Pushes\<close>

lemma weave_length: "length (fst (weave sched ps s)) = length ps"
  by (induction sched arbitrary: ps s) (auto split: prog.split)

text \<open>The list under a key, and how far a push has come: its values are still to be added, or have
  been added.\<close>

definition list_at :: "string \<Rightarrow> handler \<Rightarrow> string list" where
  "list_at k h = or_empty (Cache_GetList k (h_cache h))"

definition push_request :: "string \<Rightarrow> string list \<Rightarrow> bool" where
  "push_request cmd args \<longleftrightarrow> (cmd = ''LPUSH'' \<or> cmd = ''RPUSH'') \<and> length args \<ge> 2"

definition push_end :: "string \<Rightarrow> (string list \<Rightarrow> string list \<Rightarrow> int \<times> string list) \<Rightarrow> string list
    \<Rightarrow> (handler, RESPValue) prog" where
  "push_end cmd f args = prog_bind (update_prog Cache_GetList Cache_put_list (args ! 0) (f (drop 1 args)))
     (\<lambda>n. logged cmd args (integer n))"

definition push_at :: "string list \<Rightarrow> (handler, RESPValue) prog \<Rightarrow> string multiset \<Rightarrow> bool" where
  "push_at args p m \<longleftrightarrow>
     (m = mset (drop 1 args) \<and> (\<exists>cmd f. (f = List_LPush \<or> f = List_RPush)
        \<and> (p = push_end cmd f args
          \<or> p = prog_bind (create_prog Cache_GetOrCreateList (args ! 0)) (\<lambda>_. push_end cmd f args))))
     \<or> (m = {#} \<and> (\<exists>r. p = Done r \<or> (\<exists>cmd. p = logged cmd args r)))"

lemma push_start:
  assumes "push_request cmd args"
  shows "push_at args (request_prog (cmd, args, env)) (mset (drop 1 args))"
proof -
  have "\<not> length args < 2" using assms by (simp add: push_request_def)
  then have p: "p_LPush env args = prog_bind (create_prog Cache_GetOrCreateList (args ! 0)) (\<lambda>_. push_end ''LPUSH'' List_LPush args)"
      "p_RPush env args = prog_bind (create_prog Cache_GetOrCreateList (args ! 0)) (\<lambda>_. push_end ''RPUSH'' List_RPush args)"
    by (simp_all only: p_LPush_def p_RPush_def push_end_def if_False)
  have "request_prog (cmd, args, env) = p_LPush env args \<or> request_prog (cmd, args, env) = p_RPush env args"
    using assms unfolding push_request_def by (elim conjE disjE; simp add: request_prog_def programs_def)
  then show ?thesis unfolding push_at_def p by blast
qed

text \<open>A step of a push moves its values from what is owed to the list, or moves nothing.\<close>

lemma push_step:
  assumes "push_at args (Section u n) m" and "cache_size_ok (h_cache h)"
  shows "\<exists>m'. push_at args (n h) m' \<and> cache_size_ok (h_cache (u h))
    \<and> (\<forall>k. mset (list_at k (u h)) + (if args ! 0 = k then m' else {#})
         = mset (list_at k h) + (if args ! 0 = k then m else {#}))"
proof -
  consider (create) cmd f where "m = mset (drop 1 args)" "f = List_LPush \<or> f = List_RPush"
      "Section u n = prog_bind (create_prog Cache_GetOrCreateList (args ! 0)) (\<lambda>_. push_end cmd f args)"
    | (push) cmd f where "m = mset (drop 1 args)" "f = List_LPush \<or> f = List_RPush"
      "Section u n = push_end cmd f args"
    | (logging) cmd r where "m = {#}" "Section u n = logged cmd args r"
    using assms(1) unfolding push_at_def by auto
  then show ?thesis
  proof cases
    case create
    from create(1,2) show ?thesis
      using create(3) assms(2)
      by (intro exI [of _ m])
        (auto simp: push_at_def create_prog_def section_parts case_prod_unfold Cache_GetOrCreate_eqs
          list_at_def NewList_def)
  next
    case push
    have "push_at args (n h) {#}"
      using push(3) by (auto simp: push_at_def push_end_def update_prog_def section_parts)
    with push show ?thesis
      using assms(2)
      by (intro exI [of _ "{#}"])
        (auto simp: push_end_def update_prog_def section_parts case_prod_unfold list_at_def
          List_LPush_eq List_RPush_eq)
  next
    case logging
    then show ?thesis
      using assms(2) by (intro exI [of _ "{#}"]) (auto simp: push_at_def section_parts list_at_def)
  qed
qed

lemma pushes_run:
  assumes "length qs = n" and "\<forall>i < n. push_at (argss i) (qs ! i) (m i)" and "cache_size_ok (h_cache h)"
    and "weave sched qs h = (qs', h')"
  shows "\<exists>m'. (\<forall>i < n. push_at (argss i) (qs' ! i) (m' i))
    \<and> (\<forall>k. mset (list_at k h') + (\<Sum>i<n. if argss i ! 0 = k then m' i else {#})
         = mset (list_at k h) + (\<Sum>i<n. if argss i ! 0 = k then m i else {#}))"
  using assms
proof (induction sched arbitrary: qs m h)
  case (Cons j sched)
  show ?case
  proof (cases "j < n \<and> (\<exists>u nx. qs ! j = Section u nx)")
    case True
    then obtain u nx where j: "j < n" "qs ! j = Section u nx" by blast
    have "push_at (argss j) (Section u nx) (m j)" using Cons.prems(2) j by metis
    from push_step [OF this Cons.prems(3)] obtain mj where mj: "push_at (argss j) (nx h) mj" "cache_size_ok (h_cache (u h))"
        "\<And>k. mset (list_at k (u h)) + (if argss j ! 0 = k then mj else {#})
          = mset (list_at k h) + (if argss j ! 0 = k then m j else {#})"
      by metis
    have w: "weave sched (qs[j := nx h]) (u h) = (qs', h')" using Cons.prems(1,4) j by simp
    have "\<forall>i<n. push_at (argss i) (qs[j := nx h] ! i) ((m(j := mj)) i)"
      using Cons.prems(1,2) mj(1) by (simp add: nth_list_update)
    from Cons.IH [OF _ this mj(2) w] Cons.prems(1) obtain m' where m':
      "\<forall>i<n. push_at (argss i) (qs' ! i) (m' i)"
      "\<And>k. mset (list_at k h') + (\<Sum>i<n. if argss i ! 0 = k then m' i else {#})
        = mset (list_at k (u h)) + (\<Sum>i<n. if argss i ! 0 = k then (m(j := mj)) i else {#})" by auto
    have split: "(\<Sum>i<n. g i) = g j + (\<Sum>i\<in>{..<n} - {j}. g i)" for g :: "nat \<Rightarrow> string multiset"
      by (rule sum.remove) (use j in auto)
    have "(\<Sum>i\<in>{..<n} - {j}. if argss i ! 0 = k then (m(j := mj)) i else {#})
        = (\<Sum>i\<in>{..<n} - {j}. if argss i ! 0 = k then m i else {#})" for k
      by (rule sum.cong) auto
    then have "mset (list_at k (u h)) + (\<Sum>i<n. if argss i ! 0 = k then (m(j := mj)) i else {#})
        = mset (list_at k h) + (\<Sum>i<n. if argss i ! 0 = k then m i else {#})" for k
      unfolding split using mj(3) [of k] by (simp add: add.assoc [symmetric] split: if_splits)
    with m' show ?thesis by metis
  next
    case False
    with Cons.prems(1,4) have "weave sched qs h = (qs', h')"
      by (cases "qs ! j") (auto split: if_splits)
    then show ?thesis using Cons.IH Cons.prems(1-3) by blast
  qed
qed auto

lemma push_done: "push_at args (Done r) m \<Longrightarrow> m = {#}"
  by (auto simp: push_at_def push_end_def update_prog_def create_prog_def section_parts)

text \<open>C14: Concurrent pushes lose nothing: when handlers of LPUSH and RPUSH have run in any schedule and
  all have returned, every list holds what it held before and all values pushed to it, each as
  often as it was pushed.\<close>

theorem pushes_not_lost:
  assumes "\<forall>(cmd, args, env) \<in> set reqs. push_request cmd args" and "cache_size_ok (h_cache h)"
    and "weave sched (map request_prog reqs) h = (qs, h')" and "\<forall>q \<in> set qs. \<exists>r. q = Done r"
  shows "mset (or_empty (Cache_GetList k (h_cache h')))
    = mset (or_empty (Cache_GetList k (h_cache h)))
      + mset (concat (map (\<lambda>(cmd, args, env). if args ! 0 = k then drop 1 args else []) reqs))"
proof -
  let ?n = "length reqs"
  define argss where "argss i = fst (snd (reqs ! i))" for i
  have start: "\<forall>i < ?n. push_at (argss i) (map request_prog reqs ! i) (mset (drop 1 (argss i)))"
  proof (intro allI impI)
    fix i assume i: "i < ?n"
    obtain cmd args env where q: "reqs ! i = (cmd, args, env)" by (metis prod_cases3)
    then have "push_request cmd args" using assms(1) i by (metis (mono_tags, lifting) nth_mem case_prodD)
    then have "push_at args (request_prog (cmd, args, env)) (mset (drop 1 args))" by (rule push_start)
    with i q show "push_at (argss i) (map request_prog reqs ! i) (mset (drop 1 (argss i)))"
      by (simp add: argss_def)
  qed
  obtain m' where m': "\<forall>i<?n. push_at (argss i) (qs ! i) (m' i)"
    "mset (list_at k h') + (\<Sum>i<?n. if argss i ! 0 = k then m' i else {#})
      = mset (list_at k h) + (\<Sum>i<?n. if argss i ! 0 = k then mset (drop 1 (argss i)) else {#})"
    using pushes_run [OF _ start assms(2,3)] by auto
  have "length qs = ?n" using weave_length [of sched "map request_prog reqs" h] assms(3) by simp
  then have "m' i = {#}" if "i < ?n" for i
    using m'(1) assms(4) push_done that by (metis nth_mem)
  moreover have "(\<Sum>i<?n. if argss i ! 0 = k then mset (drop 1 (argss i)) else {#})
      = mset (concat (map (\<lambda>(cmd, args, env). if args ! 0 = k then drop 1 args else []) reqs))"
    unfolding argss_def
  proof (induction reqs)
    case (Cons q reqs)
    then show ?case
      by (cases q) (simp add: lessThan_Suc_eq_insert_0 sum.reindex cong: if_cong)
  qed simp
  moreover have "(\<Sum>i<?n. if argss i ! 0 = k then m' i else {#}) = {#}"
    by (rule sum.neutral) (simp add: calculation(1))
  ultimately show ?thesis using m'(2) by (simp add: list_at_def)
qed

lemma one_section_linearizable_witness:
  "\<exists>turns. distinct turns \<and> set turns \<subseteq> {..<2} \<and> (1, integer 1) \<in> set (fst (in_turn
     (map request_prog [(''SET'', [''k'', ''v''], witness_env), (''DEL'', [''k''], witness_env)]) turns witness_handler))"
proof -
  let ?reqs = "[(''SET'', [''k'', ''v''], witness_env), (''DEL'', [''k''], witness_env)]"
  have p: "map request_prog ?reqs = [p_Set witness_env [''k'', ''v''], p_Delete witness_env [''k'']]"
    by (simp add: request_prog_def programs_def)
  obtain qs h' where w: "weave [0, 1, 1] (map request_prog ?reqs) witness_handler = (qs, h')" by fastforce
  have "\<forall>(cmd, args, env) \<in> set ?reqs. one_section_request cmd args" by (simp add: one_section_request_def)
  moreover have "qs ! 1 = Done (integer 1)"
    using w unfolding p
    by (auto simp: p_Set_def p_Delete_def prog_simps lru.Cache_Set_ok lru.Cache_Delete_eq lru.Cache_Set_hit witness_handler_ok)
  ultimately show ?thesis using one_section_linearizable [OF _ w] by fastforce
qed

lemma pushes_not_lost_witness:
  "\<exists>qs h'. weave [0, 1, 0, 1, 0, 1] (map request_prog [(''RPUSH'', [''k'', ''a''], witness_env), (''LPUSH'', [''k'', ''b''], witness_env)])
       witness_handler = (qs, h')
     \<and> mset (or_empty (Cache_GetList ''k'' (h_cache h'))) = mset (or_empty (Cache_GetList ''k'' (h_cache witness_handler))) + mset [''a'', ''b'']"
proof -
  let ?reqs = "[(''RPUSH'', [''k'', ''a''], witness_env), (''LPUSH'', [''k'', ''b''], witness_env)]"
  have p: "map request_prog ?reqs = [p_RPush witness_env [''k'', ''a''], p_LPush witness_env [''k'', ''b'']]"
    by (simp add: request_prog_def programs_def)
  obtain qs h' where w: "weave [0, 1, 0, 1, 0, 1] (map request_prog ?reqs) witness_handler = (qs, h')" by fastforce
  have "\<forall>(cmd, args, env) \<in> set ?reqs. push_request cmd args" by (simp add: push_request_def)
  moreover have "\<forall>q \<in> set qs. \<exists>r. q = Done r"
    using w unfolding p by (auto simp: p_RPush_def p_LPush_def prog_simps)
  ultimately show ?thesis using pushes_not_lost [OF _ witness_handler_ok(2) w, of "''k''"] w by simp
qed

end
