(* ===== verification/NoPanic.thy ===== *)
theory NoPanic
  imports Sessions
begin

section \<open>Which requests can crash the server\<close>

text \<open>
  A panic in a handler is not recovered: it ends the process.  The only handler that can panic is
  SCAN, and only for a cursor below zero.  So a client that sends well-formed requests gets an
  answer to each of them, unless one of them is a SCAN with a negative cursor.
\<close>

subsection \<open>SCAN\<close>

lemma Shard_Scan_returns: "0 \<le> offset \<Longrightarrow> Shard_Scan E now it offset pat limit s \<noteq> Panic"
  by (simp add: Shard_Scan_def Let_def)

lemma scan_shards_returns: "0 \<le> offset \<Longrightarrow> scan_shards E now it pat limit i offset keys ss \<noteq> Panic"
proof (induction ss arbitrary: i offset keys)
  case (Cons s ss)
  obtain ks o' where s: "Shard_Scan E now it offset pat (limit - int (length keys)) s = Ret (ks, o')"
    using Shard_Scan_returns [OF Cons.prems, of E now it pat "limit - int (length keys)" s] by (cases "Shard_Scan E now it offset pat (limit - int (length keys)) s") auto
  show ?case
    using Cons.IH [of 0 "i + 1" "keys @ ks"] by (simp only: scan_shards.simps s outcome.case prod.case Let_def) simp
qed simp

lemma Cache_Scan_returns: "0 \<le> cursor \<Longrightarrow> Cache_Scan E now it cursor pat limit c \<noteq> Panic"
  by (auto simp: Cache_Scan_def Let_def go_div_def go_mod_def scan_shards_returns div_int_pos_iff not_less
      dest: order.trans [of 0 _ "cursor div 10000"])

text \<open>A request whose command is not a SCAN with a negative cursor.\<close>

definition harmless :: "env \<Rightarrow> RESPValue \<Rightarrow> bool" where
  "harmless env v \<longleftrightarrow> (case parseCmd env v of (cmd, args) \<Rightarrow>
     cmd = ''SCAN'' \<and> args \<noteq> [] \<longrightarrow> (case Atoi (args ! 0) of None \<Rightarrow> True | Some cursor \<Rightarrow> 0 \<le> cursor))"

lemma h_Scan_returns:
  "(args \<noteq> [] \<longrightarrow> (case Atoi (args ! 0) of None \<Rightarrow> True | Some cursor \<Rightarrow> 0 \<le> cursor)) \<Longrightarrow> h_Scan env args h \<noteq> Panic"
  by (auto simp: Cache_Scan_returns h_Scan_def case_prod_unfold split: option.splits outcome.split prod.split)

lemma scan_handler: "GetHandler ''SCAN'' = Some h_Scan"
  by (simp add: GetHandler_def commands_def)

lemma processCommand_returns:
  assumes "harmless env v"
  shows "processCommand env v [] [] s \<noteq> Panic"
proof (cases "Type v \<noteq> Array \<or> length (Elems v) < 1")
  case False
  obtain cmd args where p: "parseCmd env v = (cmd, args)" by force
  have "f env args h \<noteq> Panic" if "GetHandler cmd = Some f" for f h
  proof (cases "cmd = ''SCAN''")
    case True
    with that assms p show ?thesis
      using h_Scan_returns [of args env h] by (simp add: scan_handler harmless_def)
  qed (use that command_returns in blast)
  then show ?thesis
    using False p by (auto simp: processCommand_def Let_def split: option.split outcome.split)
qed (simp add: processCommand_def)

lemma exec_loop_returns:
  "\<forall>q \<in> set qs. \<forall>i. harmless (envs i) q \<Longrightarrow> exec_loop envs i qs s \<noteq> Panic"
proof (induction qs arbitrary: i s)
  case (Cons q qs)
  then obtain r s1 where "processCommand (envs i) q [] [] s = Ret (r, s1)"
    using processCommand_returns by (metis list.set_intros(1) outcome.exhaust prod.collapse)
  with Cons.IH [of "i + 1" s1] Cons.prems show ?case by (auto split: outcome.split)
qed simp

lemma request_returns:
  assumes "\<forall>i. harmless (envs i) v"
    and "\<forall>q \<in> set (queuedCommands (conns s c)). \<forall>i. harmless (envs i) q"
  shows "processCommandWithTx envs c v s \<noteq> Panic"
  using assms(1) exec_loop_returns [OF assms(2)] processCommand_returns
  by (auto simp: processCommandWithTx_def handleTxCmd_def handleExec_def case_prod_unfold Let_def
      split: outcome.split option.split)

subsection \<open>What a request adds to the queue\<close>

abbreviation queue :: "conn_id \<Rightarrow> server \<Rightarrow> RESPValue set" where
  "queue c s \<equiv> set (queuedCommands (conns s c))"

lemma processCommand_queue: "processCommand env v cmd args s = Ret (r, s') \<Longrightarrow> queue c s' = queue c s"
  by (drule processCommand_effect) (auto simp: mark_keys_eq split: if_splits)

lemma exec_loop_queue: "exec_loop envs i qs s = Ret (rs, s') \<Longrightarrow> queue c s' = queue c s"
  by (induction qs arbitrary: i s rs)
    (auto split: outcome.splits prod.splits dest: processCommand_queue)

lemma handleWatch_queue: "queue c (snd (handleWatch c args s)) = queue c s"
proof -
  have "queue c (foldl (\<lambda>s key. addWatcher key c (upd_conn c (WatchKey key) s)) s args) = queue c s" for s
    by (induction args arbitrary: s) (simp_all add: WatchKey_def)
  then show ?thesis by (simp add: handleWatch_def)
qed

lemma request_queue:
  assumes "processCommandWithTx envs c v s = Ret (r, s')"
  shows "queue c s' \<subseteq> insert v (queue c s)"
  using assms
  by (auto simp: processCommandWithTx_def handleTxCmd_def handleExec_def handleMulti_def handleDiscard_def
      handleUnwatch_def case_prod_unfold Let_def handleWatch_queue SetAuthenticated_def ResetTransaction_def
      split: if_splits outcome.splits option.splits dest!: processCommand_queue [of _ _ _ _ _ _ _ c] exec_loop_queue [of _ _ _ _ _ _ c]
      arg_cong [of _ _ "\<lambda>p. queue c (snd p)"])

subsection \<open>Whole sessions\<close>

text \<open>The values a client may send: no element is a SCAN with a negative cursor, whatever the
  environment it runs in.\<close>

definition harmless_value :: "(nat \<Rightarrow> nat \<Rightarrow> nat \<Rightarrow> env) \<Rightarrow> RESPValue \<Rightarrow> bool" where
  "harmless_value E v \<longleftrightarrow> (\<forall>w \<in> insert v (set (Elems v)). \<forall>n j i. harmless (E n j i) w)"

abbreviation harmless_queue :: "(nat \<Rightarrow> nat \<Rightarrow> nat \<Rightarrow> env) \<Rightarrow> conn_id \<Rightarrow> server \<Rightarrow> bool" where
  "harmless_queue E c s \<equiv> (\<forall>q \<in> queue c s. \<forall>n j i. harmless (E n j i) q)"

lemma harmless_step:
  assumes "\<forall>n j i. harmless (E n j i) v" and "harmless_queue E c s"
  obtains r s' where "processCommandWithTx (E n j) c v s = Ret (r, s')" and "harmless_queue E c s'"
proof -
  have "processCommandWithTx (E n j) c v s \<noteq> Panic" using assms by (intro request_returns) auto
  then obtain r s' where r: "processCommandWithTx (E n j) c v s = Ret (r, s')"
    by (cases "processCommandWithTx (E n j) c v s") auto
  then show ?thesis using request_queue [OF r] assms by (intro that [OF r]) auto
qed

lemma pipeline_returns:
  assumes "\<forall>v \<in> set vs. \<forall>n j i. harmless (E n j i) v" and "harmless_queue E c s"
  shows "\<exists>rs s'. processPipeline (E n) j c vs s = Ret (rs, s') \<and> harmless_queue E c s'"
  using assms
proof (induction vs arbitrary: j s)
  case (Cons v vs)
  have v: "\<forall>n j i. harmless (E n j i) v" using Cons.prems(1) by simp
  obtain r s1 where "processCommandWithTx (E n j) c v s = Ret (r, s1)" "harmless_queue E c s1"
    using harmless_step [OF v Cons.prems(2)] by blast
  with Cons.IH [where s = s1 and j = "j + 1"] Cons.prems(1) show ?case by fastforce
qed simp

lemma value_returns:
  assumes "harmless_value E v" and "harmless_queue E c s"
  shows "\<exists>out s'. handle_value (E n) c v s = Ret (out, s') \<and> harmless_queue E c s'"
proof -
  have v: "\<forall>n j i. harmless (E n j i) v" and vs: "\<forall>w \<in> set (Elems v). \<forall>n j i. harmless (E n j i) w"
    using assms(1) by (auto simp: harmless_value_def)
  obtain r s' where "processCommandWithTx (E n 0) c v s = Ret (r, s')" "harmless_queue E c s'"
    using harmless_step [OF v assms(2)] .
  with pipeline_returns [OF vs assms(2), of n 0] show ?thesis by (auto simp: handle_value_def)
qed

lemma handle_all_returns:
  "\<forall>v \<in> set vs. harmless_value E v \<Longrightarrow> harmless_queue E c s \<Longrightarrow> \<exists>out s'. handle_all E it n c vs s = Ret (out, s')"
proof (induction vs arbitrary: n s)
  case (Cons v vs)
  obtain out s1 where v: "handle_value (E n) c v s = Ret (out, s1)" "harmless_queue E c s1"
    using value_returns [of E v s c n] Cons.prems by auto
  with Cons.IH [where s = s1 and n = "n + 1"] Cons.prems(1) show ?case by fastforce
qed simp

text \<open>C25: A client that sends well-formed values, none of them with an empty bulk string (whose end the
  parser does not read) or a SCAN with a negative cursor, cannot crash the server: the read loop handles the whole stream and returns, whatever the commands,
  their arguments, their number, and the state of the server.  (A SCAN with a negative cursor does
  crash it, \<open>scan_negative_cursor\<close>.)\<close>

theorem session_returns:
  assumes "\<forall>v \<in> set vs. resp_ok 0 v \<and> no_empty_bulk v" and "\<forall>v \<in> set vs. harmless_value E v"
    and "queuedCommands (conns s c) = []"
  shows "\<exists>out s'. serve E it n c (concat (map EncodeRESP vs)) s = Ret (out, s')"
  unfolding serve_values [OF assms(1)] by (rule handle_all_returns [OF assms(2)]) (simp add: assms(3))

lemma session_returns_witness:
  "\<exists>out s'. serve (\<lambda>_ _ _. witness_env) id 0 0 (concat (map EncodeRESP [request [''MULTI''], request [''SCAN'', ''0''], request [''EXEC'']]))
     (NewServer [] (NewHandler (NewCache witness_cfg) False)) = Ret (out, s')"
proof (rule session_returns)
  have "Atoi ''0'' = Some 0" by code_simp
  then show "\<forall>v \<in> set [request [''MULTI''], request [''SCAN'', ''0''], request [''EXEC'']]. harmless_value (\<lambda>_ _ _. witness_env) v"
    by (simp add: harmless_value_def harmless_def parseCmd_def request_def)
qed (simp_all add: request_def MaxRESPDepth_def MaxBulkStringSize_def NewServer_def NewConnection_def)

end
