(* ===== verification/Process.thy ===== *)
theory Process
  imports ManagerProps Lifecycle
begin

section \<open>The process: the server, the goroutines of the log, and the exit\<close>

text \<open>
  Models the end of \<open>main\<close> in \<^verbatim>\<open>cmd/main.go\<close>, with what runs until then: the server (theory
  Lifecycle), the persistence manager, the goroutines \<open>go LogCommand(...)\<close> that the handlers
  started, each of which runs at some time or never, and the flush ticker of \<^verbatim>\<open>aof.go\<close>.  When the
  shutdown has finished, \<open>main\<close> returns: the deferred \<open>Stop\<close> of the manager runs and the process
  ends, with the goroutines that have not run yet.  When the shutdown times out, \<open>os.Exit(1)\<close>
  ends the process at once.  \<open>pr_ran\<close> holds the indices of the goroutines that have run, in their
  order, \<open>pr_exit\<close> the files that the process leaves.  The savers of snapshots are left out here:
  they write other files.
\<close>

record process =
  pr_life :: life
  pr_manager :: manager
  pr_ran :: "nat list"
  pr_exit :: "files option"

definition start_process :: "server \<Rightarrow> manager \<Rightarrow> process" where
  "start_process s m = \<lparr>pr_life = start_life s, pr_manager = m, pr_ran = [], pr_exit = None\<rparr>"

abbreviation goroutines :: "life \<Rightarrow> entry list" where
  "goroutines l \<equiv> h_spawned (s_handler (srv l))"

text \<open>The loop of \<open>flushLoop\<close>: at a tick it flushes; at the stop it flushes once more, which
  \<open>AOF.Stop\<close> does too.  The loop exists when the log has been opened.\<close>

definition flushLoop_tick :: "manager \<Rightarrow> manager option" where
  "flushLoop_tick m =
     (case pm_aof m of
        Some (Some a) \<Rightarrow> Some (m\<lparr>pm_aof := Some (Some (Flush a))\<rparr>)
      | _ \<Rightarrow> None)"

datatype process_event = Live life_event | LogRun nat | FlushTick | MainReturns | OsExit

definition process_step :: "ServerConfig \<Rightarrow> int \<Rightarrow> files \<Rightarrow> process_event \<Rightarrow> process \<Rightarrow> process outcome option" where
  "process_step cfg idle_secs f ev p =
     (if pr_exit p \<noteq> None then None
      else case ev of
        Live e \<Rightarrow> map_option (\<lambda>l. Ret (p\<lparr>pr_life := l\<rparr>)) (life_exec cfg idle_secs e (pr_life p))
      | LogRun i \<Rightarrow>
          (if i < length (goroutines (pr_life p)) \<and> i \<notin> set (pr_ran p) then
             (case goroutines (pr_life p) ! i of (cmd, args) \<Rightarrow>
               Some (case Manager_LogCommand cmd args (pr_manager p) of
                       Panic \<Rightarrow> Panic
                     | Ret m \<Rightarrow> Ret (p\<lparr>pr_manager := m, pr_ran := pr_ran p @ [i]\<rparr>)))
           else None)
      | FlushTick \<Rightarrow>
          map_option (\<lambda>m. Ret (p\<lparr>pr_manager := m\<rparr>)) (flushLoop_tick (pr_manager p))
      | MainReturns \<Rightarrow>
          (if shutdown (pr_life p) = Finished then
             Some (case Manager_Stop (pr_manager p) f of
                     Panic \<Rightarrow> Panic
                   | Ret (m, f') \<Rightarrow> Ret (p\<lparr>pr_manager := m, pr_exit := Some f'\<rparr>))
           else None)
      | OsExit \<Rightarrow>
          (case shutdown (pr_life p) of
             TimedOut _ \<Rightarrow> Some (Ret (p\<lparr>pr_exit := Some (aof_files (pr_manager p) f)\<rparr>))
           | _ \<Rightarrow> None))"

fun process_run :: "ServerConfig \<Rightarrow> int \<Rightarrow> files \<Rightarrow> process_event list \<Rightarrow> process \<Rightarrow> process outcome option" where
  "process_run cfg idle_secs f [] p = Some (Ret p)"
| "process_run cfg idle_secs f (ev # evs) p =
     (case process_step cfg idle_secs f ev p of
        None \<Rightarrow> None
      | Some Panic \<Rightarrow> (if evs = [] then Some Panic else None)
      | Some (Ret p') \<Rightarrow> process_run cfg idle_secs f evs p')"

subsection \<open>The handlers only start goroutines\<close>

definition spawns :: "handler \<Rightarrow> handler \<Rightarrow> bool" where
  "spawns h h' \<longleftrightarrow> prefix (h_spawned h) (h_spawned h')"

lemma spawns_refl [simp]: "spawns h h"
  by (simp add: spawns_def)

lemma spawns_trans: "spawns h h1 \<Longrightarrow> spawns h1 h2 \<Longrightarrow> spawns h h2"
  unfolding spawns_def by (rule prefix_order.trans)

lemma go_log_spawns [simp]: "spawns h (go_log cmd args (h\<lparr>h_cache := c\<rparr>))" "spawns h (h\<lparr>h_cache := c\<rparr>)"
  by (simp_all add: spawns_def go_log_def)

definition only_spawns :: "command \<Rightarrow> bool" where
  "only_spawns f \<longleftrightarrow> (\<forall>env args h r h'. f env args h = Ret (r, h') \<longrightarrow> spawns h h')"

lemma only_spawns_total: "(\<And>env args h. spawns h (snd (g env args h))) \<Longrightarrow> only_spawns (total g)"
  by (auto simp: only_spawns_def total_def) (metis snd_conv)

lemma writes_spawn:
  "spawns h (snd (h_Get env args h))" "spawns h (snd (h_Set env args h))" "spawns h (snd (h_Delete env args h))"
  "spawns h (snd (h_TTL env args h))" "spawns h (snd (h_Append env args h))" "spawns h (snd (h_Strlen env args h))"
  "spawns h (snd (h_MGet env args h))" "spawns h (snd (h_MSet env args h))" "spawns h (snd (h_MSetNX env args h))"
  "spawns h (snd (h_HSet env args h))" "spawns h (snd (h_HDel env args h))" "spawns h (snd (h_LPush env args h))"
  "spawns h (snd (h_RPush env args h))" "spawns h (snd (h_LPop env args h))" "spawns h (snd (h_RPop env args h))"
  "spawns h (snd (h_SAdd env args h))" "spawns h (snd (h_SRem env args h))" "spawns h (snd (h_ZAdd env args h))"
  "spawns h (snd (h_ZRem env args h))"
  by (simp_all add: h_Get_def h_Set_def h_Delete_def h_TTL_def h_Append_def h_Strlen_def h_MGet_def h_MSet_def
      h_MSetNX_def h_HSet_def h_HDel_def h_LPush_def h_RPush_def h_LPop_def h_RPop_def h_SAdd_def h_SRem_def
      h_ZAdd_def h_ZRem_def case_prod_unfold Let_simp split: option.split)

lemma commands_spawn: "list_all (\<lambda>(n, f). only_spawns f) commands"
proof -
  have "only_spawns h_Scan" by (auto simp: only_spawns_def dest: h_Scan_state)
  then show ?thesis
    unfolding commands_def by (simp add: only_spawns_total writes_spawn)
qed

lemma processCommand_spawns:
  assumes "processCommand env v cmd args s = Ret (r, s')"
  shows "spawns (s_handler s) (s_handler s')"
proof -
  have cmd: "spawns h h'" if "GetHandler n = Some f" "f env a h = Ret (r, h')" for n f a h h'
    using GetHandler_all [OF commands_spawn that(1)] that(2) unfolding only_spawns_def by blast
  show ?thesis
    using assms cmd
    by (auto simp: processCommand_def case_prod_unfold Let_def mark_keys_eq
        split: if_splits option.splits outcome.splits)
qed

lemma exec_loop_spawns: "exec_loop envs i vs s = Ret (rs, s') \<Longrightarrow> spawns (s_handler s) (s_handler s')"
  by (induction vs arbitrary: i s rs)
    (auto split: outcome.splits prod.splits dest!: processCommand_spawns intro: spawns_trans)

lemma handleWatch_handler [simp]: "s_handler (snd (handleWatch c args s)) = s_handler s"
proof -
  have "s_handler (foldl (\<lambda>s key. addWatcher key c (upd_conn c (WatchKey key) s)) s args) = s_handler s"
    by (induction args arbitrary: s) simp_all
  then show ?thesis by (simp add: handleWatch_def)
qed

lemma handleTxCmd_spawns:
  assumes "handleTxCmd envs c v s = Ret (r, s')"
  shows "spawns (s_handler s) (s_handler s')"
proof -
  have exec: "spawns (s_handler s) (s_handler s2)" if "handleExec envs c args s = Ret (r2, s2)" for args r2 s2
    using that by (auto simp: handleExec_def Let_def dest!: exec_loop_spawns split: if_splits outcome.splits)
  have "s_handler (snd (handleMulti c args s)) = s_handler s" "s_handler (snd (handleUnwatch c args s)) = s_handler s"
    "s_handler (snd (handleDiscard c args s)) = s_handler s" for args
    by (simp_all add: handleMulti_def handleUnwatch_def handleDiscard_def)
  then show ?thesis
    using assms exec
    by (auto simp: handleTxCmd_def case_prod_unfold Let_def split: if_splits outcome.splits)
qed

lemma request_spawns: "processCommandWithTx envs c v s = Ret (r, s') \<Longrightarrow> spawns (s_handler s) (s_handler s')"
  by (auto simp: processCommandWithTx_def case_prod_unfold
      dest!: handleTxCmd_spawns processCommand_spawns intro: spawns_trans split: if_splits outcome.splits option.splits)

lemma pipeline_spawns: "processPipeline envss j c vs s = Ret (rs, s') \<Longrightarrow> spawns (s_handler s) (s_handler s')"
  by (induction vs arbitrary: j s rs)
    (auto split: outcome.splits prod.splits dest!: request_spawns intro: spawns_trans)

lemma value_spawns: "handle_value envss c v s = Ret (out, s') \<Longrightarrow> spawns (s_handler s) (s_handler s')"
  by (auto simp: handle_value_def split: if_splits outcome.splits dest: pipeline_spawns request_spawns)

lemma end_connection_handler: "s_handler (end_connection it c s) = s_handler s"
  by (simp add: end_connection_def cleanupWatchers_fold removeWatcherByKeys_other)

lemma life_spawns:
  assumes "life_exec cfg k ev s = Some s'"
  shows "spawns (s_handler (srv s)) (s_handler (srv s'))"
proof -
  have "spawns (s_handler (srv s)) (s_handler (srv s'))" if "accept_step cfg ev s = Some s'"
    using that by (cases ev) (auto simp: set_phase_def split: if_splits acceptor.splits)
  moreover have "spawns (s_handler (srv s)) (s_handler (srv s'))" if "conn_step ev s = Some s'"
    using that by (cases ev) (auto simp: set_phase_def UpdateActivity_def end_connection_handler
        split: if_splits outcome.splits dest: value_spawns)
  moreover have "spawns (s_handler (srv s)) (s_handler (srv s'))" if "other_step k ev s = Some s'"
    using that by (cases ev) (auto simp: close_conn_def monitor_step_def Let_def spawns_def split: if_splits)
  moreover have "spawns (s_handler (srv s)) (s_handler (srv s'))" if "shutdown_step ev s = Some s'"
    using that by (cases ev) (auto split: if_splits)
  ultimately show ?thesis
    using assms by (auto simp: life_exec_def split: option.splits)
qed

subsection \<open>What the log holds\<close>

definition logged_entries :: "process \<Rightarrow> entry list" where
  "logged_entries p = map (\<lambda>i. goroutines (pr_life p) ! i) (pr_ran p)"

definition process_ok :: "string \<Rightarrow> process \<Rightarrow> bool" where
  "process_ok base p \<longleftrightarrow> distinct (pr_ran p) \<and> set (pr_ran p) \<subseteq> {..<length (goroutines (pr_life p))} \<and>
     (case pr_exit p of
        None \<Rightarrow> \<exists>a. pm_aof (pr_manager p) = Some (Some a) \<and> length (buf a) \<le> 4096
          \<and> disk a @ buf a = base @ log_all (logged_entries p)
      | Some f' \<Rightarrow> (shutdown (pr_life p) = Finished \<and> f' AOF_name = Some (base @ log_all (logged_entries p)))
          \<or> (\<exists>n. shutdown (pr_life p) = TimedOut n)
            \<and> (\<exists>b. f' AOF_name = Some b \<and> prefix b (base @ log_all (logged_entries p))))"

lemma process_ok_life:
  assumes "process_ok base p" and "pr_exit p = None" and "life_exec cfg k e (pr_life p) = Some l"
  shows "process_ok base (p\<lparr>pr_life := l\<rparr>)"
proof -
  have "prefix (goroutines (pr_life p)) (goroutines l)"
    using life_spawns [OF assms(3)] by (simp add: spawns_def)
  then obtain new where new: "goroutines l = goroutines (pr_life p) @ new" by (auto elim: prefixE)
  have "\<forall>i \<in> set (pr_ran p). i < length (goroutines (pr_life p))" using assms(1) by (auto simp: process_ok_def)
  then have "logged_entries (p\<lparr>pr_life := l\<rparr>) = logged_entries p"
    by (simp add: logged_entries_def new nth_append)
  with assms(1,2) new show ?thesis by (auto simp: process_ok_def)
qed

lemma process_ok_log:
  assumes "process_ok base p" and "pr_exit p = None" and "i < length (goroutines (pr_life p))" and "i \<notin> set (pr_ran p)"
    and "goroutines (pr_life p) ! i = (cmd, args)" and "Manager_LogCommand cmd args (pr_manager p) = Ret m"
  shows "process_ok base (p\<lparr>pr_manager := m, pr_ran := pr_ran p @ [i]\<rparr>)"
proof -
  obtain a where a: "pm_aof (pr_manager p) = Some (Some a)" "length (buf a) \<le> 4096"
      "disk a @ buf a = base @ log_all (logged_entries p)"
    using assms(1,2) by (auto simp: process_ok_def)
  have "pm_aof m = Some (Some (LogCommand cmd args a))" using assms(6) a(1) by (auto simp: Manager_LogCommand_def)
  moreover have "logged_entries (p\<lparr>pr_manager := m, pr_ran := pr_ran p @ [i]\<rparr>) = logged_entries p @ [(cmd, args)]"
    using assms(5) by (simp add: logged_entries_def)
  moreover have "disk (LogCommand cmd args a) @ buf (LogCommand cmd args a) = base @ log_all (logged_entries p) @ log_bytes cmd args"
    using WriteString_bytes(1) [OF a(2), of "log_bytes cmd args"] a(3) by (simp add: LogCommand_def flip: append_assoc)
  moreover have "length (buf (LogCommand cmd args a)) \<le> 4096"
    using WriteString_bytes(2) [OF a(2)] by (simp add: LogCommand_def)
  ultimately show ?thesis
    using assms(1-4) by (auto simp: process_ok_def log_all_def)
qed

lemma process_ok_step:
  assumes "process_step cfg k f ev p = Some (Ret p')" and "process_ok base p"
  shows "process_ok base p'"
proof -
  have run: "pr_exit p = None" using assms(1) by (auto simp: process_step_def split: if_splits)
  then obtain a where a: "pm_aof (pr_manager p) = Some (Some a)" "length (buf a) \<le> 4096"
      "disk a @ buf a = base @ log_all (logged_entries p)"
    using assms(2) by (auto simp: process_ok_def)
  have same: "logged_entries (p\<lparr>pr_manager := m\<rparr>) = logged_entries p" "logged_entries (p\<lparr>pr_exit := x\<rparr>) = logged_entries p"
    "logged_entries (p\<lparr>pr_manager := m, pr_exit := x\<rparr>) = logged_entries p" for m x
    by (simp_all add: logged_entries_def)
  show ?thesis
  proof (cases ev)
    case (Live e)
    with assms(1) run show ?thesis
      by (auto simp: process_step_def intro: process_ok_life [OF assms(2) run])
  next
    case (LogRun i)
    with assms(1) run show ?thesis
      by (auto simp: process_step_def split: if_splits prod.splits outcome.splits
          intro: process_ok_log [OF assms(2) run])
  next
    case FlushTick
    with assms run a show ?thesis
      by (auto simp: process_step_def flushLoop_tick_def process_ok_def same Flush_def)
  next
    case MainReturns
    then obtain m f' where "Manager_Stop (pr_manager p) f = Ret (m, f')" "shutdown (pr_life p) = Finished"
        and p': "p' = p\<lparr>pr_manager := m, pr_exit := Some f'\<rparr>"
      using assms(1) run by (auto simp: process_step_def split: if_splits outcome.splits prod.splits)
    with Manager_Stop_log [OF this(1) a(1)] a assms(2) show ?thesis
      by (simp add: process_ok_def same)
  next
    case OsExit
    then obtain n where "shutdown (pr_life p) = TimedOut n" and p': "p' = p\<lparr>pr_exit := Some (aof_files (pr_manager p) f)\<rparr>"
      using assms(1) run by (auto simp: process_step_def split: shutdown.splits)
    moreover have "aof_files (pr_manager p) f AOF_name = Some (disk a)" by (simp add: aof_files_def a(1))
    moreover have "prefix (disk a) (base @ log_all (logged_entries p))" using a(3) by (metis prefixI)
    ultimately show ?thesis using assms(2) by (simp add: process_ok_def same)
  qed
qed

lemma process_ok_run:
  "process_run cfg k f evs p = Some (Ret p') \<Longrightarrow> process_ok base p \<Longrightarrow> process_ok base p'"
  by (induction evs arbitrary: p) (auto split: option.splits outcome.splits if_splits dest: process_ok_step)

lemma process_ok_start:
  assumes "h_spawned (s_handler s0) = []" and "pm_aof m = Some (Some a0)" and "length (buf a0) \<le> 4096"
  shows "process_ok (disk a0 @ buf a0) (start_process s0 m)"
  using assms by (simp add: process_ok_def start_process_def start_life_def logged_entries_def log_all_def)


subsection \<open>A write that a clean shutdown loses\<close>

definition serve_one :: "conn_id \<Rightarrow> (nat \<Rightarrow> nat \<Rightarrow> env) \<Rightarrow> RESPValue \<Rightarrow> process_event list" where
  "serve_one c envss v = map Live [LoopCheck, AcceptConn c, QuitCheck, LimitCheck, Admit, Register c, StartServing c,
     TopOfLoop c, Request c envss v]"

definition stop_cleanly :: "conn_id \<Rightarrow> map_order \<Rightarrow> process_event list" where
  "stop_cleanly c it = map Live [CloseQuit, CloseListener, TopOfLoop c, Deferred c it, WgDone c, WaitDone] @ [MainReturns]"

lemma set_request:
  assumes "requirepass s = []" and "conns s c = NewConnection"
  shows "handle_value envss c (request [''SET'', k, v]) s = Ret (EncodeRESP (simple ''OK''),
    (markWatchedKeysDirty [k] s)\<lparr>s_handler := snd (h_Set (envss 0 0) [k, v] (s_handler s))\<rparr>)"
proof -
  let ?v = "request [''SET'', k, v]"
  have p: "parseCmd (envss 0 0) ?v = (''SET'', [k, v])"
    by (simp add: parseCmd_def request_def ToUpper_def is_ascii_def upper_char_def)
  have h: "GetHandler ''SET'' = Some (total h_Set)" by (simp add: GetHandler_def commands_def)
  have "processCommandWithTx (envss 0) c ?v s = processCommand (envss 0 0) ?v [] [] s"
    using assms p by (subst ordinary_request)
      (simp_all add: ordinary_def tx_names_def allowed_def NewConnection_def request_def)
  also have "\<dots> = Ret (simple ''OK'', (markWatchedKeysDirty [k] s)\<lparr>s_handler := snd (h_Set (envss 0 0) [k, v] (s_handler s))\<rparr>)"
    using p h by (simp add: processCommand_def request_def extractKeys_def isWriteCommand_def Let_def total_def
        mark_keys_eq h_Set_def)
  finally show ?thesis by (simp add: handle_value_def request_def)
qed

lemma new_conn_open: "\<not> closed NewConnection"
  by (simp add: NewConnection_def)

lemmas life_defs = life_exec_def start_life_def set_phase_def UpdateActivity_def close_conn_def

text \<open>C36: An acknowledged write is lost in a clean shutdown: nothing waits for the goroutine that logs
  it.  A client's SET is answered OK, the shutdown finishes without a timeout, \<open>main\<close> returns and
  stops the persistence manager, and the log is what it was before the SET.\<close>

theorem clean_exit_loses_write:
  assumes "requirepass s0 = []" and "h_mgr (s_handler s0)" and "h_spawned (s_handler s0) = []"
    and "0 < wrap32 (MaxConnections cfg)" and "pm_aof m = Some (Some a0)" and "Manager_Stop m f = Ret (m', f')"
  shows "\<exists>p. process_run cfg idle_secs f (serve_one c envss (request [''SET'', k, v]) @ stop_cleanly c it) (start_process s0 m)
      = Some (Ret p)
    \<and> shutdown (pr_life p) = Finished
    \<and> s_handler (srv (pr_life p)) = snd (h_Set (envss 0 0) [k, v] (s_handler s0))
    \<and> goroutines (pr_life p) = [(''SET'', [k, v])]
    \<and> pr_exit p = Some f' \<and> f' AOF_name = Some (disk a0 @ buf a0)"
proof -
  let ?s1 = "upd_conn c (\<lambda>_. NewConnection) s0"
  have r: "handle_value envss c (request [''SET'', k, v]) ?s1 = Ret (EncodeRESP (simple ''OK''),
      (markWatchedKeysDirty [k] ?s1)\<lparr>s_handler := snd (h_Set (envss 0 0) [k, v] (s_handler s0))\<rparr>)"
    using set_request [of ?s1 c envss k v] assms(1) by simp
  have sp: "h_spawned (snd (h_Set (envss 0 0) [k, v] (s_handler s0))) = [(''SET'', [k, v])]"
    using assms(2,3) by (simp add: h_Set_def go_log_def)
  show ?thesis
    using assms(4-6) Manager_Stop_log [OF assms(6,5)]
    by (simp add: serve_one_def stop_cleanly_def process_step_def start_process_def life_defs r sp IsClosed_def
        new_conn_open end_connection_handler)
qed

lemma clean_exit_loses_write_witness:
  "\<exists>p. process_run (Server DefaultConfig) 600 Map.empty
      (serve_one 7 (\<lambda>_ _. witness_env) (request [''SET'', ''k'', ''v'']) @ stop_cleanly 7 id)
      (start_process (NewServer [] (NewHandler (NewCache witness_cfg) True))
        ((NewManager (Persistence DefaultConfig))\<lparr>pm_aof := Some (Some \<lparr>disk = [], buf = []\<rparr>), pm_rdb := None, pm_json := None\<rparr>))
      = Some (Ret p)
    \<and> goroutines (pr_life p) = [(''SET'', [''k'', ''v''])] \<and> (\<exists>f'. pr_exit p = Some f' \<and> f' AOF_name = Some [])"
proof -
  let ?m = "(NewManager (Persistence DefaultConfig))\<lparr>pm_aof := Some (Some \<lparr>disk = [], buf = []\<rparr>), pm_rdb := None, pm_json := None\<rparr>"
  obtain m' f' where stop: "Manager_Stop ?m Map.empty = Ret (m', f')"
    by (simp add: Manager_Stop_def AOF_Stop_def Manager_flush_def stop_saver_def NewManager_def)
  have "0 < wrap32 (MaxConnections (Server DefaultConfig))" by (simp add: wrap32_def DefaultConfig_def)
  from clean_exit_loses_write [OF _ _ _ this _ stop, of "NewServer [] (NewHandler (NewCache witness_cfg) True)"
      "\<lparr>disk = [], buf = []\<rparr>" 600 7 "\<lambda>_ _. witness_env" "''k''" "''v''" id]
  show ?thesis by (auto simp: NewServer_def NewHandler_def)
qed


end
