(* ===== verification/Reports.thy ===== *)
theory Reports
  imports ConfigProps Json Commands
begin

section \<open>What the program prints about itself\<close>

text \<open>
  The texts for people: \<open>time.Duration.String\<close> and \<open>strconv.Quote\<close> of the standard library as far
  as the code uses them, \<open>Config.String\<close> (\<^verbatim>\<open>internal/config/config.go\<close>), \<open>RESPValue.String\<close>
  (\<^verbatim>\<open>internal/server/resp.go\<close>), \<open>PrintMemoryUsage\<close> and \<open>RegisterHandler\<close> (\<^verbatim>\<open>server.go\<close>) and
  \<open>Info\<close> of the JSON snapshots (\<^verbatim>\<open>internal/persistence/json.go\<close>).  Numbers of the run-time, what
  \<open>os.Stat\<close> reports and the RFC 3339 format are parameters.
\<close>

subsection \<open>Durations\<close>

text \<open>The last \<open>n\<close> decimal digits, and the fraction without its trailing zeros.\<close>

primrec digits :: "nat \<Rightarrow> nat \<Rightarrow> string" where
  "digits 0 v = []"
| "digits (Suc n) v = digits n (v div 10) @ [digit_char (v mod 10)]"

definition fmt_frac :: "nat \<Rightarrow> nat \<Rightarrow> string" where
  "fmt_frac n v =
     (let ds = rev (dropWhile (\<lambda>c. c = CHR ''0'') (rev (digits n v)))
      in if ds = [] then [] else CHR ''.'' # ds)"

definition Duration_String :: "int \<Rightarrow> string" where
  "Duration_String d =
     (if d = 0 then ''0s''
      else let u = nat \<bar>d\<bar>;
        body =
          (if u < 1000 then show_nat u @ ''ns''
           else if u < 1000000 then show_nat (u div 1000) @ fmt_frac 3 u @ [CHR 0xC2, CHR 0xB5, CHR ''s'']
           else if u < 1000000000 then show_nat (u div 1000000) @ fmt_frac 6 u @ ''ms''
           else
             let t = u div 1000000000;
                 s = show_nat (t mod 60) @ fmt_frac 9 u @ ''s'';
                 m = show_nat (t div 60 mod 60) @ ''m'' @ s
             in if t div 60 = 0 then s
                else if t div 60 div 60 = 0 then m
                else show_nat (t div 60 div 60) @ ''h'' @ m)
      in if d < 0 then CHR ''-'' # body else body)"

lemma fmt_frac_whole: "fmt_frac n (t * 10 ^ n) = []"
proof -
  have "digits n (t * 10 ^ n) = replicate n (CHR ''0'')"
    by (induction n) (simp_all add: replicate_append_same mult.left_commute [of _ 10])
  then show ?thesis by (simp add: fmt_frac_def)
qed

text \<open>One unit of a duration that is read.\<close>

lemma duration_unit:
  assumes "unit_of [c] = Some unit" and "\<not> num_or_dot c" and "rest = [] \<or> num_or_dot (hd rest)"
    and "0 < unit" and "0 \<le> d" and "d + int n * unit \<le> 2 ^ 63"
  shows "duration_loop frac d (show_nat n @ c # rest) = duration_loop frac (d + int n * unit) rest"
proof -
  let ?s = "show_nat n @ c # rest"
  have not: "\<not> is_digit c" "c \<noteq> CHR ''.''" using assms(2) by (auto simp: num_or_dot_def)
  have tw: "takeWhile is_digit ?s = show_nat n" "dropWhile is_digit ?s = c # rest"
    using show_nat_digits [of n] not by (simp_all add: list_all_iff takeWhile_append dropWhile_append)
  have hd: "num_or_dot (hd ?s)" using hd_show_nat [of n] by (simp add: num_or_dot_def)
  have u: "takeWhile (Not \<circ> num_or_dot) rest = []" "dropWhile (Not \<circ> num_or_dot) rest = rest"
    using assms(3) by (cases rest; simp)+
  have le: "int n * unit \<le> 2 ^ 63" using assms(5,6) by simp
  then have "int n \<le> 2 ^ 63 div unit" using zdiv_mono1 [OF le assms(4)] assms(4) by simp
  moreover have "int n \<le> 2 ^ 63" using le assms(4) by (smt (verit) mult_le_cancel_left1 of_nat_0_le_iff)
  moreover have "(d + int n * unit) mod 2 ^ 64 = d + int n * unit" using assms(4-6) by (simp add: mod_pos_pos_trivial)
  ultimately show ?thesis
    using hd le assms(1,2,6) not(2)
    by (subst duration_loop.simps) (simp add: tw u leadingInt_show Let_def)
qed

text \<open>The units of a whole number of seconds, and of its minutes.\<close>

lemma duration_units:
  "unit_of ''s'' = Some second" "unit_of ''m'' = Some minute" "unit_of ''h'' = Some hour"
  "\<not> num_or_dot CHR ''s''" "\<not> num_or_dot CHR ''m''" "\<not> num_or_dot CHR ''h''"
  by (simp add: unit_of_def, simp add: unit_of_def, simp add: unit_of_def, code_simp, code_simp, code_simp)

lemma num_or_dot_show: "num_or_dot (hd (show_nat n @ s))" "num_or_dot (hd (show_nat n))"
  using hd_show_nat [of n] by (simp_all add: num_or_dot_def)

definition seconds_text :: "nat \<Rightarrow> string" where
  "seconds_text t =
     (let s = show_nat (t mod 60) @ ''s''; m = show_nat (t div 60 mod 60) @ ''m'' @ s
      in if t div 60 = 0 then s else if t div 60 div 60 = 0 then m else show_nat (t div 60 div 60) @ ''h'' @ m)"

lemma seconds_read:
  assumes "int t * second \<le> 2 ^ 63"
  shows "duration_loop frac 0 (seconds_text t) = Some (int t * second)"
proof -
  let ?s = "t mod 60" and ?m = "t div 60 mod 60" and ?h = "t div 60 div 60"
  have "t = ?h * 3600 + ?m * 60 + ?s"
    using div_mult_mod_eq [of t 60] div_mult_mod_eq [of "t div 60" 60] by linarith
  then have t: "int t = int ?h * 3600 + int ?m * 60 + int ?s" by linarith
  have total: "int ?h * hour + int ?m * minute + int ?s * second = int t * second"
    unfolding t by (simp add: hour_def minute_def algebra_simps)
  have pos: "0 < second" "0 < minute" "0 < hour" by (simp_all add: hour_def minute_def second_def)
  have le: "int ?h * hour + int ?m * minute + int ?s * second \<le> 2 ^ 63" using assms total by simp
  have nn: "0 \<le> int ?h * hour" "0 \<le> int ?m * minute" "0 \<le> int ?s * second" using pos by simp_all
  have s: "duration_loop frac d (show_nat ?s @ ''s'') = Some (d + int ?s * second)"
    if "0 \<le> d" "d + int ?s * second \<le> 2 ^ 63" for d
    using duration_unit [OF duration_units(1,4), of "[]" d ?s frac] that pos
    by (simp add: duration_loop.simps [of _ _ "[]"])
  have m: "duration_loop frac d (show_nat ?m @ ''m'' @ show_nat ?s @ ''s'') = Some (d + int ?m * minute + int ?s * second)"
    if "0 \<le> d" "d + int ?m * minute + int ?s * second \<le> 2 ^ 63" for d
  proof -
    have "d + int ?m * minute \<le> 2 ^ 63" using that nn by linarith
    with duration_unit [OF duration_units(2,5), of "show_nat ?s @ ''s''" d ?m frac] that pos nn
      s [of "d + int ?m * minute"] show ?thesis by (simp add: num_or_dot_show)
  qed
  have h: "duration_loop frac 0 (show_nat ?h @ ''h'' @ show_nat ?m @ ''m'' @ show_nat ?s @ ''s'') = Some (int t * second)"
  proof -
    have "int ?h * hour \<le> 2 ^ 63" using le nn by linarith
    with duration_unit [OF duration_units(3,6), of "show_nat ?m @ ''m'' @ show_nat ?s @ ''s''" 0 ?h frac] le pos nn
      m [of "int ?h * hour"] total show ?thesis by (simp add: num_or_dot_show)
  qed
  show ?thesis
  proof (cases "t div 60 = 0")
    case True
    with s [of 0] le total show ?thesis by (simp add: seconds_text_def)
  next
    case False
    with m [of 0] h le total show ?thesis by (auto simp: seconds_text_def Let_def)
  qed
qed

text \<open>A duration of whole seconds, as the program prints it, is read back by the configuration's
  parser as the same duration: the start-up banner and \<open>Config.String\<close> show texts that a
  configuration file can hold.\<close>

theorem duration_roundtrip:
  assumes "d = int t * second" and "in_int64 d"
  shows "ParseDuration frac (Duration_String d) = Some d"
proof (cases "t = 0")
  case True
  have "duration_loop frac 0 ''0s'' = Some 0"
    using seconds_read [of 0 frac] by (simp add: seconds_text_def show_nat.simps)
  then show ?thesis using assms True by (simp add: Duration_String_def ParseDuration_def Let_def)
next
  case False
  have u: "nat \<bar>d\<bar> = t * 1000000000" using assms(1) by (simp add: second_def nat_mult_distrib)
  have "fmt_frac 9 (t * 1000000000) = []" using fmt_frac_whole [of 9 t] by simp
  moreover have "\<not> t * 1000000000 < 1000" "\<not> t * 1000000000 < 1000000" "\<not> t * 1000000000 < 1000000000" "0 < d"
    using False assms(1) by (simp_all add: second_def)
  ultimately have printed: "Duration_String d = seconds_text t"
    using u by (simp add: Duration_String_def seconds_text_def Let_def)
  have le: "int t * second \<le> 2 ^ 63" using assms by (simp add: in_int64_def)
  obtain n rest where n: "seconds_text t = show_nat n @ rest" "rest \<noteq> []"
    by (cases "t div 60 = 0"; cases "t div 60 div 60 = 0")
      (force simp: seconds_text_def Let_def intro: that)+
  have "hd (seconds_text t) \<noteq> CHR ''+''" "hd (seconds_text t) \<noteq> CHR ''-''" "seconds_text t \<noteq> []"
    using hd_show_nat [of n] not_digit_signs(1,2) n by (auto simp: hd_append)
  moreover have "seconds_text t \<noteq> ''0''" using n by (cases "show_nat n") auto
  ultimately show ?thesis
    using seconds_read [OF le, of frac] assms unfolding printed
    by (simp add: ParseDuration_def Let_def in_int64_def)
qed

lemma duration_roundtrip_witness:
  "Duration_String (600 * 1000000000) = ''10m0s'' \<and> ParseDuration (\<lambda>_ _. 0) (Duration_String 600000000000) = Some 600000000000"
  using duration_roundtrip [of 600000000000 600 "\<lambda>_ _. 0"]
  by (simp add: second_def in_int64_def Duration_String_def Let_def show_nat.simps fmt_frac_whole [of 9 600, simplified])

subsection \<open>The configuration\<close>

definition bool_text :: "bool \<Rightarrow> string" where
  "bool_text b = (if b then ''true'' else ''false'')"

definition Config_String :: "Config \<Rightarrow> string" where
  "Config_String c =
     ''Server: MaxConnections='' @ Itoa (MaxConnections (Server c))
     @ '', ReadTimeout='' @ Duration_String (ReadTimeout (Server c))
     @ '', WriteTimeout='' @ Duration_String (WriteTimeout (Server c))
     @ '', IdleTimeout='' @ Duration_String (IdleTimeout (Server c)) @ [LF]
     @ ''Engine: MaxMemory='' @ Itoa (MaxMemory (Engine c))
     @ '', EvictionPolicy='' @ EvictionPolicy (Engine c)
     @ '', EvictorCapacity='' @ Itoa (EvictorCapacity (Engine c))
     @ '', ShardCount='' @ Itoa (ShardCount (Engine c))
     @ '', DefaultTTL='' @ Duration_String (DefaultTTL (Engine c)) @ [LF]
     @ ''Persistence: RDB='' @ bool_text (RDB_Enabled (RDB (Persistence c)))
     @ '', AOF='' @ bool_text (AOF_Enabled (AOF (Persistence c)))
     @ '', JSON='' @ bool_text (JSON_Enabled (JSON (Persistence c)))"

subsection \<open>Quoted values\<close>

text \<open>\<open>strconv.Quote\<close>, the verb \<open>%q\<close>; the parameter \<open>uni\<close> quotes what is not ASCII.\<close>

definition hex_char :: "nat \<Rightarrow> char" where
  "hex_char d = (if d < 10 then char_of (48 + d) else char_of (87 + d))"

definition quote_char :: "char \<Rightarrow> string" where
  "quote_char c =
     (if c = CHR 0x22 \<or> c = CHR 0x5C then [CHR 0x5C, c]
      else if 32 \<le> (of_char c :: nat) \<and> (of_char c :: nat) < 127 then [c]
      else case map_of [(7, CHR ''a''), (8, CHR ''b''), (12, CHR ''f''), (10, CHR ''n''),
             (13, CHR ''r''), (9, CHR ''t''), (11, CHR ''v'')] (of_char c :: nat) of
        Some x \<Rightarrow> [CHR 0x5C, x]
      | None \<Rightarrow> [CHR 0x5C, CHR ''x'', hex_char (of_char c div 16), hex_char (of_char c mod 16)])"

definition Quote :: "(string \<Rightarrow> string) \<Rightarrow> string \<Rightarrow> string" where
  "Quote uni s = [CHR 0x22] @ (if list_all is_ascii s then concat (map quote_char s) else uni s) @ [CHR 0x22]"

text \<open>The array of a value is nil in the null array only.\<close>

definition RESPValue_String :: "(string \<Rightarrow> string) \<Rightarrow> RESPValue \<Rightarrow> string" where
  "RESPValue_String uni v =
     (case Type v of
        SimpleString \<Rightarrow> ''SimpleString('' @ Quote uni (Str v) @ '')''
      | Error \<Rightarrow> ''Error('' @ Quote uni (Str v) @ '')''
      | Integer \<Rightarrow> ''Integer('' @ Itoa (IntV v) @ '')''
      | BulkString \<Rightarrow>
          if IsNull v then ''BulkString(null)'' else ''BulkString('' @ Quote uni (Str v) @ '')''
      | Array \<Rightarrow>
          if IsNull v then ''Array(null)''
          else ''Array('' @ Itoa (int (length (Elems v))) @ '' elements)'')"

text \<open>Whatever bytes a client sends, the text of an ASCII value is one line of printable characters:
  control characters do not reach a log or a terminal.\<close>

definition printable :: "char \<Rightarrow> bool" where
  "printable c \<longleftrightarrow> 32 \<le> (of_char c :: nat) \<and> (of_char c :: nat) < 127"

lemma hex_char_printable: "d < 16 \<Longrightarrow> printable (hex_char d)"
  by (simp add: printable_def hex_char_def)

lemma quote_char_printable: "is_ascii c \<Longrightarrow> list_all printable (quote_char c)"
proof -
  assume "is_ascii c"
  then have n: "(of_char c :: nat) < 128" by (simp add: is_ascii_def)
  have "printable CHR 0x5C" "printable CHR ''x''" "list_all printable ''abfnrtv''" by code_simp+
  moreover have "printable (hex_char (of_char c div 16))" "printable (hex_char (of_char c mod 16))"
    using n by (auto intro!: hex_char_printable)
  ultimately show ?thesis by (auto simp: quote_char_def printable_def)
qed

lemma printable_digit: "is_digit c \<Longrightarrow> printable c"
  by (simp add: is_digit_def printable_def)

lemma Itoa_printable: "list_all printable (Itoa i)"
proof -
  have "printable CHR ''-''" by code_simp
  then show ?thesis using Itoa_no_newline [of _ i] printable_digit by (auto simp: list_all_iff)
qed

lemma Quote_printable: "list_all is_ascii s \<Longrightarrow> list_all printable (Quote uni s)"
proof -
  assume s: "list_all is_ascii s"
  have "printable CHR 0x22" by code_simp
  moreover have "list_all printable (concat (map quote_char s))"
    using s quote_char_printable by (induction s) auto
  ultimately show ?thesis using s by (simp add: Quote_def)
qed

theorem value_text_printable:
  assumes "list_all is_ascii (Str v)"
  shows "list_all printable (RESPValue_String uni v)"
proof -
  have "list_all printable ''SimpleString()''" "list_all printable ''Error()''" "list_all printable ''Integer()''"
    "list_all printable ''BulkString(null)''" "list_all printable ''Array(null)''" "list_all printable ''Array( elements)''"
    by code_simp+
  then show ?thesis
    using Quote_printable [OF assms, of uni] Itoa_printable
    by (cases "Type v") (simp_all add: RESPValue_String_def)
qed

subsection \<open>Memory and handlers\<close>

definition quoted_key :: "string \<Rightarrow> string" where
  "quoted_key k = [CHR 0x22] @ k @ [CHR 0x22]"

text \<open>\<open>PrintMemoryUsage\<close> of the numbers that \<open>runtime.ReadMemStats\<close> gives: bytes allocated, allocated in
  total, obtained from the system, and the number of collections.  It is \<open>mem_stats\<close> of the handlers.\<close>

definition PrintMemoryUsage :: "int \<Rightarrow> int \<Rightarrow> int \<Rightarrow> int \<Rightarrow> string" where
  "PrintMemoryUsage alloc totalAlloc sys numGC =
     ''{'' @ quoted_key ''alloc'' @ '': '' @ quoted_key (format_2f alloc 1024 @ '' KB'')
     @ '', '' @ quoted_key ''total_alloc'' @ '': '' @ quoted_key (format_2f totalAlloc 1024 @ '' KB'')
     @ '', '' @ quoted_key ''sys'' @ '': '' @ quoted_key (format_2f sys (1024 * 1024) @ '' MB'')
     @ '', '' @ quoted_key ''num_gc'' @ '': '' @ quoted_key (Itoa numGC) @ ''}''"

definition RegisterHandler :: "(string \<Rightarrow> string) \<Rightarrow> string \<Rightarrow> command \<Rightarrow> command gomap \<Rightarrow> command gomap" where
  "RegisterHandler uni cmd h hs = map_put (ToUpper uni cmd) h hs"

text \<open>The calls in \<open>main\<close>, in their order.\<close>

definition register_all :: "(string \<Rightarrow> string) \<Rightarrow> command gomap" where
  "register_all uni = foldl (\<lambda>hs (cmd, h). RegisterHandler uni cmd h hs) [] commands"

lemma register_fold:
  "\<forall>(n, h) \<in> set xs. ToUpper uni n = n \<Longrightarrow> distinct (map fst xs) \<Longrightarrow>
     map_of (foldl (\<lambda>hs (cmd, h). RegisterHandler uni cmd h hs) hs xs) = map_of hs ++ map_of xs"
proof (induction xs arbitrary: hs)
  case (Cons p xs)
  obtain n h where p: "p = (n, h)" by force
  have "map_of xs n = None" using Cons.prems(2) p by (simp add: map_of_eq_None_iff image_iff)
  moreover have "map_of (RegisterHandler uni n h hs) = (map_of hs)(n \<mapsto> h)"
    using Cons.prems(1) p by (auto simp: RegisterHandler_def)
  ultimately show ?case
    using Cons p by (auto simp: map_add_def fun_eq_iff split: option.split)
qed simp

text \<open>What the server finds under a name is the handler that the table of the theory Commands has.\<close>

theorem registered_handlers: "map_of (register_all uni) cmd = GetHandler cmd"
proof -
  have "list_all (\<lambda>(n, h). ToUpper uni n = n) commands"
    unfolding commands_def by (simp add: ToUpper_def is_ascii_def upper_char_def)
  moreover have "distinct (map fst commands)" unfolding commands_def by simp
  ultimately show ?thesis
    using register_fold [of commands uni "[]"] by (simp add: register_all_def GetHandler_def list_all_iff)
qed

subsection \<open>The report on the JSON snapshot\<close>

datatype stat_result = StatMissing | StatError | StatOk int int

datatype info_value = InfoBool bool | InfoStr string | InfoInt int

text \<open>\<open>time.Since\<close> saturates.\<close>

definition clamp64 :: "int \<Rightarrow> int" where
  "clamp64 x = max (- (2 ^ 63)) (min (2 ^ 63 - 1) x)"

text \<open>\<open>None\<close> is an error; \<open>now\<close> is the clock, \<open>rfc3339\<close> and \<open>fmt_1f\<close> format the time and the size.\<close>

definition JSON_Info ::
  "(int \<Rightarrow> int \<Rightarrow> string) \<Rightarrow> (int \<Rightarrow> string) \<Rightarrow> int \<Rightarrow> stat_result \<Rightarrow> JSONConfig
     \<Rightarrow> (string \<times> info_value) list option outcome" where
  "JSON_Info fmt_1f rfc3339 now info cfg =
     (case info of
        StatMissing \<Rightarrow> Ret (Some [(''exists'', InfoBool False), (''message'', InfoStr ''No snapshot file found'')])
      | StatError \<Rightarrow> Ret None
      | StatOk bytes modified \<Rightarrow>
          (case formatSize fmt_1f bytes of
             Panic \<Rightarrow> Panic
           | Ret human \<Rightarrow> Ret (Some
               [(''exists'', InfoBool True), (''path'', InfoStr (JSON_Path cfg)), (''size_bytes'', InfoInt bytes),
                (''size_human'', InfoStr human), (''modified'', InfoStr (rfc3339 modified)),
                (''age'', InfoStr (Duration_String (clamp64 (now - modified))))])))"

theorem JSON_Info_returns:
  assumes "\<And>bytes t. info = StatOk bytes t \<Longrightarrow> in_int64 bytes"
  shows "JSON_Info fmt_1f rfc3339 now info cfg \<noteq> Panic"
proof (cases info)
  case (StatOk bytes t)
  then have bytes: "in_int64 bytes" using assms by blast
  have "formatSize fmt_1f bytes \<noteq> Panic"
  proof (cases "1024 \<le> bytes")
    case True
    with formatSize_unit [OF bytes True, of fmt_1f] show ?thesis by auto
  qed (simp add: formatSize_def)
  then show ?thesis by (auto simp: JSON_Info_def StatOk split: outcome.split)
qed (simp_all add: JSON_Info_def)

end
